(* ===== verification/Js_Prelude.thy ===== *)
theory Js_Prelude
  imports Main "HOL-Library.Multiset" "HOL-Library.Sublist" "HOL-Library.Code_Target_Numeral"
begin

section \<open>JavaScript strings and arrays\<close>

text \<open>
  The part of the JavaScript standard library that the modelled TypeScript uses on
  strings and arrays.  A JavaScript string is modelled as the byte string of its UTF-8
  encoding, so that a character outside ASCII (the full-width comma, the arrow) is a
  short sequence of \<^typ>\<open>char\<close>s.  Every operation below (splitting at an ASCII
  separator, joining, trimming, comparing, searching) commutes with that encoding.
  \<^const>\<open>length\<close> counts bytes; the components that read a length do so on ASCII text
  only and say so.

  The simp rules that describe these operations are collected in \<open>js_simps\<close>.
\<close>

named_theorems js_simps \<open>characteristic equations of the modelled string operations\<close>

type_synonym jsstring = string

lemma find_append: "find P (xs @ ys) = (case find P xs of None \<Rightarrow> find P ys | Some x \<Rightarrow> Some x)"
  by (induction xs) auto

text \<open>\<open>xs.findIndex(P)\<close>, None where the language answers -1.\<close>

fun find_index :: "('a \<Rightarrow> bool) \<Rightarrow> 'a list \<Rightarrow> nat option" where
  "find_index P [] = None"
| "find_index P (x # xs) = (if P x then Some 0 else map_option Suc (find_index P xs))"

lemma find_index_Some:
  "find_index P xs = Some i \<longleftrightarrow> i < length xs \<and> P (xs ! i) \<and> (\<forall>j < i. \<not> P (xs ! j))"
proof (induction xs arbitrary: i)
  case (Cons x xs)
  then show ?case by (cases i) (auto simp: All_less_Suc2)
qed simp

lemma find_index_None: "find_index P xs = None \<longleftrightarrow> (\<forall>x\<in>set xs. \<not> P x)"
  by (induction xs) auto

subsection \<open>White space and trimming\<close>

text \<open>The white space and line terminators that \<open>trim\<close> and \<open>\s\<close> recognise, as UTF-8 sequences.\<close>

definition js_ws :: "string list" where
  "js_ws =
     [[CHR 0x20], [CHR 0x09], [CHR 0x0A], [CHR 0x0B], [CHR 0x0C], [CHR 0x0D],
      [CHR 0xC2, CHR 0xA0], [CHR 0xE1, CHR 0x9A, CHR 0x80],
      [CHR 0xE2, CHR 0x80, CHR 0x80], [CHR 0xE2, CHR 0x80, CHR 0x81],
      [CHR 0xE2, CHR 0x80, CHR 0x82], [CHR 0xE2, CHR 0x80, CHR 0x83],
      [CHR 0xE2, CHR 0x80, CHR 0x84], [CHR 0xE2, CHR 0x80, CHR 0x85],
      [CHR 0xE2, CHR 0x80, CHR 0x86], [CHR 0xE2, CHR 0x80, CHR 0x87],
      [CHR 0xE2, CHR 0x80, CHR 0x88], [CHR 0xE2, CHR 0x80, CHR 0x89],
      [CHR 0xE2, CHR 0x80, CHR 0x8A], [CHR 0xE2, CHR 0x80, CHR 0xA8],
      [CHR 0xE2, CHR 0x80, CHR 0xA9], [CHR 0xE2, CHR 0x80, CHR 0xAF],
      [CHR 0xE2, CHR 0x81, CHR 0x9F], [CHR 0xE3, CHR 0x80, CHR 0x80],
      [CHR 0xEF, CHR 0xBB, CHR 0xBF]]"

text \<open>The length of the white-space character a string starts with, 0 when there is none.\<close>

definition ws_head :: "string \<Rightarrow> nat" where
  "ws_head s = (case find (\<lambda>w. take (length w) s = w) js_ws of None \<Rightarrow> 0 | Some w \<Rightarrow> length w)"

definition ws_last :: "string \<Rightarrow> nat" where
  "ws_last s = (case find (\<lambda>w. take (length w) (rev s) = rev w) js_ws of None \<Rightarrow> 0 | Some w \<Rightarrow> length w)"

lemma js_ws_nonempty: "w \<in> set js_ws \<Longrightarrow> 0 < length w"
  by (auto simp: js_ws_def)

lemma ws_head_le: "ws_head s \<le> length s"
  by (auto simp: ws_head_def find_Some_iff split: option.splits)
    (metis length_take min.cobounded1)

lemma ws_last_le: "ws_last s \<le> length s"
proof (cases "find (\<lambda>w. take (length w) (rev s) = rev w) js_ws")
  case (Some w)
  then have "take (length w) (rev s) = rev w" by (auto simp: find_Some_iff)
  then have "length (take (length w) (rev s)) = length w" by simp
  with Some show ?thesis by (simp add: ws_last_def)
qed (simp add: ws_last_def)

lemma ws_head_Nil [simp]: "ws_head [] = 0"
  using ws_head_le [of "[]"] by simp

lemma ws_last_Nil [simp]: "ws_last [] = 0"
  using ws_last_le [of "[]"] by simp

function trim_start :: "string \<Rightarrow> string" where
  "trim_start s = (if ws_head s = 0 then s else trim_start (drop (ws_head s) s))"
  by pat_completeness auto
termination
proof (relation "measure length")
  fix s :: string
  assume "ws_head s \<noteq> 0"
  then show "(drop (ws_head s) s, s) \<in> measure length"
    using ws_head_le [of s] by (cases s) auto
qed simp

function trim_end :: "string \<Rightarrow> string" where
  "trim_end s = (if ws_last s = 0 then s else trim_end (take (length s - ws_last s) s))"
  by pat_completeness auto
termination
proof (relation "measure length")
  fix s :: string
  assume "ws_last s \<noteq> 0"
  then show "(take (length s - ws_last s) s, s) \<in> measure length"
    using ws_last_le [of s] by (cases s) auto
qed simp

declare trim_start.simps [simp del] trim_end.simps [simp del]

text \<open>\<open>String.prototype.trim\<close>.\<close>

definition trim :: "string \<Rightarrow> string" where
  "trim s = trim_end (trim_start s)"

text \<open>\<open>s.replace(/\s/g, '')\<close>: every white-space character removed.\<close>

function strip_ws :: "string \<Rightarrow> string" where
  "strip_ws s =
     (if ws_head s = 0 then (case s of [] \<Rightarrow> [] | c # cs \<Rightarrow> c # strip_ws cs)
      else strip_ws (drop (ws_head s) s))"
  by pat_completeness auto
termination
proof (relation "measure length")
  fix s :: string
  assume "ws_head s \<noteq> 0"
  then show "(drop (ws_head s) s, s) \<in> measure length"
    using ws_head_le [of s] by (cases s) auto
qed auto

declare strip_ws.simps [simp del]

lemma ws_last_trim_end: "ws_last (trim_end s) = 0"
  by (induction s rule: trim_end.induct) (subst trim_end.simps, simp)

lemma trim_end_idem: "ws_last s = 0 \<Longrightarrow> trim_end s = s"
  by (subst trim_end.simps) simp

lemma trim_start_idem: "ws_head s = 0 \<Longrightarrow> trim_start s = s"
  by (subst trim_start.simps) simp

lemma ws_head_trim_start: "ws_head (trim_start s) = 0"
  by (induction s rule: trim_start.induct) (subst trim_start.simps, simp)

lemma trim_end_prefix: "prefix (trim_end s) s"
proof (induction s rule: trim_end.induct)
  case (1 s)
  then show ?case
    by (subst trim_end.simps) (auto intro: prefix_order.trans take_is_prefix)
qed

lemma trim_start_suffix: "suffix (trim_start s) s"
proof (induction s rule: trim_start.induct)
  case (1 s)
  then show ?case
    by (subst trim_start.simps) (auto intro: suffix_order.trans suffix_drop)
qed

lemma ws_head_0_iff: "ws_head s = 0 \<longleftrightarrow> (\<forall>w\<in>set js_ws. \<not> prefix w s)"
proof -
  have eq: "(take (length w) s = w) = prefix w s" for w
    by (metis append_eq_conv_conj append_take_drop_id prefix_def take_is_prefix)
  show ?thesis
    by (auto simp: ws_head_def eq find_None_iff find_Some_iff split: option.splits
        dest: js_ws_nonempty nth_mem)
qed

lemma ws_last_0_iff: "ws_last s = 0 \<longleftrightarrow> (\<forall>w\<in>set js_ws. \<not> suffix w s)"
proof -
  have eq: "(take (length w) (rev s) = rev w) = suffix w s" for w
    by (metis append_eq_conv_conj length_rev prefix_def suffix_to_prefix append_take_drop_id)
  show ?thesis
    by (auto simp: ws_last_def eq find_None_iff find_Some_iff split: option.splits
        dest: js_ws_nonempty nth_mem)
qed

lemma ws_head_prefix: "ws_head s = 0 \<Longrightarrow> prefix t s \<Longrightarrow> ws_head t = 0"
  by (auto simp: ws_head_0_iff intro: prefix_order.trans)

lemma ws_head_trim [simp]: "ws_head (trim s) = 0"
  unfolding trim_def by (rule ws_head_prefix [OF ws_head_trim_start trim_end_prefix])

lemma ws_last_trim [simp]: "ws_last (trim s) = 0"
  by (simp add: trim_def ws_last_trim_end)

lemma length_trim: "length (trim s) \<le> length s"
  using trim_end_prefix [of "trim_start s"] trim_start_suffix [of s]
  by (auto simp: trim_def dest!: prefix_length_le suffix_length_le)

lemma trim_fixed: "ws_head s = 0 \<Longrightarrow> ws_last s = 0 \<Longrightarrow> trim s = s"
  by (simp add: trim_def trim_start_idem trim_end_idem)

lemma trim_trim [simp]: "trim (trim s) = trim s"
  by (rule trim_fixed) simp_all

lemma trim_Nil [simp]: "trim [] = []"
  by (rule trim_fixed) simp_all

lemma set_trim: "set (trim s) \<subseteq> set s"
proof -
  have "set (trim_end t) \<subseteq> set t" for t
    using trim_end_prefix [of t] by (rule set_mono_prefix)
  moreover have "set (trim_start s) \<subseteq> set s"
    using trim_start_suffix by (rule set_mono_suffix)
  ultimately show ?thesis unfolding trim_def by blast
qed

text \<open>Printable ASCII: such a character neither starts nor ends a white-space sequence.\<close>

definition graphic :: "char \<Rightarrow> bool" where
  "graphic c \<longleftrightarrow> (0x20::nat) < of_char c \<and> of_char c < (0x7F::nat)"

lemma graphic_not_ws: "graphic c \<Longrightarrow> w \<in> set js_ws \<Longrightarrow> hd w \<noteq> c \<and> last w \<noteq> c"
  by (auto simp: js_ws_def graphic_def)

lemma ws_head_graphic: "graphic c \<Longrightarrow> ws_head (c # s) = 0"
  unfolding ws_head_0_iff
proof (intro ballI notI)
  fix w assume "graphic c" "w \<in> set js_ws" "prefix w (c # s)"
  then show False
    using js_ws_nonempty [of w] graphic_not_ws [of c w] by (cases w) auto
qed

lemma ws_last_graphic: "graphic c \<Longrightarrow> ws_last (s @ [c]) = 0"
  unfolding ws_last_0_iff
proof (intro ballI notI)
  fix w assume g: "graphic c" "w \<in> set js_ws" and "suffix w (s @ [c])"
  then obtain u where u: "s @ [c] = u @ w" by (auto simp: suffix_def)
  have "w \<noteq> []" using js_ws_nonempty g(2) by blast
  then have "last w = c" using u by (metis last_appendR last_snoc)
  with graphic_not_ws [OF g] show False by blast
qed

text \<open>Executable shortcuts: a graphic character at either end decides the test at once.\<close>

lemma ws_head_code [code]:
  "ws_head s =
     (case s of [] \<Rightarrow> 0
      | c # _ \<Rightarrow> if graphic c then 0
          else case find (\<lambda>w. take (length w) s = w) js_ws of None \<Rightarrow> 0 | Some w \<Rightarrow> length w)"
  by (cases s) (simp_all add: ws_head_graphic, simp add: ws_head_def)

lemma ws_last_code [code]:
  "ws_last s =
     (if s = [] then 0
      else if graphic (last s) then 0
      else case find (\<lambda>w. take (length w) (rev s) = rev w) js_ws of None \<Rightarrow> 0 | Some w \<Rightarrow> length w)"
proof (cases "s = [] \<or> graphic (last s)")
  case True
  then show ?thesis
    using ws_last_graphic [of "last s" "butlast s"] by (cases "s = []") auto
qed (auto simp: ws_last_def)

lemma trim_graphic:
  "s \<noteq> [] \<Longrightarrow> graphic (hd s) \<Longrightarrow> graphic (last s) \<Longrightarrow> trim s = s"
  by (metis append_butlast_last_id hd_Cons_tl trim_fixed ws_head_graphic ws_last_graphic)

lemma strip_ws_graphic: "(\<And>c. c \<in> set s \<Longrightarrow> graphic c) \<Longrightarrow> strip_ws s = s"
  by (induction s) (subst strip_ws.simps, simp add: ws_head_graphic)+

subsection \<open>Splitting, joining, searching\<close>

text \<open>\<open>s.split(c)\<close> for a one-character separator; the empty string gives one empty part.\<close>

fun split_on :: "char \<Rightarrow> string \<Rightarrow> string list" where
  "split_on c [] = [[]]"
| "split_on c (x # xs) =
     (if x = c then [] # split_on c xs
      else (case split_on c xs of [] \<Rightarrow> [[x]] | y # ys \<Rightarrow> (x # y) # ys))"

text \<open>\<open>xs.join(sep)\<close>.\<close>

fun join :: "string \<Rightarrow> string list \<Rightarrow> string" where
  "join sep [] = []"
| "join sep [x] = x"
| "join sep (x # y # ys) = x @ sep @ join sep (y # ys)"

lemma split_on_neq_Nil [simp]: "split_on c s \<noteq> []"
  by (induction s) (auto split: list.splits)

lemma split_on_no_sep: "c \<notin> set s \<Longrightarrow> split_on c s = [s]"
  by (induction s) auto

lemma split_on_append:
  "c \<notin> set s \<Longrightarrow> split_on c (s @ c # t) = s # split_on c t"
  by (induction s) auto

lemma split_on_sep: "split_on c (s @ c # t) = split_on c s @ split_on c t"
  by (induction s) (auto split: list.splits)

lemma split_on_prepend:
  "c \<notin> set w \<Longrightarrow> split_on c (w @ s) = (w @ hd (split_on c s)) # tl (split_on c s)"
  by (induction w) (auto split: list.splits)

lemma join_Cons: "ys \<noteq> [] \<Longrightarrow> join sep (x # ys) = x @ sep @ join sep ys"
  by (cases ys) auto

lemma join_Cons_hd: "join sep ((c # x) # ys) = c # join sep (x # ys)"
  by (cases ys) auto

lemma split_on_join:
  "xs \<noteq> [] \<Longrightarrow> (\<And>x. x \<in> set xs \<Longrightarrow> c \<notin> set x) \<Longrightarrow> split_on c (join [c] xs) = xs"
  by (induction "[c]" xs rule: join.induct) (auto simp: split_on_no_sep split_on_append)

lemma join_split_on: "join [c] (split_on c s) = s"
proof (induction s)
  case (Cons x xs)
  then show ?case by (cases "split_on c xs") (auto simp: join_Cons join_Cons_hd)
qed simp

lemma split_on_parts: "t \<in> set (split_on c s) \<Longrightarrow> c \<notin> set t"
  by (induction s arbitrary: t) (auto split: list.splits if_splits)

lemma set_split_on: "t \<in> set (split_on c s) \<Longrightarrow> set t \<subseteq> set s"
proof (induction s arbitrary: t)
  case (Cons x xs)
  then show ?case by (cases "split_on c xs") (fastforce split: if_splits)+
qed simp

lemma set_join: "set (join sep xs) \<subseteq> set sep \<union> (\<Union>x\<in>set xs. set x)"
  by (induction sep xs rule: join.induct) auto

text \<open>\<open>s.includes(t)\<close> and \<open>s.indexOf(t)\<close>, the latter with \<open>-1\<close> as \<^const>\<open>None\<close>.\<close>

text \<open>The lines of a text that is all white space.\<close>

lemma js_ws_prefix_free: "w \<in> set js_ws \<Longrightarrow> w' \<in> set js_ws \<Longrightarrow> prefix w w' \<Longrightarrow> w = w'"
proof -
  have "list_all (\<lambda>w. list_all (\<lambda>w'. \<not> prefix w w' \<or> w = w') js_ws) js_ws" by code_simp
  then show "w \<in> set js_ws \<Longrightarrow> w' \<in> set js_ws \<Longrightarrow> prefix w w' \<Longrightarrow> w = w'"
    by (auto simp: list_all_iff)
qed

lemma ws_head_append: "w \<in> set js_ws \<Longrightarrow> ws_head (w @ s) = length w"
proof -
  assume w: "w \<in> set js_ws"
  obtain v where v: "find (\<lambda>v. take (length v) (w @ s) = v) js_ws = Some v"
    using w by (cases "find (\<lambda>v. take (length v) (w @ s) = v) js_ws") (auto simp: find_None_iff)
  then have "v \<in> set js_ws" "take (length v) (w @ s) = v"
    by (auto simp: find_Some_iff simp del: take_append)
  then have "v \<in> set js_ws" "prefix v (w @ s)" by (metis take_is_prefix)+
  with w have "v = w" by (metis js_ws_prefix_free prefix_same_cases prefixI)
  with v show ?thesis by (simp add: ws_head_def)
qed

lemma ws_head_split:
  assumes "ws_head s \<noteq> 0"
  obtains w t where "w \<in> set js_ws" "s = w @ t" "drop (ws_head s) s = t"
proof -
  from assms obtain w where "w \<in> set js_ws" "prefix w s" by (auto simp: ws_head_0_iff)
  then show thesis using that ws_head_append by (auto simp: prefix_def)
qed

lemma trim_end_Nil: "trim_end s = [] \<Longrightarrow> s = [] \<or> ws_head s \<noteq> 0"
proof (induction s rule: trim_end.induct)
  case (1 s)
  show ?case
  proof (cases "ws_last s = 0")
    case True
    with 1 show ?thesis by (simp add: trim_end_idem)
  next
    case False
    let ?t = "take (length s - ws_last s) s"
    from False obtain w where w: "w \<in> set js_ws" "suffix w s" by (auto simp: ws_last_0_iff)
    have "trim_end ?t = []" using 1(2) False by (subst (asm) trim_end.simps) simp
    with 1(1) False have "?t = [] \<or> ws_head ?t \<noteq> 0" by blast
    then show ?thesis
    proof
      assume "?t = []"
      then have "ws_last s = length s" using ws_last_le [of s] by (cases s) auto
      moreover obtain v where v: "find (\<lambda>w. take (length w) (rev s) = rev w) js_ws = Some v"
        using False by (cases "find (\<lambda>w. take (length w) (rev s) = rev w) js_ws") (auto simp: ws_last_def)
      ultimately have "length v = length s" by (simp add: ws_last_def)
      moreover from v have "v \<in> set js_ws" "take (length v) (rev s) = rev v"
        by (auto simp: find_Some_iff)
      ultimately have "v = s" by simp
      with \<open>v \<in> set js_ws\<close> show ?thesis using js_ws_nonempty [of s] by (auto simp: ws_head_0_iff)
    next
      assume "ws_head ?t \<noteq> 0"
      then show ?thesis using ws_head_prefix [OF _ take_is_prefix, of s "length s - ws_last s"] by auto
    qed
  qed
qed

lemma trim_Nil_start: "trim s = [] \<Longrightarrow> trim_start s = []"
  using trim_end_Nil [of "trim_start s"] by (auto simp: trim_def ws_head_trim_start)

lemma blank_lines:
  assumes "trim s = []" "l \<in> set (split_on (CHR 0x0A) s)"
  shows "trim l = []"
proof -
  have "\<forall>l\<in>set (split_on (CHR 0x0A) s). trim_start l = []" if "trim_start s = []" for s
    using that
  proof (induction s rule: trim_start.induct)
    case (1 s)
    show ?case
    proof (cases "ws_head s = 0")
      case True
      with 1(2) show ?thesis by (simp add: trim_start_idem)
    next
      case False
      then obtain w t where w: "w \<in> set js_ws" "s = w @ t" "drop (ws_head s) s = t" by (rule ws_head_split)
      have "trim_start t = []" using 1(2) False w(3) by (subst (asm) trim_start.simps) simp
      with 1(1) False w(3) have IH: "\<forall>l\<in>set (split_on (CHR 0x0A) t). trim_start l = []" by simp
      have drop: "trim_start (w @ l) = trim_start l" for l
        using w(1) js_ws_nonempty [of w] by (subst trim_start.simps) (simp add: ws_head_append)
      have "w = [CHR 0x0A] \<or> CHR 0x0A \<notin> set w" using w(1) by (auto simp: js_ws_def)
      then show ?thesis
      proof
        assume "w = [CHR 0x0A]"
        with IH w(2) show ?thesis by (simp add: trim_start_idem)
      next
        assume "CHR 0x0A \<notin> set w"
        moreover have "set (tl (split_on (CHR 0x0A) t)) \<subseteq> set (split_on (CHR 0x0A) t)"
          by (cases "split_on (CHR 0x0A) t") auto
        ultimately show ?thesis using IH w(2) by (auto simp: split_on_prepend drop)
      qed
    qed
  qed
  with assms have "trim_start l = []" by (blast dest: trim_Nil_start)
  then show ?thesis by (simp add: trim_def trim_end_idem)
qed

fun index_of :: "string \<Rightarrow> string \<Rightarrow> nat option" where
  "index_of t [] = (if t = [] then Some 0 else None)"
| "index_of t (c # s) = (if prefix t (c # s) then Some 0 else map_option Suc (index_of t s))"

definition str_includes :: "string \<Rightarrow> string \<Rightarrow> bool" where
  "str_includes s t \<longleftrightarrow> index_of t s \<noteq> None"

lemma index_of_Some:
  "index_of t s = Some i \<Longrightarrow> i + length t \<le> length s \<and> take (length t) (drop i s) = t"
proof (induction s arbitrary: i)
  case (Cons c s)
  show ?case
  proof (cases "prefix t (c # s)")
    case True
    with Cons.prems show ?thesis
      using prefix_length_le [OF True] by (auto simp: prefix_def)
  next
    case False
    with Cons show ?thesis by auto
  qed
qed (auto split: if_splits)

lemma index_of_None: "index_of t s = None \<longleftrightarrow> \<not> sublist t s"
  by (induction s) (simp_all add: sublist_Cons_right)

lemma str_includes_iff: "str_includes s t \<longleftrightarrow> sublist t s"
  using index_of_None [of t s] by (simp add: str_includes_def del: not_None_eq)

lemma str_includes_char [js_simps]: "str_includes s [c] \<longleftrightarrow> c \<in> set s"
  by (auto simp: str_includes_iff sublist_def in_set_conv_decomp)

lemma not_sublist_char: "c \<in> set t \<Longrightarrow> c \<notin> set s \<Longrightarrow> \<not> sublist t s"
  using set_mono_sublist by blast

text \<open>\<open>s.replace(/t/g, u)\<close> for a fixed non-empty string \<open>t\<close>.\<close>

fun replace_skip :: "nat \<Rightarrow> string \<Rightarrow> string \<Rightarrow> string \<Rightarrow> string" where
  "replace_skip k t u [] = []"
| "replace_skip (Suc k) t u (c # s) = replace_skip k t u s"
| "replace_skip 0 t u (c # s) =
     (if prefix t (c # s) then u @ replace_skip (length t - 1) t u s
      else c # replace_skip 0 t u s)"

definition replace_all :: "string \<Rightarrow> string \<Rightarrow> string \<Rightarrow> string" where
  "replace_all t u s = replace_skip 0 t u s"

lemma replace_all_id: "t \<noteq> [] \<Longrightarrow> \<not> sublist t s \<Longrightarrow> replace_all t u s = s"
  unfolding replace_all_def
  by (induction "0::nat" t u s rule: replace_skip.induct) (auto simp: sublist_Cons_right)

subsection \<open>Sets as ordered arrays\<close>

text \<open>\<open>Array.from(new Set(xs))\<close>: the first occurrence of every element, in order.\<close>

fun uniq_from :: "'a list \<Rightarrow> 'a list \<Rightarrow> 'a list" where
  "uniq_from seen [] = []"
| "uniq_from seen (x # xs) =
     (if x \<in> set seen then uniq_from seen xs else x # uniq_from (x # seen) xs)"

definition uniq :: "'a list \<Rightarrow> 'a list" where
  "uniq xs = uniq_from [] xs"

lemma set_uniq_from: "set (uniq_from seen xs) = set xs - set seen"
  by (induction seen xs rule: uniq_from.induct) auto

lemma distinct_uniq_from: "distinct (uniq_from seen xs)"
  by (induction seen xs rule: uniq_from.induct) (auto simp: set_uniq_from)

lemma set_uniq [simp]: "set (uniq xs) = set xs"
  by (simp add: uniq_def set_uniq_from)

lemma distinct_uniq [simp]: "distinct (uniq xs)"
  by (simp add: uniq_def distinct_uniq_from)

lemma uniq_from_distinct: "distinct xs \<Longrightarrow> set xs \<inter> set seen = {} \<Longrightarrow> uniq_from seen xs = xs"
  by (induction seen xs rule: uniq_from.induct) auto

lemma uniq_distinct: "distinct xs \<Longrightarrow> uniq xs = xs"
  by (simp add: uniq_def uniq_from_distinct)

lemma uniq_uniq [simp]: "uniq (uniq xs) = uniq xs"
  by (simp add: uniq_distinct)

lemma uniq_Nil [simp]: "uniq [] = []"
  by (simp add: uniq_def)

lemma length_uniq_from: "length (uniq_from seen xs) \<le> length xs"
  by (induction seen xs rule: uniq_from.induct) auto

lemma length_uniq: "length (uniq xs) \<le> length xs"
  by (simp add: uniq_def length_uniq_from)

lemma length_uniq_card: "length (uniq xs) = card (set xs)"
  by (metis distinct_card distinct_uniq set_uniq)

lemma subseq_uniq_from: "subseq (uniq_from seen xs) xs"
  by (induction seen xs rule: uniq_from.induct) auto

lemma subseq_uniq: "subseq (uniq xs) xs"
  by (simp add: uniq_def subseq_uniq_from)

subsection \<open>Sorting with a comparator\<close>

text \<open>
  \<open>Array.prototype.sort\<close> is stable.  For a comparator that is a total preorder the
  stable result is unique, so insertion from the right models it.
\<close>

fun insert_by :: "('a \<Rightarrow> 'a \<Rightarrow> int) \<Rightarrow> 'a \<Rightarrow> 'a list \<Rightarrow> 'a list" where
  "insert_by cmp x [] = [x]"
| "insert_by cmp x (y # ys) = (if cmp x y \<le> 0 then x # y # ys else y # insert_by cmp x ys)"

definition sort_by :: "('a \<Rightarrow> 'a \<Rightarrow> int) \<Rightarrow> 'a list \<Rightarrow> 'a list" where
  "sort_by cmp xs = foldr (insert_by cmp) xs []"

lemma mset_insert_by [simp]: "mset (insert_by cmp x xs) = add_mset x (mset xs)"
  by (induction xs) auto

lemma mset_sort_by [simp]: "mset (sort_by cmp xs) = mset xs"
  by (induction xs) (auto simp: sort_by_def)

lemma set_sort_by [simp]: "set (sort_by cmp xs) = set xs"
  by (rule mset_eq_setD) simp

lemma length_sort_by [simp]: "length (sort_by cmp xs) = length xs"
  by (rule mset_eq_length) simp

lemma distinct_sort_by [simp]: "distinct (sort_by cmp xs) = distinct xs"
  by (rule mset_eq_imp_distinct_iff) simp

locale comparator =
  fixes cmp :: "'a \<Rightarrow> 'a \<Rightarrow> int"
  assumes cmp_total: "cmp x y \<le> 0 \<or> cmp y x \<le> 0"
    and cmp_trans: "cmp x y \<le> 0 \<Longrightarrow> cmp y z \<le> 0 \<Longrightarrow> cmp x z \<le> 0"
begin

definition ordered :: "'a list \<Rightarrow> bool" where
  "ordered xs = sorted_wrt (\<lambda>x y. cmp x y \<le> 0) xs"

lemma ordered_insert_by: "ordered xs \<Longrightarrow> ordered (insert_by cmp x xs)"
proof (induction xs)
  case (Cons y ys)
  have set_ins: "set (insert_by cmp x ys) = insert x (set ys)"
    by (simp flip: set_mset_mset)
  from Cons show ?case
    using cmp_total [of x y] by (auto simp: ordered_def set_ins intro: cmp_trans)
qed (simp add: ordered_def)

lemma ordered_sort_by: "ordered (sort_by cmp xs)"
  by (induction xs) (auto simp: sort_by_def ordered_insert_by, simp add: ordered_def)

lemma insert_by_front: "\<forall>y\<in>set ys. cmp x y \<le> 0 \<Longrightarrow> insert_by cmp x ys = x # ys"
  by (cases ys) auto

lemma sort_by_ordered_id: "ordered xs \<Longrightarrow> sort_by cmp xs = xs"
proof (induction xs)
  case (Cons x xs)
  then have "sort_by cmp xs = xs" and "\<forall>y\<in>set xs. cmp x y \<le> 0"
    by (auto simp: ordered_def)
  then show ?case by (simp add: sort_by_def insert_by_front)
qed (simp add: sort_by_def)

end

subsection \<open>The length of a text\<close>

text \<open>\<open>s.length\<close>, the number of UTF-16 code units, of a text given as UTF-8.\<close>

definition code_units :: "char \<Rightarrow> nat" where
  "code_units c = (let n = (of_char c :: nat) in if 128 \<le> n \<and> n < 192 then 0 else if 240 \<le> n then 2 else 1)"

definition js_length :: "string \<Rightarrow> nat" where
  "js_length s = sum_list (map code_units s)"

subsection \<open>Lists of options\<close>

lemma set_map_filter: "set (List.map_filter f xs) = {y. \<exists>x\<in>set xs. f x = Some y}"
  by (auto simp: List.map_filter_def image_iff) force

lemma those_Some_Nil: "those xs = Some [] \<longleftrightarrow> xs = []"
  by (cases xs) (auto split: option.splits)

lemma those_map_Some: "those (map (\<lambda>x. Some (f x)) xs) = Some (map f xs)"
  by (induction xs) auto

subsection \<open>Comma-separated lists\<close>

text \<open>
  The idiom \<open>s.split(',').map(x => x.trim()).filter(Boolean)\<close>, which the program uses
  for every comma-separated field, and \<open>xs.join(',')\<close> as its printer.
\<close>

definition csv_parts :: "string \<Rightarrow> string list" where
  "csv_parts s = filter (\<lambda>x. x \<noteq> []) (map trim (split_on CHR '','' s))"

definition csv_item :: "string \<Rightarrow> bool" where
  "csv_item s \<longleftrightarrow> s \<noteq> [] \<and> trim s = s \<and> CHR '','' \<notin> set s"

lemma csv_parts_Nil [simp]: "csv_parts [] = []"
  by (simp add: csv_parts_def)

lemma csv_parts_items: "x \<in> set (csv_parts s) \<Longrightarrow> csv_item x"
proof -
  assume "x \<in> set (csv_parts s)"
  then obtain t where t: "t \<in> set (split_on CHR '','' s)" "x = trim t" "x \<noteq> []"
    by (auto simp: csv_parts_def)
  then show ?thesis
    using split_on_parts [OF t(1)] set_trim [of t] by (auto simp: csv_item_def)
qed

lemma csv_parts_join:
  assumes "list_all csv_item xs"
  shows "csv_parts (join '','' xs) = xs"
proof (cases "xs = []")
  case False
  with assms have "split_on CHR '','' (join '','' xs) = xs"
    by (intro split_on_join) (auto simp: list_all_iff csv_item_def)
  moreover have "map trim xs = xs"
    using assms by (intro map_idI) (auto simp: list_all_iff csv_item_def)
  moreover have "filter (\<lambda>x. x \<noteq> []) xs = xs"
    using assms by (intro filter_True) (auto simp: list_all_iff csv_item_def)
  ultimately show ?thesis by (simp only: csv_parts_def)
qed simp

lemma csv_normal_form: "csv_parts (join '','' (csv_parts s)) = csv_parts s"
  by (rule csv_parts_join) (simp add: list_all_iff csv_parts_items)

text \<open>
  A codec for the items of such a list: a printer into separator-free text, and a reader
  that inverts it on the values it is meant for.
\<close>

locale csv_codec =
  fixes render :: "'a \<Rightarrow> string"
    and parse :: "string \<Rightarrow> 'a option"
    and valid :: "'a \<Rightarrow> bool"
  assumes render_item: "valid x \<Longrightarrow> csv_item (render x)"
    and parse_render: "valid x \<Longrightarrow> parse (render x) = Some x"
begin

lemma parts_of_rendered:
  "list_all valid xs \<Longrightarrow> csv_parts (join '','' (map render xs)) = map render xs"
  by (rule csv_parts_join) (auto simp: list_all_iff intro: render_item)

lemma parse_rendered:
  "list_all valid xs \<Longrightarrow> map parse (csv_parts (join '','' (map render xs))) = map Some xs"
  by (simp add: parts_of_rendered) (auto simp: list_all_iff intro: parse_render)

lemma render_inject: "valid x \<Longrightarrow> valid y \<Longrightarrow> render x = render y \<Longrightarrow> x = y"
  by (metis option.inject parse_render)

lemma rendered_inject:
  assumes "list_all valid xs" "list_all valid ys"
    and "join '','' (map render xs) = join '','' (map render ys)"
  shows "xs = ys"
proof -
  have "map Some xs = map parse (csv_parts (join '','' (map render xs)))"
    by (rule parse_rendered [OF assms(1), symmetric])
  also have "\<dots> = map Some ys"
    unfolding assms(3) by (rule parse_rendered [OF assms(2)])
  finally show ?thesis by (simp add: inj_map_eq_map)
qed

end

end
