(* ===== verification/Js_Number.thy ===== *)
theory Js_Number
  imports Js_Prelude Complex_Main
begin

section \<open>JavaScript numbers\<close>

text \<open>
  Numbers, their text and their readers.  A finite JavaScript number is modelled as the rational
  number it denotes, and arithmetic on it is exact: the rounding of IEEE double arithmetic, the
  overflow of a literal beyond \<open>1.8e308\<close> and negative zero are not modelled.  Printing follows
  the decimal layout of \<open>Number::toString\<close> (plain, fractional and exponent forms) on the exact
  decimal expansion.

  First the decimal digits: the digits of a natural number, \<open>Number.parseInt(s, 10)\<close> on digit
  strings, and the text of an integer.
\<close>

subsection \<open>Decimal digits\<close>

definition is_digit :: "char \<Rightarrow> bool" where
  "is_digit c \<longleftrightarrow> (48::nat) \<le> of_char c \<and> of_char c \<le> (57::nat)"

definition digit_val :: "char \<Rightarrow> nat" where
  "digit_val c = of_char c - 48"

definition digit_char :: "nat \<Rightarrow> char" where
  "digit_char d = char_of (48 + d)"

lemma of_char_digit_char: "d < 10 \<Longrightarrow> of_char (digit_char d) = 48 + d"
  by (simp add: digit_char_def of_char_of)

lemma is_digit_digit_char [simp]: "d < 10 \<Longrightarrow> is_digit (digit_char d)"
  by (simp add: is_digit_def of_char_digit_char)

lemma digit_val_digit_char [simp]: "d < 10 \<Longrightarrow> digit_val (digit_char d) = d"
  by (simp add: digit_val_def of_char_digit_char)

lemma digit_char_digit_val: "is_digit c \<Longrightarrow> digit_char (digit_val c) = c"
  by (simp add: is_digit_def digit_char_def digit_val_def)

lemma digit_val_less: "is_digit c \<Longrightarrow> digit_val c < 10"
  unfolding is_digit_def digit_val_def by arith

lemma graphic_digit: "is_digit c \<Longrightarrow> graphic c"
  by (simp add: is_digit_def graphic_def)

text \<open>\<open>/^\d+$/.test(s)\<close>.\<close>

definition all_digits :: "string \<Rightarrow> bool" where
  "all_digits s \<longleftrightarrow> s \<noteq> [] \<and> list_all is_digit s"

definition nat_of_digits :: "string \<Rightarrow> nat" where
  "nat_of_digits s = foldl (\<lambda>a c. 10 * a + digit_val c) 0 s"

fun digits_of_nat :: "nat \<Rightarrow> string" where
  "digits_of_nat n =
     (if n < 10 then [digit_char n] else digits_of_nat (n div 10) @ [digit_char (n mod 10)])"

declare digits_of_nat.simps [simp del]

lemma nat_of_digits_Nil [simp]: "nat_of_digits [] = 0"
  by (simp add: nat_of_digits_def)

lemma nat_of_digits_snoc [simp]: "nat_of_digits (s @ [c]) = 10 * nat_of_digits s + digit_val c"
  by (simp add: nat_of_digits_def)

lemma nat_of_digits_append:
  "nat_of_digits (s @ t) = nat_of_digits s * 10 ^ length t + nat_of_digits t"
  by (induction t rule: rev_induct)
    (simp_all add: algebra_simps nat_of_digits_snoc flip: append_assoc)

lemma nat_of_digits_less: "list_all is_digit s \<Longrightarrow> nat_of_digits s < 10 ^ length s"
proof (induction s rule: rev_induct)
  case (snoc c s)
  then show ?case using digit_val_less [of c] by auto
qed simp

lemma digits_of_nat_neq_Nil [simp]: "digits_of_nat n \<noteq> []"
  by (subst digits_of_nat.simps) simp

lemma digits_of_nat_digits: "list_all is_digit (digits_of_nat n)"
proof (induction n rule: digits_of_nat.induct)
  case (1 n)
  then show ?case by (subst digits_of_nat.simps) simp
qed

lemma all_digits_digits_of_nat [simp]: "all_digits (digits_of_nat n)"
  by (simp add: all_digits_def digits_of_nat_digits)

lemma nat_of_digits_of_nat [simp]: "nat_of_digits (digits_of_nat n) = n"
proof (induction n rule: digits_of_nat.induct)
  case (1 n)
  then show ?case by (subst digits_of_nat.simps) (simp add: nat_of_digits_def)
qed

lemma digits_of_nat_inject: "digits_of_nat m = digits_of_nat n \<longleftrightarrow> m = n"
  by (metis nat_of_digits_of_nat)

lemma is_digit_hd_digits: "is_digit (hd (digits_of_nat n))"
  using digits_of_nat_digits [of n] by (cases "digits_of_nat n") auto

lemma digits_of_nat_no: "\<not> is_digit c \<Longrightarrow> c \<notin> set (digits_of_nat n)"
  using digits_of_nat_digits [of n] by (auto simp: list_all_iff)

lemma trim_digits [simp]: "all_digits s \<Longrightarrow> trim s = s"
  by (rule trim_graphic) (auto simp: all_digits_def list_all_iff intro!: graphic_digit)

lemma strip_ws_digits [simp]: "all_digits s \<Longrightarrow> strip_ws s = s"
  by (rule strip_ws_graphic) (auto simp: all_digits_def list_all_iff intro: graphic_digit)

text \<open>The text of an integer in a template string.\<close>

definition string_of_int :: "int \<Rightarrow> string" where
  "string_of_int i = (if i < 0 then CHR ''-'' # digits_of_nat (nat (- i)) else digits_of_nat (nat i))"

lemma string_of_nat: "string_of_int (int n) = digits_of_nat n"
  by (simp add: string_of_int_def)

subsection \<open>Finite numbers and the special values\<close>

datatype jsnum = NaN | Infinity | NegInfinity | Fin rat

definition pow10 :: "int \<Rightarrow> rat" where
  "pow10 e = (if 0 \<le> e then 10 ^ nat e else 1 / 10 ^ nat (- e))"

text \<open>The three parts of a decimal literal (integer digits, fraction digits, exponent) and its value.\<close>

type_synonym decimal = "string \<times> string \<times> int"

definition decimal_value :: "decimal \<Rightarrow> rat" where
  "decimal_value d = (case d of (i, f, e) \<Rightarrow> of_nat (nat_of_digits (i @ f)) * pow10 (e - int (length f)))"

text \<open>The number of decimal places of a fraction with the given denominator (a double has at most 1074).\<close>

fun places_from :: "nat \<Rightarrow> nat \<Rightarrow> int \<Rightarrow> nat" where
  "places_from 0 k q = k"
| "places_from (Suc fuel) k q = (if 10 ^ k mod q = 0 then k else places_from fuel (Suc k) q)"

definition places :: "int \<Rightarrow> nat" where
  "places q = places_from 1100 0 q"

fun strip_zeros :: "nat \<Rightarrow> nat \<times> nat" where
  "strip_zeros m =
     (if m = 0 \<or> m mod 10 \<noteq> 0 then (m, 0)
      else (case strip_zeros (m div 10) of (s, z) \<Rightarrow> (s, Suc z)))"

declare strip_zeros.simps [simp del]

definition num_parts :: "rat \<Rightarrow> decimal" where
  "num_parts r =
     (case quotient_of r of (p, q) \<Rightarrow>
        let k = places q;
            m = nat (p * 10 ^ k div q);
            ds = digits_of_nat m;
            n = int (length ds) - int k
        in if k = 0 then
             (if m < 10 ^ 21 then (ds, [], 0)
              else (case strip_zeros m of (s, z) \<Rightarrow>
                      let es = digits_of_nat s
                      in (take 1 es, drop 1 es, int z + int (length es) - 1)))
           else if 0 < n then (take (nat n) ds, drop (nat n) ds, 0)
           else if - 6 < n then (''0'', replicate (nat (- n)) CHR ''0'' @ ds, 0)
           else (take 1 ds, drop 1 ds, n - 1))"

definition exponent_text :: "int \<Rightarrow> string" where
  "exponent_text e =
     (if e = 0 then []
      else if 0 < e then ''e+'' @ digits_of_nat (nat e)
      else ''e-'' @ digits_of_nat (nat (- e)))"

definition decimal_text :: "decimal \<Rightarrow> string" where
  "decimal_text d =
     (case d of (i, f, e) \<Rightarrow> i @ (if f = [] then [] else CHR ''.'' # f) @ exponent_text e)"

definition rat_text :: "rat \<Rightarrow> string" where
  "rat_text r =
     (if r < 0 then CHR ''-'' # decimal_text (num_parts (- r)) else decimal_text (num_parts r))"

text \<open>\<open>String(x)\<close> for a number.\<close>

fun num_text :: "jsnum \<Rightarrow> string" where
  "num_text NaN = ''NaN''"
| "num_text Infinity = ''Infinity''"
| "num_text NegInfinity = ''-Infinity''"
| "num_text (Fin r) = rat_text r"

text \<open>The numbers whose decimal expansion ends: all doubles, hence every number of the program.\<close>

definition dec_rat :: "rat \<Rightarrow> bool" where
  "dec_rat r \<longleftrightarrow> (case quotient_of r of (p, q) \<Rightarrow> 10 ^ places q mod q = 0)"

lemma pow10_0 [simp]: "pow10 0 = 1"
  by (simp add: pow10_def)

lemma pow10_nat: "pow10 (int k) = 10 ^ k"
  by (simp add: pow10_def)

lemma pow10_neg: "pow10 (- int k) = 1 / 10 ^ k"
  by (cases "k = 0") (simp_all add: pow10_def)

lemma strip_zeros: "strip_zeros m = (s, z) \<Longrightarrow> m = s * 10 ^ z \<and> (0 < m \<longrightarrow> 0 < s)"
proof (induction m arbitrary: s z rule: strip_zeros.induct)
  case (1 m)
  show ?case
  proof (cases "m = 0 \<or> m mod 10 \<noteq> 0")
    case True
    with 1 show ?thesis by (simp add: strip_zeros.simps [of m])
  next
    case False
    obtain s' z' where r: "strip_zeros (m div 10) = (s', z')" by (cases "strip_zeros (m div 10)")
    with False "1.prems" have eqs: "s = s'" "z = Suc z'" by (auto simp: strip_zeros.simps [of m])
    from False r have IH: "m div 10 = s' * 10 ^ z'" "0 < m div 10 \<longrightarrow> 0 < s'"
      using "1.IH" by blast+
    from False have "m = 10 * (m div 10)" by auto
    with IH eqs show ?thesis by auto
  qed
qed

lemma nat_of_digits_Cons_0: "nat_of_digits (CHR ''0'' # s) = nat_of_digits s"
  by (simp add: nat_of_digits_def digit_val_def)

lemma nat_of_digits_zeros: "nat_of_digits (replicate n CHR ''0'' @ s) = nat_of_digits s"
  by (induction n) (simp_all add: nat_of_digits_Cons_0)

lemma decimal_scale:
  assumes "0 \<le> r" "dec_rat r"
  shows "of_nat (nat (fst (quotient_of r) * 10 ^ places (snd (quotient_of r)) div snd (quotient_of r)))
    = r * 10 ^ places (snd (quotient_of r))"
proof -
  obtain p q where pq: "quotient_of r = (p, q)" by (cases "quotient_of r")
  then have q: "0 < q" by (rule quotient_of_denom_pos)
  have r: "r = of_int p / of_int q" by (rule quotient_of_div [OF pq])
  have p: "0 \<le> p" using assms(1) q r by (simp add: zero_le_divide_iff)
  define k where "k = places q"
  have "q dvd 10 ^ k" using assms(2) pq by (simp add: dec_rat_def k_def mod_eq_0_iff_dvd)
  then obtain c where c: "(10::int) ^ k = q * c" by (rule dvdE)
  then have "p * 10 ^ k div q = p * c" using q by simp
  moreover have "0 < c" using c q by (metis zero_less_mult_pos zero_less_numeral zero_less_power)
  ultimately have "of_nat (nat (p * 10 ^ k div q)) = (of_int (p * c) :: rat)"
    using p by simp
  moreover have "of_int (p * c) = r * 10 ^ k"
  proof -
    have "(10::rat) ^ k = of_int (10 ^ k)" by simp
    also have "\<dots> = of_int q * of_int c" using c by simp
    finally show ?thesis using r q by simp
  qed
  ultimately show ?thesis by (simp add: pq k_def)
qed

lemma num_parts_cases:
  assumes "0 \<le> r" "dec_rat r"
  obtains (integer) m where "r = of_nat m" "num_parts r = (digits_of_nat m, [], 0)"
  | (big) s z where "r = of_nat s * 10 ^ z" "0 < s"
      "num_parts r = (take 1 (digits_of_nat s), drop 1 (digits_of_nat s),
                      int z + int (length (digits_of_nat s)) - 1)"
  | (point) m k where "r * 10 ^ k = of_nat m" "0 < m" "0 < k" "k < length (digits_of_nat m)"
      "num_parts r = (take (length (digits_of_nat m) - k) (digits_of_nat m),
                      drop (length (digits_of_nat m) - k) (digits_of_nat m), 0)"
  | (small) m k where "r * 10 ^ k = of_nat m" "length (digits_of_nat m) \<le> k"
      "num_parts r = (''0'', replicate (k - length (digits_of_nat m)) CHR ''0'' @ digits_of_nat m, 0)"
  | (tiny) m k where "r * 10 ^ k = of_nat m" "0 < m" "length (digits_of_nat m) \<le> k"
      "num_parts r = (take 1 (digits_of_nat m), drop 1 (digits_of_nat m),
                      int (length (digits_of_nat m)) - int k - 1)"
proof -
  obtain p q where pq: "quotient_of r = (p, q)" by (cases "quotient_of r")
  define k where "k = places q"
  define m where "m = nat (p * 10 ^ k div q)"
  let ?ds = "digits_of_nat m"
  have m: "of_nat m = r * 10 ^ k"
    using decimal_scale [OF assms] by (simp add: pq k_def m_def)
  have np: "num_parts r =
     (if k = 0 then
        (if m < 10 ^ 21 then (?ds, [], 0)
         else (case strip_zeros m of (s, z) \<Rightarrow>
                 (take 1 (digits_of_nat s), drop 1 (digits_of_nat s),
                  int z + int (length (digits_of_nat s)) - 1)))
      else if 0 < int (length ?ds) - int k
        then (take (nat (int (length ?ds) - int k)) ?ds, drop (nat (int (length ?ds) - int k)) ?ds, 0)
      else if - 6 < int (length ?ds) - int k
        then (''0'', replicate (nat (- (int (length ?ds) - int k))) CHR ''0'' @ ?ds, 0)
      else (take 1 ?ds, drop 1 ?ds, int (length ?ds) - int k - 1))"
    by (simp only: num_parts_def pq prod.case Let_def k_def m_def)
  have pos: "0 < m" if "0 < k"
  proof (rule ccontr)
    assume "\<not> 0 < m"
    then have "r = 0" using m by simp
    then have "q = 1" using pq by auto
    then have "k = 0" by (simp add: k_def places_def eval_nat_numeral)
    with that show False by simp
  qed
  consider "k = 0" "m < 10 ^ 21" | "k = 0" "\<not> m < 10 ^ 21" | "0 < k" "k < length ?ds"
    | "0 < k" "length ?ds \<le> k" "- 6 < int (length ?ds) - int k"
    | "0 < k" "length ?ds \<le> k" "\<not> - 6 < int (length ?ds) - int k" by linarith
  then show ?thesis
  proof cases
    case 1
    then show ?thesis using m by (intro integer [of m]) (simp_all add: np)
  next
    case 2
    obtain s z where sz: "strip_zeros m = (s, z)" by (cases "strip_zeros m")
    have "0 < m" using 2 by (cases "m = 0") auto
    then show ?thesis
      using 2 m sz strip_zeros [OF sz] by (intro big [of s z]) (simp_all add: np)
  next
    case 3
    then have "nat (int (length ?ds) - int k) = length ?ds - k" by linarith
    with 3 m pos show ?thesis by (intro point [of k m]) (simp_all add: np)
  next
    case 4
    then have "nat (int k - int (length ?ds)) = k - length ?ds" by linarith
    with 4 m show ?thesis by (intro small [of k m]) (simp_all add: np)
  next
    case 5
    with m pos show ?thesis by (intro tiny [of k m]) (simp_all add: np)
  qed
qed

lemma decimal_value_num_parts:
  assumes "0 \<le> r" "dec_rat r"
  shows "decimal_value (num_parts r) = r"
  using assms
proof (cases rule: num_parts_cases)
  case (integer m)
  then show ?thesis by (simp add: decimal_value_def)
next
  case (big s z)
  have "length (digits_of_nat s) > 0" by simp
  then have e: "int z + int (length (digits_of_nat s)) - 1 - int (length (drop 1 (digits_of_nat s))) = int z"
    unfolding length_drop by linarith
  show ?thesis
    unfolding decimal_value_def big(3) prod.case e append_take_drop_id pow10_nat
    by (simp add: big(1))
next
  case (point m k)
  then have "- int (length (drop (length (digits_of_nat m) - k) (digits_of_nat m))) = - int k"
    by simp
  with point show ?thesis
    by (simp add: decimal_value_def pow10_neg field_simps del: length_drop)
next
  case (small m k)
  then have "length (replicate (k - length (digits_of_nat m)) CHR ''0'' @ digits_of_nat m) = k"
    by simp
  with small show ?thesis
    by (simp add: decimal_value_def pow10_neg nat_of_digits_Cons_0 nat_of_digits_zeros field_simps
        del: length_append)
next
  case (tiny m k)
  have "length (digits_of_nat m) > 0" by simp
  then have e: "int (length (digits_of_nat m)) - int k - 1 - int (length (drop 1 (digits_of_nat m))) = - int k"
    unfolding length_drop by linarith
  show ?thesis
    unfolding decimal_value_def tiny(4) prod.case e append_take_drop_id pow10_neg
    using tiny(1) by (simp add: field_simps)
qed

subsection \<open>Reading numbers\<close>

definition scan_exp :: "string \<Rightarrow> (int \<times> string) option" where
  "scan_exp s =
     (case s of [] \<Rightarrow> Some (0, [])
      | c # t \<Rightarrow>
          if c = CHR ''e'' \<or> c = CHR ''E'' then
            (let (sg, u) = (case t of [] \<Rightarrow> (1, [])
                            | d # v \<Rightarrow> if d = CHR ''-'' then (-1, v)
                                else if d = CHR ''+'' then (1, v) else (1, t));
                 ds = takeWhile is_digit u
             in if ds = [] then None else Some (sg * int (nat_of_digits ds), dropWhile is_digit u))
          else Some (0, s))"

text \<open>The fraction of a JSON number: a point must be followed by a digit.\<close>

definition scan_frac :: "string \<Rightarrow> (string \<times> string) option" where
  "scan_frac s =
     (case s of [] \<Rightarrow> Some ([], [])
      | c # t \<Rightarrow>
          if c = CHR ''.'' then
            (if takeWhile is_digit t = [] then None
             else Some (takeWhile is_digit t, dropWhile is_digit t))
          else Some ([], s))"

definition scan_sign :: "string \<Rightarrow> rat \<times> string" where
  "scan_sign s =
     (case s of [] \<Rightarrow> (1, []) | c # t \<Rightarrow> if c = CHR ''-'' then (-1, t) else (1, s))"

text \<open>A number of the JSON grammar at the front of a text, and what follows it.\<close>

definition json_number :: "string \<Rightarrow> (rat \<times> string) option" where
  "json_number s =
     (case scan_sign s of (sg, u) \<Rightarrow>
        let i = takeWhile is_digit u in
        if i = [] \<or> (hd i = CHR ''0'' \<and> 1 < length i) then None
        else
          (case scan_frac (dropWhile is_digit u) of None \<Rightarrow> None
           | Some (f, v) \<Rightarrow>
               (case scan_exp v of None \<Rightarrow> None
                | Some (e, w) \<Rightarrow> Some (sg * decimal_value (i, f, e), w))))"

text \<open>\<open>StrUnsignedDecimalLiteral\<close> of the language: digits may be missing on one side of the point.\<close>

definition unsigned_decimal :: "string \<Rightarrow> rat option" where
  "unsigned_decimal s =
     (let i = takeWhile is_digit s;
          u = dropWhile is_digit s;
          (f, v) = (case u of [] \<Rightarrow> ([], [])
                    | c # t \<Rightarrow> if c = CHR ''.'' then (takeWhile is_digit t, dropWhile is_digit t)
                        else ([], u))
      in if i = [] \<and> f = [] then None
         else (case scan_exp v of
                 Some (e, []) \<Rightarrow> Some (decimal_value (i, f, e))
               | _ \<Rightarrow> None))"

definition radix_digit :: "nat \<Rightarrow> char \<Rightarrow> nat option" where
  "radix_digit b c =
     (let n = of_char c;
          d = (if is_digit c then n - 48
               else if 97 \<le> n \<and> n \<le> 102 then n - 87
               else if 65 \<le> n \<and> n \<le> 70 then n - 55 else 99)
      in if d < b then Some d else None)"

fun radix_value :: "nat \<Rightarrow> nat \<Rightarrow> string \<Rightarrow> nat option" where
  "radix_value b acc [] = Some acc"
| "radix_value b acc (c # s) =
     (case radix_digit b c of None \<Rightarrow> None | Some d \<Rightarrow> radix_value b (b * acc + d) s)"

definition radix_literal :: "string \<Rightarrow> nat option" where
  "radix_literal s =
     (case s of
        z # x # c # t \<Rightarrow>
          if z \<noteq> CHR ''0'' then None
          else if x = CHR ''x'' \<or> x = CHR ''X'' then radix_value 16 0 (c # t)
          else if x = CHR ''o'' \<or> x = CHR ''O'' then radix_value 8 0 (c # t)
          else if x = CHR ''b'' \<or> x = CHR ''B'' then radix_value 2 0 (c # t)
          else None
      | _ \<Rightarrow> None)"

text \<open>\<open>Number(s)\<close> on a string.\<close>

definition number_of_string :: "string \<Rightarrow> jsnum" where
  "number_of_string s =
     (let t = trim s in
      if t = [] then Fin 0
      else if t = ''Infinity'' \<or> t = ''+Infinity'' then Infinity
      else if t = ''-Infinity'' then NegInfinity
      else (case radix_literal t of
              Some n \<Rightarrow> Fin (of_nat n)
            | None \<Rightarrow>
                (let (sg, u) = (if hd t = CHR ''-'' then (-1, tl t)
                                else if hd t = CHR ''+'' then (1, tl t) else (1, t))
                 in (case unsigned_decimal u of None \<Rightarrow> NaN | Some r \<Rightarrow> Fin (sg * r)))))"

text \<open>\<open>n.toFixed(d)\<close>: the nearest multiple of the last place, the larger one of two.\<close>

definition fixed_text :: "nat \<Rightarrow> nat \<Rightarrow> string" where
  "fixed_text d n =
     (let s = digits_of_nat n;
          k = replicate (d + 1 - length s) CHR ''0'' @ s
      in if d = 0 then s else take (length k - d) k @ ''.'' @ drop (length k - d) k)"

definition rat_fixed :: "nat \<Rightarrow> rat \<Rightarrow> string" where
  "rat_fixed d r =
     (if 10 ^ 21 \<le> \<bar>r\<bar> then rat_text r
      else (if r < 0 then ''-'' else []) @ fixed_text d (nat \<lfloor>\<bar>r\<bar> * 10 ^ d + 1 / 2\<rfloor>))"

fun to_fixed :: "nat \<Rightarrow> jsnum \<Rightarrow> string" where
  "to_fixed d (Fin r) = rat_fixed d r"
| "to_fixed d n = num_text n"

subsection \<open>Reading back what was printed\<close>

definition wf_decimal :: "decimal \<Rightarrow> bool" where
  "wf_decimal d \<longleftrightarrow>
     (case d of (i, f, e) \<Rightarrow>
        i \<noteq> [] \<and> list_all is_digit i \<and> (hd i = CHR ''0'' \<longrightarrow> length i = 1) \<and> list_all is_digit f)"

text \<open>Text that cannot continue a number.\<close>

definition number_ends :: "string \<Rightarrow> bool" where
  "number_ends s \<longleftrightarrow>
     s = [] \<or> (\<not> is_digit (hd s) \<and> hd s \<noteq> CHR ''.'' \<and> hd s \<noteq> CHR ''e'' \<and> hd s \<noteq> CHR ''E'')"

lemma takeWhile_digits:
  "list_all is_digit ds \<Longrightarrow> s = [] \<or> \<not> is_digit (hd s) \<Longrightarrow> takeWhile is_digit (ds @ s) = ds"
  by (cases s) (auto simp: list_all_iff takeWhile_append2)

lemma dropWhile_digits:
  "list_all is_digit ds \<Longrightarrow> s = [] \<or> \<not> is_digit (hd s) \<Longrightarrow> dropWhile is_digit (ds @ s) = s"
  by (cases s) (auto simp: list_all_iff dropWhile_append2)

lemma not_digit_simps [simp]:
  "\<not> is_digit CHR ''.''" "\<not> is_digit CHR ''e''" "\<not> is_digit CHR ''E''" "\<not> is_digit CHR ''-''"
  "\<not> is_digit CHR ''+''"
  by (simp_all add: is_digit_def)

lemma scan_exp_text:
  assumes "number_ends s"
  shows "scan_exp (exponent_text e @ s) = Some (e, s)"
proof -
  have end_digit: "s = [] \<or> \<not> is_digit (hd s)" using assms by (auto simp: number_ends_def)
  note scans = takeWhile_digits [OF digits_of_nat_digits end_digit]
    dropWhile_digits [OF digits_of_nat_digits end_digit]
  consider "e = 0" | "0 < e" | "e < 0" by linarith
  then show ?thesis
  proof cases
    case 1
    with assms show ?thesis
      by (cases s) (auto simp: scan_exp_def exponent_text_def number_ends_def)
  next
    case 2
    then show ?thesis by (simp add: scan_exp_def exponent_text_def scans)
  next
    case 3
    then show ?thesis by (simp add: scan_exp_def exponent_text_def scans)
  qed
qed

lemma exponent_text_ends:
  assumes "number_ends s"
  shows "exponent_text e @ s = [] \<or> \<not> is_digit (hd (exponent_text e @ s))"
    and "exponent_text e @ s = [] \<or> hd (exponent_text e @ s) \<noteq> CHR ''.''"
  using assms by (auto simp: exponent_text_def number_ends_def)

lemma scan_frac_text:
  assumes "number_ends s" "list_all is_digit f"
  shows "scan_frac ((if f = [] then [] else CHR ''.'' # f) @ exponent_text e @ s)
    = Some (f, exponent_text e @ s)"
proof (cases "f = []")
  case True
  then show ?thesis
    using exponent_text_ends(2) [OF assms(1), of e]
    by (cases "exponent_text e @ s") (auto simp: scan_frac_def)
next
  case False
  then show ?thesis
    using takeWhile_digits [OF assms(2) exponent_text_ends(1) [OF assms(1), of e]]
      dropWhile_digits [OF assms(2) exponent_text_ends(1) [OF assms(1), of e]]
    by (simp add: scan_frac_def)
qed

lemma json_number_decimal:
  assumes "wf_decimal d" "number_ends s" "scan_sign u = (sg, decimal_text d @ s)"
  shows "json_number u = Some (sg * decimal_value d, s)"
proof -
  obtain i f e where d: "d = (i, f, e)" by (cases d)
  let ?v = "(if f = [] then [] else CHR ''.'' # f) @ exponent_text e @ s"
  have wf: "i \<noteq> []" "list_all is_digit i" "hd i = CHR ''0'' \<longrightarrow> length i = 1" "list_all is_digit f"
    using assms(1) by (auto simp: wf_decimal_def d)
  have u: "decimal_text d @ s = i @ ?v" by (simp add: decimal_text_def d)
  have v: "?v = [] \<or> \<not> is_digit (hd ?v)"
    using exponent_text_ends(1) [OF assms(2), of e] by auto
  have lead: "\<not> (i = [] \<or> (hd i = CHR ''0'' \<and> 1 < length i))" using wf by auto
  show ?thesis
    unfolding json_number_def assms(3) u prod.case Let_def
      takeWhile_digits [OF wf(2) v] dropWhile_digits [OF wf(2) v]
      scan_frac_text [OF assms(2) wf(4)] scan_exp_text [OF assms(2)] option.case
    using lead by (simp add: d)
qed

lemma digits_of_nat_small: "n < 10 \<Longrightarrow> digits_of_nat n = [digit_char n]"
  by (simp add: digits_of_nat.simps)

lemma digit_char_eq_0: "d < 10 \<Longrightarrow> digit_char d = CHR ''0'' \<longleftrightarrow> d = 0"
proof
  assume "d < 10" "digit_char d = CHR ''0''"
  then have "d = digit_val CHR ''0''" using digit_val_digit_char [of d] by simp
  then show "d = 0" by (simp add: digit_val_def)
next
  assume "d = 0"
  then show "digit_char d = CHR ''0''" by (simp add: digit_char_def) code_simp
qed

lemma hd_digits_of_nat: "0 < m \<Longrightarrow> hd (digits_of_nat m) \<noteq> CHR ''0''"
proof (induction m rule: digits_of_nat.induct)
  case (1 m)
  then show ?case by (subst digits_of_nat.simps) (auto simp: digit_char_eq_0)
qed

lemma list_all_take_drop:
  "list_all P xs \<Longrightarrow> list_all P (take n xs) \<and> list_all P (drop n xs)"
  by (auto simp: list_all_iff dest: in_set_takeD in_set_dropD)

lemma is_digit_0 [simp]: "is_digit CHR ''0''"
  by (simp add: is_digit_def)

lemma wf_decimal_num_parts:
  assumes "0 \<le> r" "dec_rat r"
  shows "wf_decimal (num_parts r)"
  using assms
proof (cases rule: num_parts_cases)
  case (integer m)
  have "hd (digits_of_nat m) = CHR ''0'' \<longrightarrow> length (digits_of_nat m) = 1"
    using hd_digits_of_nat [of m] by (cases "m = 0") (auto simp: digits_of_nat_small)
  with integer show ?thesis by (simp add: wf_decimal_def digits_of_nat_digits)
next
  case (big s z)
  then show ?thesis
    using list_all_take_drop [OF digits_of_nat_digits, of 1 s] hd_digits_of_nat [of s]
    by (auto simp: wf_decimal_def take_Suc)
next
  case (point m k)
  then have "0 < length (digits_of_nat m) - k" by simp
  with point show ?thesis
    using list_all_take_drop [OF digits_of_nat_digits, of "length (digits_of_nat m) - k" m]
      hd_digits_of_nat [of m]
    by (simp add: wf_decimal_def)
next
  case (small m k)
  moreover have "list_all is_digit (replicate n CHR ''0'')" for n by (induction n) simp_all
  ultimately show ?thesis by (simp add: wf_decimal_def digits_of_nat_digits)
next
  case (tiny m k)
  then show ?thesis
    using list_all_take_drop [OF digits_of_nat_digits, of 1 m] hd_digits_of_nat [of m]
    by (auto simp: wf_decimal_def take_Suc)
qed

lemma dec_rat_uminus [simp]: "dec_rat (- r) = dec_rat r"
  by (simp add: dec_rat_def rat_uminus_code split: prod.splits)

lemma decimal_text_hd: "wf_decimal d \<Longrightarrow> decimal_text d \<noteq> [] \<and> is_digit (hd (decimal_text d))"
  by (cases d) (auto simp: wf_decimal_def decimal_text_def list_all_iff)

text \<open>A number's text reads back as the number, whatever text follows that does not continue it.\<close>

lemma json_number_rat_text:
  assumes "dec_rat r" "number_ends s"
  shows "json_number (rat_text r @ s) = Some (r, s)"
proof (cases "r < 0")
  case True
  then have nn: "0 \<le> - r" "dec_rat (- r)" using assms by auto
  show ?thesis
    using json_number_decimal [OF wf_decimal_num_parts [OF nn] assms(2), of "rat_text r @ s" "-1"]
    by (simp add: decimal_value_num_parts [OF nn] rat_text_def True scan_sign_def)
next
  case False
  then have nn: "0 \<le> r" by simp
  obtain c t where ct: "decimal_text (num_parts r) = c # t" "is_digit c"
    using decimal_text_hd [OF wf_decimal_num_parts [OF nn assms(1)]]
    by (cases "decimal_text (num_parts r)") auto
  then have "c \<noteq> CHR ''-''" by auto
  then have "scan_sign (rat_text r @ s) = (1, decimal_text (num_parts r) @ s)"
    using ct False by (simp add: rat_text_def scan_sign_def)
  from json_number_decimal [OF wf_decimal_num_parts [OF nn assms(1)] assms(2) this]
  show ?thesis by (simp add: decimal_value_num_parts [OF nn assms(1)])
qed

lemma rat_text_hd: "dec_rat r \<Longrightarrow> rat_text r \<noteq> [] \<and> (is_digit (hd (rat_text r)) \<or> hd (rat_text r) = CHR ''-'')"
  using decimal_text_hd [OF wf_decimal_num_parts, of r] by (auto simp: rat_text_def)

lemma places_1 [simp]: "places 1 = 0"
  by (simp add: places_def eval_nat_numeral)

lemma dec_rat_of_int [simp]: "dec_rat (of_int n)"
  by (simp add: dec_rat_def)

lemma rat_text_of_nat: "n < 10 ^ 21 \<Longrightarrow> rat_text (of_nat n) = digits_of_nat n"
proof -
  assume n: "n < 10 ^ 21"
  have "quotient_of (of_int (int n)) = (int n, 1)" by (simp only: of_int_rat quotient_of_Fract) simp
  then have "quotient_of (of_nat n) = (int n, 1)" by simp
  with n show ?thesis
    by (simp add: rat_text_def num_parts_def decimal_text_def exponent_text_def)
qed

text \<open>\<open>Number(String(n))\<close>.\<close>

lemma unsigned_decimal_text:
  assumes "wf_decimal d"
  shows "unsigned_decimal (decimal_text d) = Some (decimal_value d)"
proof -
  obtain i f e where d: "d = (i, f, e)" by (cases d)
  let ?x = "exponent_text e" and ?v = "(if f = [] then [] else CHR ''.'' # f) @ exponent_text e"
  have wf: "i \<noteq> []" "list_all is_digit i" "list_all is_digit f"
    using assms by (auto simp: wf_decimal_def d)
  have n: "number_ends []" by (simp add: number_ends_def)
  note x = exponent_text_ends [OF n, of e, simplified]
  have v: "?v = [] \<or> \<not> is_digit (hd ?v)" using x(1) by auto
  have frac: "(case ?v of [] \<Rightarrow> ([], []) | c # t \<Rightarrow> if c = CHR ''.'' then (takeWhile is_digit t, dropWhile is_digit t)
      else ([], ?v)) = (f, ?x)"
  proof (cases "f = []")
    case True
    then show ?thesis using x(2) by (cases ?x) auto
  next
    case False
    then show ?thesis
      using takeWhile_digits [OF wf(3) x(1)] dropWhile_digits [OF wf(3) x(1)] by simp
  qed
  have parts: "decimal_text d = i @ ?v" by (simp add: decimal_text_def d)
  have "scan_exp ?x = Some (e, [])" using scan_exp_text [OF n, of e] by simp
  with wf(1) show ?thesis
    unfolding unsigned_decimal_def Let_def parts takeWhile_digits [OF wf(2) v] dropWhile_digits [OF wf(2) v] frac
      prod.case by (simp add: d)
qed

lemma radix_literal_decimal:
  assumes "wf_decimal d"
  shows "radix_literal (decimal_text d) = None"
proof -
  obtain i f e where d: "d = (i, f, e)" by (cases d)
  have wf: "i \<noteq> []" "hd i = CHR ''0'' \<longrightarrow> length i = 1" using assms by (auto simp: wf_decimal_def d)
  show ?thesis
  proof (cases "hd i = CHR ''0''")
    case True
    with wf have "i = ''0''" by (cases i) auto
    then show ?thesis by (simp add: radix_literal_def decimal_text_def d exponent_text_def split: list.splits)
  next
    case False
    then show ?thesis using wf(1) by (cases i) (auto simp: radix_literal_def decimal_text_def d split: list.splits)
  qed
qed

lemma decimal_text_last: "wf_decimal d \<Longrightarrow> is_digit (last (decimal_text d))"
proof -
  assume wf: "wf_decimal d"
  obtain i f e where d: "d = (i, f, e)" by (cases d)
  have "is_digit (last (digits_of_nat n))" for n
    using digits_of_nat_digits [of n] by (simp add: list_all_iff)
  with wf show ?thesis by (auto simp: wf_decimal_def decimal_text_def d exponent_text_def list_all_iff)
qed

lemma number_of_rat_text:
  assumes "dec_rat r"
  shows "number_of_string (rat_text r) = Fin r"
proof -
  have *: "wf_decimal (num_parts \<bar>r\<bar>)" "decimal_value (num_parts \<bar>r\<bar>) = \<bar>r\<bar>"
    using wf_decimal_num_parts [of "\<bar>r\<bar>"] decimal_value_num_parts [of "\<bar>r\<bar>"] assms
    by (simp_all add: abs_if)
  let ?d = "decimal_text (num_parts \<bar>r\<bar>)"
  note hd = decimal_text_hd [OF *(1)]
  obtain c t where ct: "?d = c # t" "is_digit c" using hd by (cases ?d) auto
  have c: "c \<noteq> CHR ''-''" "c \<noteq> CHR ''+''" "c \<noteq> CHR ''I''" using ct(2) by (auto simp: is_digit_def)
  have l: "graphic (last ?d)" by (rule graphic_digit [OF decimal_text_last [OF *(1)]])
  show ?thesis
  proof (cases "r < 0")
    case True
    then have rt: "rat_text r = CHR ''-'' # ?d" by (simp add: rat_text_def)
    have "trim (CHR ''-'' # ?d) = CHR ''-'' # ?d" using l ct(1) by (intro trim_graphic) (auto simp: graphic_def)
    moreover have "radix_literal (CHR ''-'' # ?d) = None" by (auto simp: radix_literal_def split: list.splits)
    ultimately show ?thesis
      using unsigned_decimal_text [OF *(1)] *(2) ct(1) c True by (simp add: number_of_string_def rt)
  next
    case False
    then have rt: "rat_text r = ?d" by (simp add: rat_text_def)
    have "trim ?d = ?d" using l ct hd graphic_digit by (intro trim_graphic) auto
    then show ?thesis
      using unsigned_decimal_text [OF *(1)] *(2) ct(1) c False radix_literal_decimal [OF *(1)]
      by (simp add: number_of_string_def rt)
  qed
qed

end
