(* ===== verification/Status_Codes.thy ===== *)
theory Status_Codes
  imports Js_Number
begin

section \<open>HTTP status code rules\<close>

text \<open>
  The parser of the status code rules that an administrator types
  (\<open>lib/http-status-code-rules.ts\<close>): a comma-separated list of codes and ranges is read
  into ranges, which are sorted and merged into a normal form and printed back.
\<close>

record status_code_range =
  range_start :: int
  range_end :: int

record parsed_rules =
  ok :: bool
  ranges :: "status_code_range list"
  tokens :: "string list"
  normalized :: string
  invalidTokens :: "string list"

definition isNumber :: "string \<Rightarrow> bool" where
  "isNumber s = all_digits s"

definition parse_code :: "string \<Rightarrow> int" where
  "parse_code s = int (nat_of_digits s)"

definition isValidCode :: "int \<Rightarrow> bool" where
  "isValidCode code \<longleftrightarrow> 100 \<le> code \<and> code \<le> 599"

definition parseToken :: "string \<Rightarrow> status_code_range option" where
  "parseToken token =
     (let cleaned = strip_ws (trim token) in
      if cleaned = [] then None
      else if str_includes cleaned ''-'' then
        (case split_on CHR ''-'' cleaned of
           a # b # _ \<Rightarrow>
             if \<not> isNumber a \<or> \<not> isNumber b then None
             else
               (let start = parse_code a; end' = parse_code b in
                if \<not> isValidCode start \<or> \<not> isValidCode end' \<or> start > end' then None
                else Some \<lparr>range_start = start, range_end = end'\<rparr>)
         | _ \<Rightarrow> None)
      else if \<not> isNumber cleaned then None
      else
        (let code = parse_code cleaned in
         if \<not> isValidCode code then None
         else Some \<lparr>range_start = code, range_end = code\<rparr>))"

text \<open>The comparator of \<open>mergeRanges\<close>: by start, then by end.\<close>

definition range_cmp :: "status_code_range \<Rightarrow> status_code_range \<Rightarrow> int" where
  "range_cmp a b =
     (if range_start a \<noteq> range_start b then range_start a - range_start b
      else range_end a - range_end b)"

text \<open>The body of the \<open>reduce\<close>: the accumulator's last element is extended in place.\<close>

definition merge_step :: "status_code_range list \<Rightarrow> status_code_range \<Rightarrow> status_code_range list" where
  "merge_step merged current =
     (if merged = [] \<or> range_start current > range_end (last merged) + 1
      then merged @ [current]
      else butlast merged
             @ [(last merged)\<lparr>range_end := max (range_end (last merged)) (range_end current)\<rparr>])"

definition mergeRanges :: "status_code_range list \<Rightarrow> status_code_range list" where
  "mergeRanges rs = (if rs = [] then [] else foldl merge_step [] (sort_by range_cmp rs))"

definition range_token :: "status_code_range \<Rightarrow> string" where
  "range_token r =
     (if range_start r = range_end r then string_of_int (range_start r)
      else string_of_int (range_start r) @ ''-'' @ string_of_int (range_end r))"

definition full_width_comma :: string where
  "full_width_comma = [CHR 0xEF, CHR 0xBC, CHR 0x8C]"

definition rule_segments :: "string \<Rightarrow> string list" where
  "rule_segments raw = csv_parts (replace_all full_width_comma '','' raw)"

text \<open>The body of the loop over the segments, on the ranges and the invalid tokens found so far.\<close>

fun push_segment :: "status_code_range list \<times> string list \<Rightarrow> string \<Rightarrow> status_code_range list \<times> string list" where
  "push_segment (rs, invalid) segment =
     (case parseToken segment of None \<Rightarrow> (rs, invalid @ [segment]) | Some parsed \<Rightarrow> (rs @ [parsed], invalid))"

text \<open>The input is typed as unknown; its callers pass undefined, null or a text.\<close>

definition parseHttpStatusCodeRules :: "string option \<Rightarrow> parsed_rules" where
  "parseHttpStatusCodeRules input =
     (let raw = trim (case input of None \<Rightarrow> [] | Some s \<Rightarrow> s) in
      if length raw = 0 then
        \<lparr>ok = True, ranges = [], tokens = [], normalized = [], invalidTokens = []\<rparr>
      else
        let (rs, invalid) = foldl push_segment ([], []) (rule_segments raw)
        in if length invalid > 0 then
             \<lparr>ok = False, ranges = [], tokens = [], normalized = raw, invalidTokens = invalid\<rparr>
           else
             let merged = mergeRanges rs;
                 toks = map range_token merged
             in \<lparr>ok = True, ranges = merged, tokens = toks, normalized = join '','' toks,
                  invalidTokens = []\<rparr>)"

subsection \<open>What a list of ranges denotes\<close>

definition codes :: "status_code_range list \<Rightarrow> int set" where
  "codes rs = (\<Union>r\<in>set rs. {range_start r..range_end r})"

definition valid_range :: "status_code_range \<Rightarrow> bool" where
  "valid_range r \<longleftrightarrow> 100 \<le> range_start r \<and> range_start r \<le> range_end r \<and> range_end r \<le> 599"

text \<open>The normal form: non-empty ranges in order, with a gap between neighbours.\<close>

fun canonical :: "status_code_range list \<Rightarrow> bool" where
  "canonical [] = True"
| "canonical [r] = (range_start r \<le> range_end r)"
| "canonical (r # s # rs) =
     (range_start r \<le> range_end r \<and> range_end r + 1 < range_start s \<and> canonical (s # rs))"

text \<open>The merge as a recursion that carries the range under construction.\<close>

fun merge_from :: "status_code_range \<Rightarrow> status_code_range list \<Rightarrow> status_code_range list" where
  "merge_from cur [] = [cur]"
| "merge_from cur (r # rs) =
     (if range_start r > range_end cur + 1 then cur # merge_from r rs
      else merge_from (cur\<lparr>range_end := max (range_end cur) (range_end r)\<rparr>) rs)"

lemma codes_simps [simp]:
  "codes [] = {}" "codes (r # rs) = {range_start r..range_end r} \<union> codes rs"
  by (auto simp: codes_def)

lemma codes_cong_set: "set rs = set rs' \<Longrightarrow> codes rs = codes rs'"
  by (simp add: codes_def)

interpretation range_order: comparator range_cmp
  by unfold_locales (auto simp: range_cmp_def split: if_splits)

lemma foldl_merge_step: "foldl merge_step (pre @ [cur]) rs = pre @ merge_from cur rs"
proof (induction rs arbitrary: pre cur)
  case (Cons r rs)
  show ?case
    using Cons.IH [of "pre @ [cur]" r]
      Cons.IH [of pre "cur\<lparr>range_end := max (range_end cur) (range_end r)\<rparr>"]
    by (auto simp: merge_step_def)
qed simp

lemma mergeRanges_eq:
  "mergeRanges rs = (case sort_by range_cmp rs of [] \<Rightarrow> [] | r # rs' \<Rightarrow> merge_from r rs')"
proof (cases "sort_by range_cmp rs")
  case Nil
  then have "length rs = 0" by (metis length_sort_by list.size(3))
  with Nil show ?thesis by (simp add: mergeRanges_def)
next
  case (Cons r rs')
  then have "rs \<noteq> []" by (metis length_sort_by list.size(3) list.distinct(1) length_0_conv)
  with Cons show ?thesis
    using foldl_merge_step [of "[]" r rs'] by (simp add: mergeRanges_def merge_step_def)
qed

lemma merge_from_hd: "\<exists>e rest. merge_from cur rs = cur\<lparr>range_end := e\<rparr> # rest \<and> range_end cur \<le> e"
proof (induction rs arbitrary: cur)
  case Nil
  show ?case by (rule exI [of _ "range_end cur"]) (cases cur, simp)
next
  case (Cons r rs)
  show ?case
  proof (cases "range_start r > range_end cur + 1")
    case True
    then show ?thesis by (intro exI [of _ "range_end cur"]) (cases cur, simp)
  next
    case False
    let ?cur = "cur\<lparr>range_end := max (range_end cur) (range_end r)\<rparr>"
    obtain e rest where "merge_from ?cur rs = ?cur\<lparr>range_end := e\<rparr> # rest" "range_end ?cur \<le> e"
      using Cons.IH by blast
    with False show ?thesis by auto
  qed
qed

lemma codes_merge_from:
  assumes "\<And>r. r \<in> set rs \<Longrightarrow> range_start cur \<le> range_start r"
    and "sorted_wrt (\<lambda>r s. range_start r \<le> range_start s) rs"
    and "range_start cur \<le> range_end cur"
    and "\<And>r. r \<in> set rs \<Longrightarrow> range_start r \<le> range_end r"
  shows "codes (merge_from cur rs) = codes (cur # rs) \<and> canonical (merge_from cur rs)"
  using assms
proof (induction rs arbitrary: cur)
  case (Cons r rs)
  show ?case
  proof (cases "range_start r > range_end cur + 1")
    case True
    from Cons have IH: "codes (merge_from r rs) = codes (r # rs) \<and> canonical (merge_from r rs)"
      by (intro Cons.IH) auto
    obtain e rest where "merge_from r rs = r\<lparr>range_end := e\<rparr> # rest" "range_end r \<le> e"
      using merge_from_hd by blast
    with True IH Cons.prems show ?thesis by auto
  next
    case False
    let ?cur = "cur\<lparr>range_end := max (range_end cur) (range_end r)\<rparr>"
    from Cons have "codes (merge_from ?cur rs) = codes (?cur # rs) \<and> canonical (merge_from ?cur rs)"
      by (intro Cons.IH) auto
    moreover have "{range_start cur..max (range_end cur) (range_end r)} =
        {range_start cur..range_end cur} \<union> {range_start r..range_end r}"
      using False Cons.prems(1) [of r] Cons.prems(4) [of r] by auto
    ultimately show ?thesis using False by auto
  qed
qed simp

lemma mergeRanges_correct:
  assumes "\<forall>r\<in>set rs. range_start r \<le> range_end r"
  shows "codes (mergeRanges rs) = codes rs" and "canonical (mergeRanges rs)"
proof -
  have sorted: "sorted_wrt (\<lambda>r s. range_start r \<le> range_start s) (sort_by range_cmp rs)"
    using range_order.ordered_sort_by [of rs] unfolding range_order.ordered_def
    by (rule sorted_wrt_mono_rel [rotated]) (auto simp: range_cmp_def split: if_splits)
  have "codes (mergeRanges rs) = codes rs \<and> canonical (mergeRanges rs)"
  proof (cases "sort_by range_cmp rs")
    case Nil
    then have "rs = []" by (metis length_0_conv length_sort_by)
    then show ?thesis by (simp add: mergeRanges_def)
  next
    case (Cons r rs')
    then have elems: "set (r # rs') = set rs" by (metis set_sort_by)
    from sorted Cons elems assms have
      "codes (merge_from r rs') = codes (r # rs') \<and> canonical (merge_from r rs')"
      by (intro codes_merge_from) auto
    with Cons codes_cong_set [OF elems] show ?thesis by (simp add: mergeRanges_eq)
  qed
  then show "codes (mergeRanges rs) = codes rs" and "canonical (mergeRanges rs)" by simp_all
qed

subsection \<open>The normal form is unique\<close>

lemma canonical_Cons:
  "canonical (r # rs) \<Longrightarrow>
     range_start r \<le> range_end r \<and> canonical rs \<and> (\<forall>n\<in>codes rs. range_end r + 1 < n)"
proof (induction rs arbitrary: r)
  case (Cons s rs)
  then have "range_end r + 1 < range_start s" and "\<forall>n\<in>codes rs. range_end s + 1 < n"
    and "range_start s \<le> range_end s" by auto
  then have "\<forall>n\<in>codes (s # rs). range_end r + 1 < n" by auto
  with Cons.prems show ?case by simp
qed simp

lemma canonical_nonempty: "canonical (r # rs) \<Longrightarrow> range_start r \<in> codes (r # rs)"
  by (auto dest: canonical_Cons)

lemma canonical_start_le: "canonical (r # rs) \<Longrightarrow> n \<in> codes (r # rs) \<Longrightarrow> range_start r \<le> n"
  by (auto dest!: canonical_Cons)

lemma canonical_end_gap: "canonical (r # rs) \<Longrightarrow> range_end r + 1 \<notin> codes (r # rs)"
  by (auto dest!: canonical_Cons)

lemma canonical_end_le:
  assumes "canonical (r # rs)" "canonical (s # ss)"
    and "codes (r # rs) = codes (s # ss)" "range_start r = range_start s"
  shows "range_end s \<le> range_end r"
proof (rule ccontr)
  assume "\<not> range_end s \<le> range_end r"
  with assms have "range_end r + 1 \<in> codes (s # ss)"
    by (auto dest: canonical_Cons)
  with assms canonical_end_gap show False by metis
qed

lemma canonical_tail:
  assumes "canonical (r # rs)"
  shows "codes rs = codes (r # rs) - {range_start r..range_end r}"
  using canonical_Cons [OF assms] by auto

lemma canonical_unique:
  "canonical xs \<Longrightarrow> canonical ys \<Longrightarrow> codes xs = codes ys \<Longrightarrow> xs = ys"
proof (induction xs arbitrary: ys)
  case Nil
  then show ?case by (cases ys) (auto dest!: canonical_nonempty)
next
  case (Cons x xs)
  from Cons.prems(1,3) have "range_start x \<in> codes ys" by (metis canonical_nonempty)
  then obtain y ys' where ys: "ys = y # ys'" by (cases ys) auto
  note can = Cons.prems(1) Cons.prems(2) [unfolded ys] and same = Cons.prems(3) [unfolded ys]
  have starts: "range_start x = range_start y"
  proof (rule antisym)
    show "range_start x \<le> range_start y"
      by (rule canonical_start_le [OF can(1)], unfold same, rule canonical_nonempty [OF can(2)])
    show "range_start y \<le> range_start x"
      by (rule canonical_start_le [OF can(2)], fold same, rule canonical_nonempty [OF can(1)])
  qed
  have ends: "range_end x = range_end y"
    by (rule antisym) (rule canonical_end_le [OF can(2,1)] canonical_end_le [OF can],
        simp only: same starts, simp only: same starts)+
  from starts ends have "x = y" by (cases x, cases y) simp
  moreover have "codes xs = codes ys'"
    unfolding canonical_tail [OF can(1)] canonical_tail [OF can(2)] same starts ends ..
  then have "xs = ys'"
    using canonical_Cons [OF can(1)] canonical_Cons [OF can(2)] by (intro Cons.IH) blast+
  ultimately show ?case using ys by simp
qed

subsection \<open>Tokens\<close>

lemma parseToken_valid: "parseToken t = Some r \<Longrightarrow> valid_range r"
  by (auto simp: parseToken_def Let_def isValidCode_def valid_range_def
      split: if_splits list.splits)

lemma string_of_code: "0 \<le> n \<Longrightarrow> string_of_int n = digits_of_nat (nat n)"
  by (simp add: string_of_int_def)

lemma dash_not_digit: "\<not> is_digit CHR ''-''"
  by (simp add: is_digit_def)

lemma comma_not_digit: "\<not> is_digit CHR '',''"
  by (simp add: is_digit_def)

lemma token_chars: "valid_range r \<Longrightarrow> c \<in> set (range_token r) \<Longrightarrow> is_digit c \<or> c = CHR ''-''"
  by (simp add: range_token_def valid_range_def string_of_code split: if_splits)
    (use digits_of_nat_no in blast)+

lemma token_graphic: "valid_range r \<Longrightarrow> c \<in> set (range_token r) \<Longrightarrow> graphic c"
proof -
  assume "valid_range r" "c \<in> set (range_token r)"
  then have "is_digit c \<or> c = CHR ''-''" by (rule token_chars)
  then show ?thesis using graphic_digit by (auto simp: graphic_def)
qed

lemma token_nonempty: "range_token r \<noteq> []"
  by (auto simp: range_token_def string_of_int_def)

lemma trim_token: "valid_range r \<Longrightarrow> trim (range_token r) = range_token r"
  using token_nonempty by (intro trim_graphic token_graphic) auto

lemma strip_ws_token: "valid_range r \<Longrightarrow> strip_ws (range_token r) = range_token r"
  by (rule strip_ws_graphic) (rule token_graphic)

lemma parse_digits: "isNumber (digits_of_nat n)" "parse_code (digits_of_nat n) = int n"
  by (simp_all add: isNumber_def parse_code_def)

lemma parseToken_range_token:
  assumes "valid_range r"
  shows "parseToken (range_token r) = Some r"
proof -
  let ?a = "digits_of_nat (nat (range_start r))" and ?b = "digits_of_nat (nat (range_end r))"
  have no_dash: "CHR ''-'' \<notin> set ?a" "CHR ''-'' \<notin> set ?b"
    using digits_of_nat_no [OF dash_not_digit] by blast+
  have split2: "split_on CHR ''-'' (?a @ ''-'' @ ?b) = [?a, ?b]"
    using no_dash by (simp add: split_on_append split_on_no_sep)
  have bounds: "isValidCode (range_start r)" "isValidCode (range_end r)"
    "0 \<le> range_start r" "0 \<le> range_end r" "range_start r \<le> range_end r"
    using assms by (auto simp: valid_range_def isValidCode_def)
  have clean: "strip_ws (trim (range_token r)) = range_token r"
    using assms by (simp add: trim_token strip_ws_token)
  show ?thesis
  proof (cases "range_start r = range_end r")
    case True
    then have "range_token r = ?a" using bounds by (simp add: range_token_def string_of_code)
    with True bounds no_dash show ?thesis
      unfolding parseToken_def clean Let_def
      by (simp add: str_includes_char parse_digits)
  next
    case False
    then have "range_token r = ?a @ ''-'' @ ?b"
      using bounds by (simp add: range_token_def string_of_code)
    with bounds split2 show ?thesis
      unfolding parseToken_def clean Let_def
      by (simp add: str_includes_char parse_digits)
  qed
qed

lemma csv_item_token:
  assumes "valid_range r"
  shows "csv_item (range_token r)"
proof -
  have "CHR '','' \<notin> set (range_token r)"
    using token_chars [OF assms, of "CHR '',''"] comma_not_digit by auto
  then show ?thesis
    unfolding csv_item_def using token_nonempty trim_token [OF assms] by blast
qed

interpretation code_token: csv_codec range_token parseToken valid_range
  by unfold_locales (auto intro: csv_item_token parseToken_range_token)

subsection \<open>Properties of the parser\<close>

lemma map_filter_all_Some:
  "filter (\<lambda>s. f s = None) xs = [] \<Longrightarrow> map f xs = map Some (List.map_filter f xs)"
  by (induction xs) (auto simp: map_filter_simps split: option.splits if_splits)

lemma map_filter_of_Some: "map f xs = map Some ys \<Longrightarrow> List.map_filter f xs = ys"
  by (induction xs arbitrary: ys) (auto simp: map_filter_simps)

lemma set_map_filter_parse:
  "r \<in> set (List.map_filter parseToken ss) \<longleftrightarrow> (\<exists>s\<in>set ss. parseToken s = Some r)"
  by (force simp: map_filter_def)

lemma map_filter_valid: "r \<in> set (List.map_filter parseToken ss) \<Longrightarrow> valid_range r"
  by (auto simp: set_map_filter_parse intro: parseToken_valid)

lemma codes_valid: "list_all valid_range rs \<Longrightarrow> n \<in> codes rs \<Longrightarrow> 100 \<le> n \<and> n \<le> 599"
  by (fastforce simp: codes_def list_all_iff valid_range_def)

lemma canonical_member: "canonical rs \<Longrightarrow> r \<in> set rs \<Longrightarrow> range_start r \<le> range_end r"
  by (induction rs) (auto dest!: canonical_Cons)

lemma mergeRanges_valid:
  assumes "list_all valid_range rs"
  shows "list_all valid_range (mergeRanges rs)"
proof -
  have le: "\<forall>r\<in>set rs. range_start r \<le> range_end r"
    using assms by (auto simp: list_all_iff valid_range_def)
  have "valid_range r" if r: "r \<in> set (mergeRanges rs)" for r
  proof -
    have nonempty: "range_start r \<le> range_end r"
      by (rule canonical_member [OF mergeRanges_correct(2) [OF le] r])
    then have "range_start r \<in> codes (mergeRanges rs)" "range_end r \<in> codes (mergeRanges rs)"
      using r by (auto simp: codes_def)
    then have "range_start r \<in> codes rs" "range_end r \<in> codes rs"
      by (simp_all only: mergeRanges_correct(1) [OF le])
    with nonempty codes_valid [OF assms] show ?thesis by (auto simp: valid_range_def)
  qed
  then show ?thesis by (simp add: list_all_iff)
qed

lemma push_segments:
  "foldl push_segment (rs, invalid) segments =
     (rs @ List.map_filter parseToken segments, invalid @ filter (\<lambda>s. parseToken s = None) segments)"
  by (induction segments arbitrary: rs invalid) (auto simp: map_filter_simps split: option.split)

lemmas parse_rules_simps = parseHttpStatusCodeRules_def Let_def push_segments

text \<open>The shape of a successful result: it is determined by the merged ranges.\<close>

definition rules_of :: "status_code_range list \<Rightarrow> parsed_rules" where
  "rules_of rs =
     \<lparr>ok = True, ranges = rs, tokens = map range_token rs,
      normalized = join '','' (map range_token rs), invalidTokens = []\<rparr>"

definition raw_segments :: "string option \<Rightarrow> string list" where
  "raw_segments input =
     (let raw = trim (case input of None \<Rightarrow> [] | Some s \<Rightarrow> s)
      in if raw = [] then [] else rule_segments raw)"

lemma parse_ok_shape:
  assumes "ok (parseHttpStatusCodeRules input)"
  shows "parseHttpStatusCodeRules input =
      rules_of (mergeRanges (List.map_filter parseToken (raw_segments input)))"
    and "filter (\<lambda>s. parseToken s = None) (raw_segments input) = []"
proof -
  define raw where "raw = trim (case input of None \<Rightarrow> [] | Some s \<Rightarrow> s)"
  note simps = parse_rules_simps rules_of_def raw_segments_def raw_def [symmetric]
  have "parseHttpStatusCodeRules input =
      rules_of (mergeRanges (List.map_filter parseToken (raw_segments input))) \<and>
      filter (\<lambda>s. parseToken s = None) (raw_segments input) = []"
  proof (cases "raw = []")
    case True
    then show ?thesis by (simp add: simps mergeRanges_def map_filter_simps)
  next
    case False
    then show ?thesis using assms by (simp add: simps split: if_splits)
  qed
  then show "parseHttpStatusCodeRules input =
      rules_of (mergeRanges (List.map_filter parseToken (raw_segments input)))"
    and "filter (\<lambda>s. parseToken s = None) (raw_segments input) = []" by simp_all
qed

lemma normalized_segments:
  assumes "list_all valid_range rs" "rs \<noteq> []"
  shows "rule_segments (trim (normalized (rules_of rs))) = map range_token rs"
    and "trim (normalized (rules_of rs)) \<noteq> []"
proof -
  let ?n = "join '','' (map range_token rs)"
  have chars: "graphic c \<and> c \<noteq> CHR 0xEF" if "c \<in> set ?n" for c
  proof -
    have "c = CHR '','' \<or> (\<exists>r\<in>set rs. c \<in> set (range_token r))"
      using that set_join [of "'',''" "map range_token rs"] by auto
    then have "graphic c"
    proof
      assume "c = CHR '',''"
      then show ?thesis by (simp add: graphic_def)
    next
      assume "\<exists>r\<in>set rs. c \<in> set (range_token r)"
      then show ?thesis using assms(1) token_graphic by (auto simp: list_all_iff)
    qed
    then show ?thesis by (auto simp: graphic_def)
  qed
  have ne: "?n \<noteq> []"
    using assms(2) token_nonempty by (cases rs; cases "tl rs") (auto simp: join_Cons)
  have tr: "trim ?n = ?n" using ne chars by (intro trim_graphic) auto
  have "\<not> sublist full_width_comma ?n"
    using chars by (intro not_sublist_char [of "CHR 0xEF"]) (auto simp: full_width_comma_def)
  then have "replace_all full_width_comma '','' ?n = ?n"
    by (intro replace_all_id) (simp_all add: full_width_comma_def)
  then show "rule_segments (trim (normalized (rules_of rs))) = map range_token rs"
    using code_token.parts_of_rendered [OF assms(1)] by (simp add: rule_segments_def rules_of_def tr)
  show "trim (normalized (rules_of rs)) \<noteq> []" using ne tr by (simp add: rules_of_def)
qed

lemma mergeRanges_canonical_id:
  assumes "canonical rs"
  shows "mergeRanges rs = rs"
proof -
  have "\<forall>r\<in>set rs. range_start r \<le> range_end r"
    using assms canonical_member by blast
  then show ?thesis using assms by (intro canonical_unique mergeRanges_correct)
qed

lemma parse_normalized:
  assumes "list_all valid_range rs" "canonical rs"
  shows "parseHttpStatusCodeRules (Some (normalized (rules_of rs))) = rules_of rs"
proof (cases "rs = []")
  case True
  then show ?thesis by (simp add: parse_rules_simps rules_of_def)
next
  case False
  have "map parseToken (map range_token rs) = map Some rs"
    using assms(1) by (auto simp: list_all_iff parseToken_range_token)
  then have "List.map_filter parseToken (map range_token rs) = rs"
    by (rule map_filter_of_Some)
  moreover have "filter (\<lambda>s. parseToken s = None) (map range_token rs) = []"
    using assms(1) by (auto simp: list_all_iff parseToken_range_token filter_empty_conv)
  ultimately show ?thesis
    using normalized_segments [OF assms(1) False] mergeRanges_canonical_id [OF assms(2)]
    by (simp add: parse_rules_simps rules_of_def)
qed

text \<open>
  Normalising is idempotent: when the rules an administrator typed are accepted, reading the
  normalised text again is accepted too and gives the very same result (ranges, tokens and text).
\<close>

theorem parse_rules_normal_form:
  assumes "ok (parseHttpStatusCodeRules input)"
  shows "parseHttpStatusCodeRules (Some (normalized (parseHttpStatusCodeRules input)))
    = parseHttpStatusCodeRules input"
proof -
  define rs where "rs = List.map_filter parseToken (raw_segments input)"
  have valid: "list_all valid_range rs"
    by (auto simp: rs_def list_all_iff intro: map_filter_valid)
  then have "\<forall>r\<in>set rs. range_start r \<le> range_end r"
    by (auto simp: list_all_iff valid_range_def)
  then have "canonical (mergeRanges rs)" by (rule mergeRanges_correct)
  with valid show ?thesis
    unfolding parse_ok_shape(1) [OF assms] rs_def [symmetric]
    by (intro parse_normalized mergeRanges_valid)
qed

theorem parse_rules_normal_form_witness:
  "ok (parseHttpStatusCodeRules (Some '' 500 - 503,429,502-510,504''))
   \<and> normalized (parseHttpStatusCodeRules (Some '' 500 - 503,429,502-510,504'')) = ''429,500-510''
   \<and> parseHttpStatusCodeRules (Some ''429,500-510'')
     = parseHttpStatusCodeRules (Some '' 500 - 503,429,502-510,504'')"
proof -
  let ?p = "parseHttpStatusCodeRules (Some '' 500 - 503,429,502-510,504'')"
  have h: "ok ?p" and n: "normalized ?p = ''429,500-510''" by code_simp+
  show ?thesis using h n parse_rules_normal_form [OF h] by simp
qed

text \<open>
  C16. Functional correctness of an accepted input: a code is covered by the resulting ranges exactly
  when some segment of the input denotes it, every range lies within 100..599, and the ranges are in
  normal form (in order, non-empty, never overlapping or adjacent).
\<close>

theorem parse_rules_semantics:
  assumes "ok (parseHttpStatusCodeRules input)"
  shows "codes (ranges (parseHttpStatusCodeRules input)) =
      {n. \<exists>s\<in>set (raw_segments input). \<exists>r. parseToken s = Some r \<and> range_start r \<le> n \<and> n \<le> range_end r}
    \<and> list_all valid_range (ranges (parseHttpStatusCodeRules input))
    \<and> canonical (ranges (parseHttpStatusCodeRules input))"
proof -
  define rs where "rs = List.map_filter parseToken (raw_segments input)"
  have valid: "list_all valid_range rs"
    by (auto simp: rs_def list_all_iff intro: map_filter_valid)
  then have le: "\<forall>r\<in>set rs. range_start r \<le> range_end r"
    by (auto simp: list_all_iff valid_range_def)
  have shape: "ranges (parseHttpStatusCodeRules input) = mergeRanges rs"
    unfolding parse_ok_shape(1) [OF assms] rs_def by (simp add: rules_of_def)
  have elems: "set rs = {r. \<exists>s\<in>set (raw_segments input). parseToken s = Some r}"
    unfolding rs_def by (simp add: set_eq_iff set_map_filter_parse)
  show ?thesis
    unfolding shape mergeRanges_correct(1) [OF le]
  proof (intro conjI)
    show "codes rs = {n. \<exists>s\<in>set (raw_segments input).
        \<exists>r. parseToken s = Some r \<and> range_start r \<le> n \<and> n \<le> range_end r}"
      unfolding codes_def elems by (simp add: set_eq_iff) metis
    show "list_all valid_range (mergeRanges rs)" by (rule mergeRanges_valid [OF valid])
    show "canonical (mergeRanges rs)" by (rule mergeRanges_correct(2) [OF le])
  qed
qed

theorem parse_rules_semantics_witness:
  "ok (parseHttpStatusCodeRules (Some ''503-505,504-599''))
   \<and> (599 \<in> codes (ranges (parseHttpStatusCodeRules (Some ''503-505,504-599''))))
   \<and> canonical (ranges (parseHttpStatusCodeRules (Some ''503-505,504-599'')))"
proof -
  let ?i = "Some ''503-505,504-599''"
  have h: "ok (parseHttpStatusCodeRules ?i)" by code_simp
  have s: "''504-599'' \<in> set (raw_segments ?i)" by code_simp
  have p: "parseToken ''504-599'' = Some \<lparr>range_start = 504, range_end = 599\<rparr>" by code_simp
  have "599 \<in> codes (ranges (parseHttpStatusCodeRules ?i))"
    unfolding parse_rules_semantics [OF h, THEN conjunct1] using s p by force
  with h parse_rules_semantics [OF h] show ?thesis by blast
qed

text \<open>
  C26. The normalised text is a canonical name of the set of codes: two accepted inputs print the same
  text exactly when they cover the same status codes.
\<close>

theorem parse_rules_canonical:
  assumes "ok (parseHttpStatusCodeRules a)" "ok (parseHttpStatusCodeRules b)"
  shows "normalized (parseHttpStatusCodeRules a) = normalized (parseHttpStatusCodeRules b) \<longleftrightarrow>
    codes (ranges (parseHttpStatusCodeRules a)) = codes (ranges (parseHttpStatusCodeRules b))"
proof -
  have facts: "list_all valid_range (mergeRanges (List.map_filter parseToken (raw_segments i)))
      \<and> canonical (mergeRanges (List.map_filter parseToken (raw_segments i)))" for i
    by (intro conjI mergeRanges_valid mergeRanges_correct)
      (auto simp: list_all_iff valid_range_def dest!: map_filter_valid)
  let ?m = "\<lambda>i. mergeRanges (List.map_filter parseToken (raw_segments i))"
  have "normalized (rules_of (?m a)) = normalized (rules_of (?m b)) \<longleftrightarrow> codes (?m a) = codes (?m b)"
  proof
    assume "normalized (rules_of (?m a)) = normalized (rules_of (?m b))"
    then have "?m a = ?m b"
      using facts by (intro code_token.rendered_inject) (auto simp: rules_of_def)
    then show "codes (?m a) = codes (?m b)" by simp
  next
    assume "codes (?m a) = codes (?m b)"
    then have "?m a = ?m b" using facts by (intro canonical_unique) auto
    then show "normalized (rules_of (?m a)) = normalized (rules_of (?m b))" by simp
  qed
  then show ?thesis
    unfolding parse_ok_shape(1) [OF assms(1)] parse_ok_shape(1) [OF assms(2)]
    by (simp add: rules_of_def)
qed

theorem parse_rules_canonical_witness:
  "ok (parseHttpStatusCodeRules (Some ''500-501,502'')) \<and> ok (parseHttpStatusCodeRules (Some ''501-502,500''))
   \<and> codes (ranges (parseHttpStatusCodeRules (Some ''500-501,502'')))
     = codes (ranges (parseHttpStatusCodeRules (Some ''501-502,500'')))"
proof -
  let ?a = "Some ''500-501,502''" and ?b = "Some ''501-502,500''"
  have h: "ok (parseHttpStatusCodeRules ?a)" "ok (parseHttpStatusCodeRules ?b)" by code_simp+
  have "normalized (parseHttpStatusCodeRules ?a) = normalized (parseHttpStatusCodeRules ?b)"
    by code_simp
  with h parse_rules_canonical [OF h] show ?thesis by blast
qed

subsection \<open>The grammar of a segment\<close>

definition code_text :: "string \<Rightarrow> int \<Rightarrow> bool" where
  "code_text t n \<longleftrightarrow> t \<noteq> [] \<and> list_all is_digit t \<and> n = int (nat_of_digits t)"

text \<open>White space counts for nothing.  A second hyphen ends what is read.\<close>

definition segment_denotes :: "string \<Rightarrow> int \<Rightarrow> int \<Rightarrow> bool" where
  "segment_denotes s lo hi \<longleftrightarrow> 100 \<le> lo \<and> lo \<le> hi \<and> hi \<le> 599 \<and>
     (code_text (strip_ws s) lo \<and> hi = lo \<or>
      (\<exists>a b rest. strip_ws s = a @ ''-'' @ b @ rest \<and> code_text a lo \<and> code_text b hi \<and> (rest = [] \<or> hd rest = CHR ''-'')))"

lemma code_text_number: "code_text t n \<longleftrightarrow> isNumber t \<and> parse_code t = n"
  by (auto simp: code_text_def isNumber_def parse_code_def all_digits_def)

lemma code_text_no_hyphen: "code_text t n \<Longrightarrow> CHR ''-'' \<notin> set t"
  by (auto simp: code_text_def list_all_iff is_digit_def)

lemma split_hyphen:
  "(\<exists>rs. split_on CHR ''-'' c = a # b # rs) \<longleftrightarrow>
     CHR ''-'' \<notin> set a \<and> CHR ''-'' \<notin> set b \<and> (\<exists>rest. c = a @ ''-'' @ b @ rest \<and> (rest = [] \<or> hd rest = CHR ''-''))"
proof
  assume "\<exists>rs. split_on CHR ''-'' c = a # b # rs"
  then obtain rs where rs: "split_on CHR ''-'' c = a # b # rs" by blast
  then have "c = a @ ''-'' @ b @ (if rs = [] then [] else CHR ''-'' # join ''-'' rs)"
    using join_split_on [of "CHR ''-''" c] by (cases rs) simp_all
  moreover have "CHR ''-'' \<notin> set a" "CHR ''-'' \<notin> set b" using split_on_parts [of _ "CHR ''-''" c] rs by auto
  ultimately show "CHR ''-'' \<notin> set a \<and> CHR ''-'' \<notin> set b \<and> (\<exists>rest. c = a @ ''-'' @ b @ rest \<and> (rest = [] \<or> hd rest = CHR ''-''))"
    by (intro conjI exI [of _ "if rs = [] then [] else CHR ''-'' # join ''-'' rs"]) simp_all
next
  assume a: "CHR ''-'' \<notin> set a \<and> CHR ''-'' \<notin> set b \<and> (\<exists>rest. c = a @ ''-'' @ b @ rest \<and> (rest = [] \<or> hd rest = CHR ''-''))"
  then obtain rest where r: "c = a @ CHR ''-'' # b @ rest" "rest = [] \<or> hd rest = CHR ''-''" by auto
  then show "\<exists>rs. split_on CHR ''-'' c = a # b # rs"
    using a by (cases rest) (auto simp: split_on_append split_on_no_sep)
qed

lemma hyphen_denotes:
  assumes "CHR ''-'' \<in> set (strip_ws s)"
  shows "segment_denotes s lo hi \<longleftrightarrow> 100 \<le> lo \<and> lo \<le> hi \<and> hi \<le> 599 \<and>
    (\<exists>a b. (\<exists>rs. split_on CHR ''-'' (strip_ws s) = a # b # rs) \<and> code_text a lo \<and> code_text b hi)"
proof -
  have "\<not> code_text (strip_ws s) n" for n using assms code_text_no_hyphen by blast
  moreover have "(\<exists>rs. split_on CHR ''-'' (strip_ws s) = a # b # rs) \<and> code_text a lo \<and> code_text b hi \<longleftrightarrow>
      (\<exists>rest. strip_ws s = a @ ''-'' @ b @ rest \<and> code_text a lo \<and> code_text b hi \<and> (rest = [] \<or> hd rest = CHR ''-''))" for a b
    using split_hyphen [of "strip_ws s" a b] code_text_no_hyphen [of a lo] code_text_no_hyphen [of b hi] by blast
  ultimately show ?thesis unfolding segment_denotes_def by simp
qed

lemma parseToken_denotes:
  assumes "trim s = s"
  shows "parseToken s = Some \<lparr>range_start = lo, range_end = hi\<rparr> \<longleftrightarrow> segment_denotes s lo hi"
proof (cases "CHR ''-'' \<in> set (strip_ws s)")
  case True
  then have "str_includes (strip_ws s) ''-''" "strip_ws s \<noteq> []" by (simp_all add: str_includes_char) auto
  then have "parseToken s = Some \<lparr>range_start = lo, range_end = hi\<rparr> \<longleftrightarrow>
      (\<exists>a b rs. split_on CHR ''-'' (strip_ws s) = a # b # rs \<and> code_text a lo \<and> code_text b hi)
      \<and> 100 \<le> lo \<and> lo \<le> hi \<and> hi \<le> 599"
    using assms
    by (cases "split_on CHR ''-'' (strip_ws s)" rule: remdups_adj.cases)
      (auto simp: parseToken_def Let_def code_text_number isValidCode_def)
  then show ?thesis unfolding hyphen_denotes [OF True] by blast
next
  case False
  then have "\<not> str_includes (strip_ws s) ''-''" by (simp add: str_includes_char)
  moreover have "segment_denotes s lo hi \<longleftrightarrow> 100 \<le> lo \<and> hi \<le> 599 \<and> code_text (strip_ws s) lo \<and> hi = lo"
    using False unfolding segment_denotes_def by force
  ultimately show ?thesis
    using assms by (cases "strip_ws s = []") (auto simp: parseToken_def Let_def code_text_number isValidCode_def isNumber_def all_digits_def)
qed

text \<open>
  C33. Rejection: the input is rejected exactly when some segment denotes no range of codes within
  100..599: a segment denotes one if, without its white space, it is a number, or two numbers around a
  hyphen, with nothing behind them or another hyphen.  The rejected result names precisely the
  segments that denote none in order, keeps the typed text and carries no range.
\<close>

theorem parse_rules_rejects:
  "(\<not> ok (parseHttpStatusCodeRules input) \<longleftrightarrow> (\<exists>s\<in>set (raw_segments input). \<nexists>lo hi. segment_denotes s lo hi))
   \<and> invalidTokens (parseHttpStatusCodeRules input) =
      filter (\<lambda>s. \<nexists>lo hi. segment_denotes s lo hi) (raw_segments input)
   \<and> (ok (parseHttpStatusCodeRules input)
      \<or> ranges (parseHttpStatusCodeRules input) = []
        \<and> normalized (parseHttpStatusCodeRules input) = trim (the input))"
proof -
  define raw where "raw = trim (case input of None \<Rightarrow> [] | Some s \<Rightarrow> s)"
  note simps = parse_rules_simps raw_segments_def raw_def [symmetric]
  have none: "(\<nexists>lo hi. segment_denotes s lo hi) \<longleftrightarrow> parseToken s = None" if "s \<in> set (raw_segments input)" for s
  proof -
    have "trim s = s" using that csv_parts_items [of s]
      by (auto simp: raw_segments_def rule_segments_def Let_def csv_item_def split: if_splits)
    then show ?thesis by (simp add: parseToken_denotes [symmetric]) (metis not_None_eq status_code_range.cases)
  qed
  show ?thesis
  proof (cases "raw = []")
    case True
    then show ?thesis by (simp add: simps)
  next
    case False
    then have input: "input = Some (the input)" by (cases input) (auto simp: raw_def)
    then have "trim (the input) = raw" by (metis option.simps(5) raw_def)
    moreover have "filter (\<lambda>s. \<nexists>lo hi. segment_denotes s lo hi) (raw_segments input) = filter (\<lambda>s. parseToken s = None) (raw_segments input)"
      using none by (intro filter_cong) auto
    moreover have "raw_segments input = rule_segments raw" using False by (simp add: simps)
    ultimately show ?thesis using False none by (simp add: simps filter_empty_conv)
  qed
qed

end
