(* ===== verification/Js_Json.thy ===== *)
theory Js_Json
  imports Js_Number
begin

section \<open>Dynamic values and JSON\<close>

text \<open>
  JavaScript values as the program inspects them (\<open>typeof\<close>, truthiness, property access,
  conversion to text), \<open>JSON.stringify\<close> and \<open>JSON.parse\<close>.  An object is the list of its
  own enumerable properties in the order the language enumerates them: array-index keys in
  ascending order first, then the other keys in the order of their creation.

  \<open>JSON.parse\<close> returns \<^const>\<open>None\<close> where the source throws a \<open>SyntaxError\<close>.  Its
  recursion is bounded by fuel; every call spends at least one character, so one more unit than
  the text has characters is enough (\<open>p_fuel\<close> below).
\<close>

datatype jsval =
    JUndefined
  | JNull
  | JBool bool
  | JNum jsnum
  | JStr string
  | JArr "jsval list"
  | JObj "(string \<times> jsval) list"

fun truthy :: "jsval \<Rightarrow> bool" where
  "truthy JUndefined = False"
| "truthy JNull = False"
| "truthy (JBool b) = b"
| "truthy (JNum n) = (n \<noteq> NaN \<and> n \<noteq> Fin 0)"
| "truthy (JStr s) = (s \<noteq> [])"
| "truthy (JArr vs) = True"
| "truthy (JObj ps) = True"

text \<open>\<open>a || b\<close> on values.\<close>

definition js_or :: "jsval \<Rightarrow> jsval \<Rightarrow> jsval" where
  "js_or a b = (if truthy a then a else b)"

text \<open>\<open>typeof v === 'object' && v !== null\<close>.\<close>

fun is_object :: "jsval \<Rightarrow> bool" where
  "is_object (JArr vs) = True"
| "is_object (JObj ps) = True"
| "is_object _ = False"

definition int_val :: "int \<Rightarrow> jsval" where
  "int_val i = JNum (Fin (of_int i))"

subsection \<open>Properties of objects\<close>

type_synonym props = "(string \<times> jsval) list"

definition index_key :: "string \<Rightarrow> bool" where
  "index_key k \<longleftrightarrow>
     all_digits k \<and> (hd k = CHR ''0'' \<longrightarrow> length k = 1) \<and> nat_of_digits k < 2 ^ 32 - 1"

fun obj_insert :: "string \<Rightarrow> jsval \<Rightarrow> props \<Rightarrow> props" where
  "obj_insert k v [] = [(k, v)]"
| "obj_insert k v ((k', v') # ps) =
     (if index_key k \<and> (\<not> index_key k' \<or> nat_of_digits k < nat_of_digits k')
      then (k, v) # (k', v') # ps
      else (k', v') # obj_insert k v ps)"

text \<open>Assignment to a property: an existing property keeps its place.\<close>

fun obj_put :: "string \<Rightarrow> jsval \<Rightarrow> props \<Rightarrow> props" where
  "obj_put k v ps =
     (if k \<in> fst ` set ps then map (\<lambda>(k', v'). if k' = k then (k, v) else (k', v')) ps
      else obj_insert k v ps)"

definition obj_delete :: "string \<Rightarrow> props \<Rightarrow> props" where
  "obj_delete k ps = filter (\<lambda>(k', v). k' \<noteq> k) ps"

definition obj_get :: "props \<Rightarrow> string \<Rightarrow> jsval" where
  "obj_get ps k = (case map_of ps k of None \<Rightarrow> JUndefined | Some v \<Rightarrow> v)"

text \<open>Property access \<open>v.k\<close> on a value that is not null or undefined; a string key on an array or
  a primitive finds nothing here (the program never asks an array for a named property it has).\<close>

fun js_get :: "jsval \<Rightarrow> string \<Rightarrow> jsval" where
  "js_get (JObj ps) k = obj_get ps k"
| "js_get _ k = JUndefined"

definition obj_of :: "props \<Rightarrow> props" where
  "obj_of ps = foldl (\<lambda>acc (k, v). obj_put k v acc) [] ps"

text \<open>The enumeration order of the language, and distinct keys.\<close>

definition key_before :: "string \<Rightarrow> string \<Rightarrow> bool" where
  "key_before k k' \<longleftrightarrow> \<not> index_key k' \<or> (index_key k \<and> nat_of_digits k < nat_of_digits k')"

definition wf_props :: "props \<Rightarrow> bool" where
  "wf_props ps \<longleftrightarrow> distinct (map fst ps) \<and> sorted_wrt key_before (map fst ps)"

lemma map_of_obj_insert:
  "k \<notin> fst ` set ps \<Longrightarrow> map_of (obj_insert k v ps) = (map_of ps)(k \<mapsto> v)"
  by (induction k v ps rule: obj_insert.induct) (auto simp: fun_eq_iff)

lemma map_of_obj_replace:
  "k \<in> fst ` set ps \<Longrightarrow>
   map_of (map (\<lambda>(k', v'). if k' = k then (k, v) else (k', v')) ps) = (map_of ps)(k \<mapsto> v)"
proof (induction ps)
  case (Cons p ps)
  show ?case
  proof (cases "k \<in> fst ` set ps")
    case True
    with Cons show ?thesis by (cases p) (auto simp: fun_eq_iff)
  next
    case False
    then have "map (\<lambda>(k', v'). if k' = k then (k, v) else (k', v')) ps = ps"
      by (intro map_idI) (auto simp: image_iff split: prod.splits)
    with False Cons.prems show ?thesis by (cases p) (auto simp: fun_eq_iff)
  qed
qed simp

lemma map_of_obj_put: "map_of (obj_put k v ps) = (map_of ps)(k \<mapsto> v)"
  by (simp add: map_of_obj_insert map_of_obj_replace del: fun_upd_apply)

lemma obj_get_put [simp]:
  "obj_get (obj_put k v ps) k' = (if k' = k then v else obj_get ps k')"
  unfolding obj_get_def map_of_obj_put by simp

lemma map_of_filter_key:
  "map_of (filter (\<lambda>(k', v). k' \<noteq> k) ps) = (map_of ps)(k := None)"
  by (induction ps) (auto simp: fun_eq_iff)

lemma obj_get_delete [simp]:
  "obj_get (obj_delete k ps) k' = (if k' = k then JUndefined else obj_get ps k')"
  by (simp add: obj_get_def obj_delete_def map_of_filter_key)

lemma obj_get_Nil [simp]: "obj_get [] k = JUndefined"
  by (simp add: obj_get_def)

lemma keys_obj_insert: "set (map fst (obj_insert k v ps)) = insert k (set (map fst ps))"
  by (induction k v ps rule: obj_insert.induct) auto

lemma keys_obj_put: "set (map fst (obj_put k v ps)) = insert k (set (map fst ps))"
proof (cases "k \<in> fst ` set ps")
  case True
  then have "map fst (map (\<lambda>(k', v'). if k' = k then (k, v) else (k', v')) ps) = map fst ps"
    by (auto split: prod.splits)
  with True show ?thesis by (auto simp del: map_map)
next
  case False
  then show ?thesis using keys_obj_insert [of k v ps] by simp
qed

lemma digits_of_nat_of_digits:
  "all_digits k \<Longrightarrow> (hd k = CHR ''0'' \<longrightarrow> length k = 1) \<Longrightarrow> digits_of_nat (nat_of_digits k) = k"
proof (induction k rule: rev_induct)
  case (snoc c s)
  then have c: "is_digit c" "digit_val c < 10" by (auto simp: all_digits_def digit_val_less)
  show ?case
  proof (cases "s = []")
    case True
    with c show ?thesis by (simp add: nat_of_digits_def digits_of_nat_small digit_char_digit_val)
  next
    case False
    with snoc have s: "all_digits s" "hd s \<noteq> CHR ''0''" by (auto simp: all_digits_def)
    with snoc have IH: "digits_of_nat (nat_of_digits s) = s" by simp
    have "0 < nat_of_digits s"
    proof (rule ccontr)
      assume "\<not> 0 < nat_of_digits s"
      with IH have "s = digits_of_nat 0" by simp
      with s(2) show False by (simp add: digits_of_nat_small digit_char_eq_0)
    qed
    with c IH show ?thesis
      by (subst digits_of_nat.simps) (simp add: digit_char_digit_val)
  qed
qed (simp add: all_digits_def)

lemma index_key_inject:
  "index_key k \<Longrightarrow> index_key k' \<Longrightarrow> nat_of_digits k = nat_of_digits k' \<Longrightarrow> k = k'"
  by (metis digits_of_nat_of_digits index_key_def)

lemma wf_props_insert:
  assumes "wf_props ps" "k \<notin> fst ` set ps"
  shows "wf_props (obj_insert k v ps)"
  using assms
proof (induction k v ps rule: obj_insert.induct)
  case (2 k v k' v' ps)
  then have tail: "wf_props ps" "k' \<notin> fst ` set ps" "k \<notin> fst ` set ps" "k \<noteq> k'"
    and before: "\<forall>x\<in>fst ` set ps. key_before k' x"
    by (auto simp: wf_props_def)
  show ?case
  proof (cases "index_key k \<and> (\<not> index_key k' \<or> nat_of_digits k < nat_of_digits k')")
    case True
    then have "key_before k k'" by (auto simp: key_before_def)
    moreover have "\<forall>x\<in>fst ` set ps. key_before k x"
      using True before by (auto simp: key_before_def)
    ultimately show ?thesis using 2 True by (simp add: wf_props_def)
  next
    case False
    then have "key_before k' k"
      using tail(4) index_key_inject [of k k'] by (auto simp: key_before_def not_less le_less)
    moreover have "wf_props (obj_insert k v ps)" using 2 False tail by blast
    moreover have "set (map fst (obj_insert k v ps)) = insert k (fst ` set ps)"
      using keys_obj_insert [of k v ps] by simp
    moreover have "obj_insert k v ((k', v') # ps) = (k', v') # obj_insert k v ps"
      unfolding obj_insert.simps by (rule if_not_P [OF False])
    ultimately show ?thesis
      using tail before by (simp add: wf_props_def del: obj_insert.simps)
  qed
qed (simp add: wf_props_def)

lemma wf_props_put [simp]: "wf_props ps \<Longrightarrow> wf_props (obj_put k v ps)"
proof (cases "k \<in> fst ` set ps")
  case True
  then have "map fst (map (\<lambda>(k', v'). if k' = k then (k, v) else (k', v')) ps) = map fst ps"
    by (auto split: prod.splits)
  with True show "wf_props ps \<Longrightarrow> ?thesis" by (simp add: wf_props_def del: map_map)
qed (simp add: wf_props_insert)

declare obj_put.simps [simp del]

lemma wf_props_delete [simp]: "wf_props ps \<Longrightarrow> wf_props (obj_delete k ps)"
  by (induction ps) (auto simp: wf_props_def obj_delete_def)

lemma wf_props_Nil [simp]: "wf_props []"
  by (simp add: wf_props_def)

lemma wf_props_foldl_put: "wf_props acc \<Longrightarrow> wf_props (foldl (\<lambda>acc (k, v). obj_put k v acc) acc ps)"
  by (induction ps arbitrary: acc) auto

lemma wf_props_obj_of [simp]: "wf_props (obj_of ps)"
  by (simp add: obj_of_def wf_props_foldl_put)

lemma obj_insert_last:
  "\<forall>k'\<in>fst ` set ps. key_before k' k \<Longrightarrow> obj_insert k v ps = ps @ [(k, v)]"
  by (induction k v ps rule: obj_insert.induct) (auto simp: key_before_def)

lemma obj_put_last:
  "\<forall>k'\<in>fst ` set ps. key_before k' k \<Longrightarrow> k \<notin> fst ` set ps \<Longrightarrow> obj_put k v ps = ps @ [(k, v)]"
  by (simp add: obj_put.simps obj_insert_last)

lemma foldl_obj_put:
  "wf_props (acc @ ps) \<Longrightarrow> foldl (\<lambda>acc (k, v). obj_put k v acc) acc ps = acc @ ps"
proof (induction ps arbitrary: acc)
  case (Cons p ps)
  obtain k v where p: "p = (k, v)" by (cases p)
  have "obj_put k v acc = acc @ [(k, v)]"
    using Cons.prems p by (intro obj_put_last) (auto simp: wf_props_def sorted_wrt_append)
  with Cons.IH [of "acc @ [p]"] Cons.prems p show ?case by simp
qed simp

lemma obj_of_wf: "wf_props ps \<Longrightarrow> obj_of ps = ps"
  using foldl_obj_put [of "[]" ps] by (simp add: obj_of_def)

subsection \<open>\<open>JSON.stringify\<close>\<close>

definition hex_char :: "nat \<Rightarrow> char" where
  "hex_char d = (if d < 10 then char_of (48 + d) else char_of (87 + d))"

text \<open>The escape sequence of one character of a JSON string.\<close>

definition json_escape :: "char \<Rightarrow> string" where
  "json_escape c =
     (if c = CHR 0x22 then [CHR 0x5C, CHR 0x22]
      else if c = CHR 0x5C then [CHR 0x5C, CHR 0x5C]
      else if c = CHR 0x08 then [CHR 0x5C, CHR ''b'']
      else if c = CHR 0x0C then [CHR 0x5C, CHR ''f'']
      else if c = CHR 0x0A then [CHR 0x5C, CHR ''n'']
      else if c = CHR 0x0D then [CHR 0x5C, CHR ''r'']
      else if c = CHR 0x09 then [CHR 0x5C, CHR ''t'']
      else if of_char c < (32::nat) then
        [CHR 0x5C, CHR ''u'', CHR ''0'', CHR ''0'',
         hex_char (of_char c div 16), hex_char (of_char c mod 16)]
      else [c])"

definition json_quote :: "string \<Rightarrow> string" where
  "json_quote s = CHR 0x22 # concat (map json_escape s) @ [CHR 0x22]"

fun json_num :: "jsnum \<Rightarrow> string" where
  "json_num (Fin r) = rat_text r"
| "json_num _ = ''null''"

definition is_undefined :: "jsval \<Rightarrow> bool" where
  "is_undefined v = (case v of JUndefined \<Rightarrow> True | _ \<Rightarrow> False)"

fun json_text :: "jsval \<Rightarrow> string" where
  "json_text JUndefined = ''null''"
| "json_text JNull = ''null''"
| "json_text (JBool b) = (if b then ''true'' else ''false'')"
| "json_text (JNum n) = json_num n"
| "json_text (JStr s) = json_quote s"
| "json_text (JArr vs) = ''['' @ join '','' (map json_text vs) @ '']''"
| "json_text (JObj ps) =
     ''{'' @ join '','' (map (\<lambda>(k, v). json_quote k @ '':'' @ json_text v)
                            (filter (\<lambda>(k, v). \<not> is_undefined v) ps)) @ ''}''"

text \<open>\<open>JSON.stringify(v)\<close>, \<^const>\<open>None\<close> where the result is undefined.\<close>

definition json_stringify :: "jsval \<Rightarrow> string option" where
  "json_stringify v = (if is_undefined v then None else Some (json_text v))"

subsection \<open>\<open>JSON.parse\<close>\<close>

definition json_ws :: "char \<Rightarrow> bool" where
  "json_ws c \<longleftrightarrow> c = CHR 0x20 \<or> c = CHR 0x09 \<or> c = CHR 0x0A \<or> c = CHR 0x0D"

definition skip_ws :: "string \<Rightarrow> string" where
  "skip_ws s = dropWhile json_ws s"

text \<open>UTF-8 encoding of a code point (a lone surrogate gets its generalised three-byte form).\<close>

definition utf8 :: "nat \<Rightarrow> string" where
  "utf8 n =
     (if n < 0x80 then [char_of n]
      else if n < 0x800 then [char_of (0xC0 + n div 64), char_of (0x80 + n mod 64)]
      else if n < 0x10000 then
        [char_of (0xE0 + n div 4096), char_of (0x80 + n div 64 mod 64), char_of (0x80 + n mod 64)]
      else
        [char_of (0xF0 + n div 262144), char_of (0x80 + n div 4096 mod 64),
         char_of (0x80 + n div 64 mod 64), char_of (0x80 + n mod 64)])"

definition simple_escape :: "char \<Rightarrow> char option" where
  "simple_escape c =
     (if c = CHR 0x22 \<or> c = CHR 0x5C \<or> c = CHR ''/'' then Some c
      else if c = CHR ''b'' then Some CHR 0x08
      else if c = CHR ''f'' then Some CHR 0x0C
      else if c = CHR ''n'' then Some CHR 0x0A
      else if c = CHR ''r'' then Some CHR 0x0D
      else if c = CHR ''t'' then Some CHR 0x09
      else None)"

definition hex4 :: "string \<Rightarrow> nat option" where
  "hex4 s = (if length s < 4 then None else radix_value 16 0 (take 4 s))"

text \<open>The code point of a \<open>\u\<close> escape (after the \<open>u\<close>) and the length of the text it takes; a high
  surrogate takes a following low surrogate escape with it.\<close>

definition unicode_escape :: "string \<Rightarrow> (string \<times> nat) option" where
  "unicode_escape s =
     (case hex4 s of None \<Rightarrow> None
      | Some n \<Rightarrow>
          if 0xD800 \<le> n \<and> n < 0xDC00 \<and> take 2 (drop 4 s) = [CHR 0x5C, CHR ''u''] then
            (case hex4 (drop 6 s) of
               Some m \<Rightarrow>
                 if 0xDC00 \<le> m \<and> m < 0xE000
                 then Some (utf8 (0x10000 + (n - 0xD800) * 1024 + (m - 0xDC00)), 10)
                 else Some (utf8 n, 4)
             | None \<Rightarrow> Some (utf8 n, 4))
          else Some (utf8 n, 4))"

text \<open>The rest of a string literal after its opening quote.\<close>

function p_string :: "string \<Rightarrow> (string \<times> string) option" where
  "p_string [] = None"
| "p_string (c # s) =
     (if c = CHR 0x22 then Some ([], s)
      else if c = CHR 0x5C then
        (case s of [] \<Rightarrow> None
         | e # t \<Rightarrow>
             if e = CHR ''u'' then
               (case unicode_escape t of None \<Rightarrow> None
                | Some (u, n) \<Rightarrow> map_option (\<lambda>(x, r). (u @ x, r)) (p_string (drop n t)))
             else
               (case simple_escape e of None \<Rightarrow> None
                | Some d \<Rightarrow> map_option (\<lambda>(x, r). (d # x, r)) (p_string t)))
      else if of_char c < (32::nat) then None
      else map_option (\<lambda>(x, r). (c # x, r)) (p_string s))"
  by pat_completeness auto
termination by (relation "measure length") auto

text \<open>A value that contains no other: a string, a literal name or a number.\<close>

definition p_atom :: "string \<Rightarrow> (jsval \<times> string) option" where
  "p_atom s =
     (if prefix [CHR 0x22] s then map_option (\<lambda>(x, r). (JStr x, r)) (p_string (drop 1 s))
      else if prefix ''true'' s then Some (JBool True, drop 4 s)
      else if prefix ''false'' s then Some (JBool False, drop 5 s)
      else if prefix ''null'' s then Some (JNull, drop 4 s)
      else map_option (\<lambda>(q, r). (JNum (Fin q), r)) (json_number s))"

fun p_value :: "nat \<Rightarrow> string \<Rightarrow> (jsval \<times> string) option"
  and p_elems :: "nat \<Rightarrow> string \<Rightarrow> (jsval list \<times> string) option"
  and p_members :: "nat \<Rightarrow> string \<Rightarrow> (props \<times> string) option"
where
  "p_value 0 s = None"
| "p_value (Suc n) s =
     (case skip_ws s of [] \<Rightarrow> None
      | c # t \<Rightarrow>
          if c = CHR ''['' then
            (if skip_ws t \<noteq> [] \<and> hd (skip_ws t) = CHR '']'' then Some (JArr [], tl (skip_ws t))
             else map_option (\<lambda>(vs, r). (JArr vs, r)) (p_elems n t))
          else if c = CHR ''{'' then
            (if skip_ws t \<noteq> [] \<and> hd (skip_ws t) = CHR ''}'' then Some (JObj [], tl (skip_ws t))
             else map_option (\<lambda>(ps, r). (JObj (obj_of ps), r)) (p_members n t))
          else p_atom (c # t))"
| "p_elems 0 s = None"
| "p_elems (Suc n) s =
     (case p_value n s of None \<Rightarrow> None
      | Some (v, r) \<Rightarrow>
          (case skip_ws r of [] \<Rightarrow> None
           | c # t \<Rightarrow>
               if c = CHR '','' then map_option (\<lambda>(vs, u). (v # vs, u)) (p_elems n t)
               else if c = CHR '']'' then Some ([v], t)
               else None))"
| "p_members 0 s = None"
| "p_members (Suc n) s =
     (case skip_ws s of [] \<Rightarrow> None
      | q # s' \<Rightarrow>
          if q \<noteq> CHR 0x22 then None
          else (case p_string s' of None \<Rightarrow> None
            | Some (k, r) \<Rightarrow>
                (case skip_ws r of [] \<Rightarrow> None
                 | c # t \<Rightarrow>
                     if c \<noteq> CHR '':'' then None
                     else (case p_value n t of None \<Rightarrow> None
                       | Some (v, u) \<Rightarrow>
                           (case skip_ws u of [] \<Rightarrow> None
                            | d # w \<Rightarrow>
                                if d = CHR '','' then map_option (\<lambda>(ps, x). ((k, v) # ps, x)) (p_members n w)
                                else if d = CHR ''}'' then Some ([(k, v)], w)
                                else None)))))"

definition json_parse :: "string \<Rightarrow> jsval option" where
  "json_parse s =
     (case p_value (length s + 1) s of None \<Rightarrow> None
      | Some (v, r) \<Rightarrow> if skip_ws r = [] then Some v else None)"

text \<open>\<open>JSON.parse\<close> of a text that must hold a plain object: \<^const>\<open>None\<close> where it throws or where
  the value is null, a primitive or an array.\<close>

definition json_object :: "string \<Rightarrow> props option" where
  "json_object s = (case json_parse s of Some (JObj ps) \<Rightarrow> Some ps | _ \<Rightarrow> None)"

text \<open>\<open>String(v)\<close> and \<open>`${v}`\<close>; \<^const>\<open>None\<close> is the \<open>TypeError\<close> of an object whose own
  \<open>toString\<close> property hides the inherited function (no parsed value is callable).\<close>

fun js_string :: "jsval \<Rightarrow> string option" where
  "js_string JUndefined = Some ''undefined''"
| "js_string JNull = Some ''null''"
| "js_string (JBool b) = Some (if b then ''true'' else ''false'')"
| "js_string (JNum n) = Some (num_text n)"
| "js_string (JStr s) = Some s"
| "js_string (JArr vs) =
     map_option (join '','')
       (those (map (\<lambda>v. if v = JUndefined \<or> v = JNull then Some [] else js_string v) vs))"
| "js_string (JObj ps) =
     (if ''toString'' \<in> fst ` set ps then None else Some ''[object Object]'')"

text \<open>\<open>Number(v)\<close>.\<close>

fun js_Number :: "jsval \<Rightarrow> jsnum option" where
  "js_Number JUndefined = Some NaN"
| "js_Number JNull = Some (Fin 0)"
| "js_Number (JBool b) = Some (Fin (if b then 1 else 0))"
| "js_Number (JNum n) = Some n"
| "js_Number (JStr s) = Some (number_of_string s)"
| "js_Number v = map_option number_of_string (js_string v)"

subsection \<open>Fuel\<close>

lemma skip_ws_length: "length (skip_ws s) \<le> length s"
  by (simp add: skip_ws_def length_dropWhile_le)

lemma p_string_shorter: "p_string s = Some (x, r) \<Longrightarrow> length r < length s"
proof (induction s arbitrary: x r rule: p_string.induct)
  case (2 c s)
  then show ?case
    by (fastforce split: if_splits list.splits option.splits prod.splits)
qed simp

lemma scan_shorter:
  "scan_frac s = Some (f, t) \<Longrightarrow> length t \<le> length s"
  "scan_exp s = Some (e, t) \<Longrightarrow> length t \<le> length s"
  by (auto simp: scan_frac_def scan_exp_def Let_def length_dropWhile_le
        split: if_splits list.splits)
     (meson length_dropWhile_le le_SucI le_trans)+

lemma json_number_shorter: "json_number s = Some (q, r) \<Longrightarrow> length r < length s"
proof -
  assume a: "json_number s = Some (q, r)"
  obtain sg u where u: "scan_sign s = (sg, u)" by fastforce
  have "length u \<le> length s" using u by (auto simp: scan_sign_def split: list.splits if_splits)
  moreover from a u obtain f v e where
    "takeWhile is_digit u \<noteq> []" "scan_frac (dropWhile is_digit u) = Some (f, v)" "scan_exp v = Some (e, r)"
    by (auto simp: json_number_def Let_def split: if_splits option.splits prod.splits)
  moreover from this(1) have "length (dropWhile is_digit u) < length u"
    by (cases u) (auto simp: less_Suc_eq_le length_dropWhile_le split: if_splits)
  ultimately show ?thesis using scan_shorter by fastforce
qed

lemma p_atom_shorter: "p_atom s = Some (v, r) \<Longrightarrow> length r < length s"
  unfolding p_atom_def
  by (auto split: if_split_asm simp del: prefix_code
      dest!: p_string_shorter json_number_shorter prefix_length_le)

text \<open>What a run with some fuel accepts, every run accepts whose fuel is at least the length of the
  text that is consumed, with the same value; the fuel of \<^const>\<open>json_parse\<close> is always enough.\<close>

definition enough :: "(nat \<Rightarrow> string \<Rightarrow> ('a \<times> string) option) \<Rightarrow> string \<Rightarrow> 'a \<Rightarrow> string \<Rightarrow> bool" where
  "enough f s v r \<longleftrightarrow> length r < length s \<and> (\<forall>n \<ge> length s - length r. f n s = Some (v, r))"

lemma enough_D: "enough f s v r \<Longrightarrow> length s - length r \<le> n \<Longrightarrow> f n s = Some (v, r)"
  by (simp add: enough_def)

lemma enough_I:
  assumes "length r < length s" "\<And>n. length s - length r \<le> Suc n \<Longrightarrow> f (Suc n) s = Some (v, r)"
  shows "enough f s v r"
  unfolding enough_def
proof (intro conjI allI impI)
  fix n assume "n \<ge> length s - length r"
  then show "f n s = Some (v, r)" using assms by (cases n) auto
qed (rule assms)

lemma skip_ws_Cons: "skip_ws s = c # t \<Longrightarrow> length t < length s"
  using skip_ws_length [of s] by simp

lemma p_elems_enough:
  assumes "enough p_value s v r" "skip_ws r = c # t"
    "c = CHR '','' \<and> enough p_elems t vs u \<or> c = CHR '']'' \<and> vs = [] \<and> u = t"
  shows "enough p_elems s (v # vs) u"
proof (rule enough_I)
  note len = skip_ws_Cons [OF assms(2)]
  have lens: "length u \<le> length t" "length r < length s" using assms by (auto simp: enough_def)
  then show "length u < length s" using len by simp
  fix n assume n: "length s - length u \<le> Suc n"
  with lens len have "p_value n s = Some (v, r)" by (intro enough_D [OF assms(1)]) auto
  moreover have "p_elems n t = Some (vs, u)" if "enough p_elems t vs u"
    using n lens len by (intro enough_D [OF that]) auto
  ultimately show "p_elems (Suc n) s = Some (v # vs, u)" using assms(2, 3) by auto
qed

lemma p_members_enough:
  assumes "skip_ws s = CHR 0x22 # s'" "p_string s' = Some (k, r)" "skip_ws r = CHR '':'' # t"
    "enough p_value t v u" "skip_ws u = d # w"
    "d = CHR '','' \<and> enough p_members w ps x \<or> d = CHR ''}'' \<and> ps = [] \<and> x = w"
  shows "enough p_members s ((k, v) # ps) x"
proof (rule enough_I)
  note len = skip_ws_Cons [OF assms(1)] p_string_shorter [OF assms(2)] skip_ws_Cons [OF assms(3)]
    skip_ws_Cons [OF assms(5)]
  have lens: "length x \<le> length w" "length u < length t" using assms by (auto simp: enough_def)
  then show "length x < length s" using len by simp
  fix n assume n: "length s - length x \<le> Suc n"
  with lens len have "p_value n t = Some (v, u)" by (intro enough_D [OF assms(4)]) auto
  moreover have "p_members n w = Some (ps, x)" if "enough p_members w ps x"
    using n lens len by (intro enough_D [OF that]) auto
  ultimately show "p_members (Suc n) s = Some ((k, v) # ps, x)" using assms by auto
qed

lemma p_fuel:
  "p_value m s = Some (v, r) \<Longrightarrow> enough p_value s v r"
  "p_elems m s = Some (vs, r) \<Longrightarrow> enough p_elems s vs r"
  "p_members m s = Some (ps, r) \<Longrightarrow> enough p_members s ps r"
proof (induction m s and m s and m s arbitrary: v r and vs r and ps r
    rule: p_value_p_elems_p_members.induct)
  case (2 n s)
  then obtain c t where ct: "skip_ws s = c # t" by (auto split: list.splits)
  note len = skip_ws_Cons [OF ct] skip_ws_length [of t]
  consider (arr) "c = CHR ''[''" "\<not> (skip_ws t \<noteq> [] \<and> hd (skip_ws t) = CHR '']'')"
    | (obj) "c = CHR ''{''" "\<not> (skip_ws t \<noteq> [] \<and> hd (skip_ws t) = CHR ''}'')"
    | (flat) "c = CHR ''['' \<longrightarrow> skip_ws t \<noteq> [] \<and> hd (skip_ws t) = CHR '']''"
      "c = CHR ''{'' \<longrightarrow> skip_ws t \<noteq> [] \<and> hd (skip_ws t) = CHR ''}''"
    by blast
  then show ?case
  proof cases
    case arr
    then obtain vs' where vs': "v = JArr vs'" "p_elems n t = Some (vs', r)"
      using 2(3) ct by auto
    have "enough p_elems t vs' r" using 2(1) ct arr vs' by auto
    then show ?thesis using arr ct vs' len by (intro enough_I) (auto simp: enough_def)
  next
    case obj
    then obtain ps' where ps': "v = JObj (obj_of ps')" "p_members n t = Some (ps', r)"
      using 2(3) ct by auto
    have "enough p_members t ps' r" using 2(2) ct obj ps' by auto
    then show ?thesis using obj ct ps' len by (intro enough_I) (auto simp: enough_def)
  next
    case flat
    then have "p_value (Suc n') s = Some (v, r)" for n' using 2(3) ct by (auto split: if_splits)
    moreover have "length r < length s"
      using 2(3) flat ct len
      by (auto split: if_splits dest!: p_atom_shorter)
    ultimately show ?thesis by (intro enough_I)
  qed
next
  case (4 n s)
  then obtain v q c t where v: "p_value n s = Some (v, q)" "skip_ws q = c # t"
    by (auto split: option.splits list.splits)
  obtain vs' where "vs = v # vs'" "c = CHR '','' \<and> p_elems n t = Some (vs', r) \<or> c = CHR '']'' \<and> vs' = [] \<and> r = t"
    using 4(3) v by (auto split: if_splits)
  moreover have "enough p_value s v q" using 4(1) v by blast
  ultimately show ?case using 4(2) v p_elems_enough [of s v q c t vs' r] by auto
next
  case (6 n s)
  then obtain s' k q t v u d w where kv: "skip_ws s = CHR 0x22 # s'" "p_string s' = Some (k, q)"
    "skip_ws q = CHR '':'' # t" "p_value n t = Some (v, u)" "skip_ws u = d # w"
    by (auto split: option.splits list.splits if_splits)
  obtain ps' where "ps = (k, v) # ps'"
    "d = CHR '','' \<and> p_members n w = Some (ps', r) \<or> d = CHR ''}'' \<and> ps' = [] \<and> r = w"
    using 6(3) kv by (auto split: if_splits)
  moreover have "enough p_value t v u" using 6(1) kv by auto
  ultimately show ?case using 6(2) kv p_members_enough [of s s' k q t v u d w ps' r] by auto
qed auto

lemma json_parse_iff:
  "json_parse s = Some v \<longleftrightarrow> (\<exists>n r. p_value n s = Some (v, r) \<and> skip_ws r = [])"
proof
  assume "\<exists>n r. p_value n s = Some (v, r) \<and> skip_ws r = []"
  then obtain n r where r: "p_value n s = Some (v, r)" "skip_ws r = []" by blast
  have "p_value (length s + 1) s = Some (v, r)" by (rule enough_D [OF p_fuel(1) [OF r(1)]]) simp
  with r(2) show "json_parse s = Some v" by (simp add: json_parse_def del: p_value.simps)
next
  assume "json_parse s = Some v"
  then have "\<exists>r. p_value (length s + 1) s = Some (v, r) \<and> skip_ws r = []"
    by (auto simp: json_parse_def simp del: p_value.simps split: option.splits if_splits)
  then show "\<exists>n r. p_value n s = Some (v, r) \<and> skip_ws r = []" by blast
qed

subsection \<open>Round trip\<close>

text \<open>The values that JSON text can carry: no undefined, finite decimal numbers, objects with
  distinct keys in enumeration order.\<close>

fun wf_json :: "jsval \<Rightarrow> bool" where
  "wf_json JUndefined = False"
| "wf_json (JNum n) = (case n of Fin r \<Rightarrow> dec_rat r | _ \<Rightarrow> False)"
| "wf_json (JArr vs) = list_all wf_json vs"
| "wf_json (JObj ps) = (wf_props ps \<and> list_all (\<lambda>(k, v). wf_json v) ps)"
| "wf_json _ = True"

lemma hex4_control:
  assumes "n < 32"
  shows "hex4 (CHR ''0'' # CHR ''0'' # hex_char (n div 16) # hex_char (n mod 16) # t) = Some n"
proof -
  have "\<forall>n\<in>set [0..<32]. radix_value 16 0
      [CHR ''0'', CHR ''0'', hex_char (n div 16), hex_char (n mod 16)] = Some n"
    by code_simp
  then show ?thesis using assms by (simp add: hex4_def del: radix_value.simps)
qed

lemma p_string_escape: "p_string (json_escape c @ s) = map_option (\<lambda>(x, r). (c # x, r)) (p_string s)"
proof (cases "(of_char c :: nat) < 32")
  case True
  then have "p_string (CHR 0x5C # CHR ''u'' # CHR ''0'' # CHR ''0'' # hex_char (of_char c div 16)
      # hex_char (of_char c mod 16) # s) = map_option (\<lambda>(x, r). (c # x, r)) (p_string s)"
    by (simp add: unicode_escape_def hex4_control utf8_def)
  with True show ?thesis by (simp add: json_escape_def simple_escape_def)
next
  case False
  then show ?thesis by (auto simp: json_escape_def simple_escape_def)
qed

lemma p_string_quote: "p_string (concat (map json_escape s) @ CHR 0x22 # r) = Some (s, r)"
  by (induction s) (simp_all add: p_string_escape)

lemma skip_ws_id: "s = [] \<or> \<not> json_ws (hd s) \<Longrightarrow> skip_ws s = s"
  by (cases s) (auto simp: skip_ws_def)

lemma skip_ws_append: "u \<noteq> [] \<Longrightarrow> \<not> json_ws (hd u) \<Longrightarrow> skip_ws (u @ t) = u @ t"
  by (cases u) (auto simp: skip_ws_def)

lemma skip_ws_open: "skip_ws (CHR ''['' # s) = CHR ''['' # s" "skip_ws (CHR ''{'' # s) = CHR ''{'' # s"
  by (simp_all add: skip_ws_def json_ws_def)

lemma p_atom_text:
  assumes "wf_json v" "number_ends s" "\<And>vs. v \<noteq> JArr vs" "\<And>ps. v \<noteq> JObj ps"
  shows "p_atom (json_text v @ s) = Some (v, s)"
proof (cases v)
  case (JNum n)
  then obtain q where q: "n = Fin q" "dec_rat q" using assms(1) by (cases n) auto
  obtain c t where ct: "rat_text q = c # t" "is_digit c \<or> c = CHR ''-''"
    using rat_text_hd [OF q(2)] by (cases "rat_text q") auto
  then have "c \<noteq> CHR 0x22" "c \<noteq> CHR ''t''" "c \<noteq> CHR ''f''" "c \<noteq> CHR ''n''"
    by (auto simp: is_digit_def)
  with ct JNum q json_number_rat_text [OF q(2) assms(2)] show ?thesis by (simp add: p_atom_def)
qed (use assms in \<open>auto simp: p_atom_def json_quote_def p_string_quote\<close>)

lemma json_text_hd:
  assumes "wf_json v"
  shows "json_text v \<noteq> []" "\<not> json_ws (hd (json_text v))"
    "hd (json_text v) = CHR ''['' \<Longrightarrow> \<exists>vs. v = JArr vs" "hd (json_text v) = CHR ''{'' \<Longrightarrow> \<exists>ps. v = JObj ps"
    "hd (json_text v) \<noteq> CHR '']''"
proof -
  have "json_text v \<noteq> [] \<and> \<not> json_ws (hd (json_text v)) \<and>
    (hd (json_text v) = CHR ''['' \<longrightarrow> (\<exists>vs. v = JArr vs)) \<and>
    (hd (json_text v) = CHR ''{'' \<longrightarrow> (\<exists>ps. v = JObj ps)) \<and> hd (json_text v) \<noteq> CHR '']''"
  proof (cases v)
    case (JNum n)
    then obtain q where "n = Fin q" "dec_rat q" using assms by (cases n) auto
    then show ?thesis using JNum rat_text_hd [of q] by (auto simp: json_ws_def is_digit_def)
  qed (use assms in \<open>auto simp: json_ws_def json_quote_def\<close>)
  then show "json_text v \<noteq> []" "\<not> json_ws (hd (json_text v))"
    "hd (json_text v) = CHR ''['' \<Longrightarrow> \<exists>vs. v = JArr vs" "hd (json_text v) = CHR ''{'' \<Longrightarrow> \<exists>ps. v = JObj ps"
    "hd (json_text v) \<noteq> CHR '']''"
    by blast+
qed

text \<open>The text of a value is read back in front of every text that cannot continue a number.\<close>

definition reads_back :: "jsval \<Rightarrow> bool" where
  "reads_back v \<longleftrightarrow> (\<forall>s. number_ends s \<longrightarrow> enough p_value (json_text v @ s) v s)"

lemma reads_back_atom:
  assumes "wf_json v" "\<And>vs. v \<noteq> JArr vs" "\<And>ps. v \<noteq> JObj ps"
  shows "reads_back v"
  unfolding reads_back_def
proof (intro allI impI enough_I)
  fix s n
  assume "number_ends s"
  note atom = p_atom_text [OF assms(1) this assms(2,3)]
  show "length s < length (json_text v @ s)" using json_text_hd(1) [OF assms(1)] by simp
  obtain c t where "json_text v = c # t" "c \<noteq> CHR ''[''" "c \<noteq> CHR ''{''" "\<not> json_ws c"
    using json_text_hd [OF assms(1)] assms(2,3) by (cases "json_text v") auto
  then show "p_value (Suc n) (json_text v @ s) = Some (v, s)"
    using atom by (simp add: skip_ws_def)
qed

lemma number_ends_sep [simp]:
  "number_ends (CHR '','' # s)" "number_ends (CHR '']'' # s)" "number_ends (CHR ''}'' # s)" "number_ends []"
  by (auto simp: number_ends_def is_digit_def)

lemma skip_ws_sep [simp]:
  "skip_ws (CHR '','' # s) = CHR '','' # s" "skip_ws (CHR '']'' # s) = CHR '']'' # s"
  "skip_ws (CHR ''}'' # s) = CHR ''}'' # s" "skip_ws (CHR '':'' # s) = CHR '':'' # s"
  "skip_ws (CHR 0x22 # s) = CHR 0x22 # s" "skip_ws [] = []"
  by (simp_all add: skip_ws_def json_ws_def)

lemma p_elems_text:
  assumes "vs \<noteq> []" "\<forall>v\<in>set vs. reads_back v"
  shows "enough p_elems (join '','' (map json_text vs) @ CHR '']'' # s) vs s"
  using assms
proof (induction vs)
  case (Cons v vs)
  then have v: "enough p_value (json_text v @ u) v u" if "number_ends u" for u
    using that by (simp add: reads_back_def)
  show ?case
  proof (cases "vs = []")
    case True
    then show ?thesis using p_elems_enough [OF v [of "CHR '']'' # s"]] by simp
  next
    case False
    with Cons show ?thesis
      using p_elems_enough [OF v [of "CHR '','' # join '','' (map json_text vs) @ CHR '']'' # s"]]
      by (simp add: join_Cons)
  qed
qed simp

definition member_text :: "string \<times> jsval \<Rightarrow> string" where
  "member_text = (\<lambda>(k, v). json_quote k @ '':'' @ json_text v)"

lemma p_members_text:
  assumes "ps \<noteq> []" "\<forall>(k, v)\<in>set ps. reads_back v"
  shows "enough p_members (join '','' (map member_text ps) @ CHR ''}'' # s) ps s"
  using assms
proof (induction ps)
  case (Cons p ps)
  obtain k v where p: "p = (k, v)" by (cases p)
  have v: "enough p_value (json_text v @ u) v u" if "number_ends u" for u
    using that Cons.prems p by (simp add: reads_back_def)
  have quote: "skip_ws (member_text p @ u) = CHR 0x22 # concat (map json_escape k) @ CHR 0x22 # CHR '':'' # json_text v @ u" for u
    by (simp add: member_text_def p json_quote_def)
  show ?case
  proof (cases "ps = []")
    case True
    then show ?thesis
      using p_members_enough [OF quote p_string_quote skip_ws_sep(4) v [of "CHR ''}'' # s"]] p by simp
  next
    case False
    with Cons show ?thesis
      using p_members_enough [OF quote p_string_quote skip_ws_sep(4)
          v [of "CHR '','' # join '','' (map member_text ps) @ CHR ''}'' # s"]] p
      by (simp add: join_Cons)
  qed
qed simp

lemma p_value_text: "wf_json v \<Longrightarrow> reads_back v"
proof (induction v)
  case (JArr vs)
  then have vs: "\<forall>v\<in>set vs. reads_back v" by (auto simp: list_all_iff)
  have hd: "join '','' (map json_text vs) \<noteq> []"
    "\<not> json_ws (hd (join '','' (map json_text vs)))" "hd (join '','' (map json_text vs)) \<noteq> CHR '']''"
    if "vs \<noteq> []"
    using that JArr.prems json_text_hd [of "hd vs"]
    by (cases vs; cases "tl vs"; auto simp: list_all_iff)+
  have "enough p_value (json_text (JArr vs) @ s) (JArr vs) s" for s
  proof (cases "vs = []")
    case True
    then show ?thesis by (intro enough_I) (auto simp: skip_ws_def json_ws_def)
  next
    case False
    then show ?thesis
      using p_elems_text [OF False vs, of s] hd
      by (intro enough_I) (auto simp: skip_ws_open skip_ws_append enough_def)
  qed
  then show ?case by (simp add: reads_back_def)
next
  case (JObj ps)
  then have ps: "\<forall>(k, v)\<in>set ps. reads_back v" "wf_props ps"
    "filter (\<lambda>(k, v). \<not> is_undefined v) ps = ps"
    by (fastforce simp: list_all_iff filter_id_conv is_undefined_def split: jsval.splits)+
  then have shape: "json_text (JObj ps) = ''{'' @ join '','' (map member_text ps) @ ''}''"
    by (simp add: member_text_def)
  have hd: "join '','' (map member_text ps) \<noteq> []" "hd (join '','' (map member_text ps)) = CHR 0x22"
    if "ps \<noteq> []"
    using that by (cases ps; cases "tl ps"; auto simp: member_text_def json_quote_def)+
  have "enough p_value (json_text (JObj ps) @ s) (JObj ps) s" for s
  proof (cases "ps = []")
    case True
    then show ?thesis by (intro enough_I) (auto simp: skip_ws_def json_ws_def)
  next
    case False
    then show ?thesis
      using p_members_text [OF False ps(1), of s] hd ps(2) unfolding shape
      by (intro enough_I) (auto simp: skip_ws_open skip_ws_append json_ws_def enough_def obj_of_wf)
  qed
  then show ?case by (simp add: reads_back_def)
qed (auto intro: reads_back_atom)

theorem json_parse_text: "wf_json v \<Longrightarrow> json_parse (json_text v) = Some v"
proof -
  assume "wf_json v"
  then have "enough p_value (json_text v @ []) v []"
    using p_value_text by (simp only: reads_back_def number_ends_sep simp_thms)
  then have "p_value (length (json_text v)) (json_text v) = Some (v, [])"
    by (auto dest: enough_D)
  then show ?thesis unfolding json_parse_iff using skip_ws_sep(6) by blast
qed

lemma json_stringify_wf: "wf_json v \<Longrightarrow> json_stringify v = Some (json_text v)"
  by (cases v) (auto simp: json_stringify_def is_undefined_def)

subsection \<open>Well-formed objects under updates\<close>

definition wf_obj :: "props \<Rightarrow> bool" where
  "wf_obj ps \<longleftrightarrow> wf_json (JObj ps)"

lemma values_obj_insert: "list_all P (obj_insert k v ps) \<longleftrightarrow> P (k, v) \<and> list_all P ps"
  by (induction k v ps rule: obj_insert.induct) auto

lemma wf_obj_put [simp]: "wf_obj ps \<Longrightarrow> wf_json v \<Longrightarrow> wf_obj (obj_put k v ps)"
proof -
  assume a: "wf_obj ps" "wf_json v"
  have "list_all (\<lambda>(k, v). wf_json v) (obj_put k v ps)"
  proof (cases "k \<in> fst ` set ps")
    case True
    with a show ?thesis
      by (auto simp: obj_put.simps wf_obj_def list_all_iff split: prod.splits if_splits)
  next
    case False
    with a show ?thesis by (simp add: obj_put.simps wf_obj_def values_obj_insert)
  qed
  with a show ?thesis by (simp add: wf_obj_def)
qed

lemma wf_obj_delete [simp]: "wf_obj ps \<Longrightarrow> wf_obj (obj_delete k ps)"
  by (simp add: wf_obj_def) (auto simp: obj_delete_def list_all_iff)

lemma wf_obj_parse: "wf_obj ps \<Longrightarrow> json_parse (json_text (JObj ps)) = Some (JObj ps)"
  unfolding wf_obj_def by (rule json_parse_text)

lemma wf_obj_Nil [simp]: "wf_obj []"
  by (simp add: wf_obj_def)

lemma wf_json_int_val [simp]: "wf_json (int_val i)"
  by (simp add: int_val_def)

lemma js_string_texts: "js_string (JArr (map JStr xs)) = Some (join '','' xs)"
proof -
  have "map (\<lambda>v. if v = JUndefined \<or> v = JNull then Some [] else js_string v) (map JStr xs)
    = map (\<lambda>x. Some x) xs" by simp
  then show ?thesis using those_map_Some [of "\<lambda>x. x" xs] by (simp del: map_map)
qed

text \<open>Writing what is there, and deleting what is not, change nothing.\<close>

lemma obj_put_same: "wf_obj ps \<Longrightarrow> obj_get ps k = v \<Longrightarrow> v \<noteq> JUndefined \<Longrightarrow> obj_put k v ps = ps"
proof -
  assume a: "wf_obj ps" "obj_get ps k = v" "v \<noteq> JUndefined"
  then have m: "map_of ps k = Some v" by (simp add: obj_get_def split: option.splits)
  then have "k \<in> fst ` set ps" by (auto dest!: map_of_SomeD simp: image_iff) force
  moreover have "(\<lambda>(k', v'). if k' = k then (k, v) else (k', v')) p = p" if "p \<in> set ps" for p
  proof -
    obtain k' v' where p: "p = (k', v')" by fastforce
    with that a(1) have "map_of ps k' = Some v'" by (simp add: wf_obj_def wf_props_def)
    with p m show ?thesis by auto
  qed
  ultimately show ?thesis by (simp add: obj_put.simps map_idI)
qed

lemma obj_delete_absent: "wf_obj ps \<Longrightarrow> obj_get ps k = JUndefined \<Longrightarrow> obj_delete k ps = ps"
proof -
  assume a: "wf_obj ps" "obj_get ps k = JUndefined"
  have "k' \<noteq> k" if "(k', v) \<in> set ps" for k' v
  proof
    assume "k' = k"
    with a(1) that have "map_of ps k = Some v" by (auto simp: wf_obj_def wf_props_def)
    moreover have "wf_json v" using a(1) that by (auto simp: wf_obj_def list_all_iff)
    ultimately show False using a(2) by (auto simp: obj_get_def)
  qed
  then show ?thesis by (auto simp: obj_delete_def intro!: filter_True)
qed

end
