(* ===== verification/Channel_Types.thy ===== *)
theory Channel_Types
  imports Js_Json
begin

section \<open>Channel types\<close>

text \<open>
  The tables of channel types and statuses (\<open>features/channels/constants.ts\<close>,
  \<open>lib/channel-type-config.ts\<close>, \<open>lib/multi-key-utils.ts\<close> and the lookups at the top of
  \<open>lib/channel-utils.ts\<close>).  A table indexed by a number is an association list in the order
  the language enumerates it; a missing entry is undefined, for which every lookup has a default.
\<close>

definition CHANNEL_TYPES :: "(int \<times> string) list" where
  "CHANNEL_TYPES =
     [(0, ''Unknown''), (1, ''OpenAI''), (2, ''Midjourney''),
      (3, ''Azure''), (4, ''Ollama''), (5, ''MidjourneyPlus''),
      (6, ''OpenAIMax''), (7, ''OhMyGPT''), (8, ''Custom''),
      (9, ''AILS''), (10, ''AI Proxy''), (11, ''PaLM''),
      (12, ''API2GPT''), (13, ''AIGC2D''), (14, ''Anthropic''),
      (15, ''Baidu''), (16, ''Zhipu''), (17, ''Ali''),
      (18, ''Xunfei''), (19, ''360''), (20, ''OpenRouter''),
      (21, ''AI Proxy Library''), (22, ''FastGPT''), (23, ''Tencent''),
      (24, ''Gemini''), (25, ''Moonshot''), (26, ''Zhipu V4''),
      (27, ''Perplexity''), (31, ''LingYiWanWu''), (33, ''AWS''),
      (34, ''Cohere''), (35, ''MiniMax''), (36, ''SunoAPI''),
      (37, ''Dify''), (38, ''Jina''), (39, ''Cloudflare''),
      (40, ''SiliconFlow''), (41, ''Vertex AI''), (42, ''Mistral''),
      (43, ''DeepSeek''), (44, ''MokaAI''), (45, ''VolcEngine''),
      (46, ''Baidu V2''), (47, ''Xinference''), (48, ''xAI''),
      (49, ''Coze''), (50, ''Kling''), (51, ''Jimeng''),
      (52, ''Vidu''), (53, ''Submodel''), (54, ''DoubaoVideo''),
      (55, ''Sora''), (56, ''Replicate''), (57, ''Codex'')]"

definition CHANNEL_TYPE_DISPLAY_ORDER :: "int list" where
  "CHANNEL_TYPE_DISPLAY_ORDER =
     [1, 14, 33, 24, 43, 3, 41, 48, 42, 34, 20, 4, 40, 27, 25, 17, 26, 15, 46, 23,
      18, 45, 31, 35, 49, 19, 47, 37, 38, 39, 11, 8, 57, 22, 21, 44, 2, 5, 36, 50,
      51, 52, 53, 54, 55, 56]"

text \<open>The two loops that build the options: the listed types first, then the others.\<close>

definition ordered_options :: "(int \<times> string) list" where
  "ordered_options =
     List.map_filter (\<lambda>i. case map_of CHANNEL_TYPES i of
         Some label \<Rightarrow> if label \<noteq> [] then Some (i, label) else None | None \<Rightarrow> None)
       CHANNEL_TYPE_DISPLAY_ORDER"

definition CHANNEL_TYPE_OPTIONS :: "(int \<times> string) list" where
  "CHANNEL_TYPE_OPTIONS =
     ordered_options
     @ filter (\<lambda>(i, label). i \<noteq> 0 \<and> i \<notin> fst ` set ordered_options) CHANNEL_TYPES"

definition getChannelTypeLabel :: "int \<Rightarrow> string" where
  "getChannelTypeLabel t =
     (case map_of CHANNEL_TYPES t of Some l \<Rightarrow> if l \<noteq> [] then l else ''Unknown'' | None \<Rightarrow> ''Unknown'')"

definition TYPE_TO_ICON :: "(int \<times> string) list" where
  "TYPE_TO_ICON =
     [(1, ''OpenAI''), (6, ''OpenAI''), (7, ''OpenAI''), (8, ''OpenAI''),
      (3, ''Azure''), (14, ''Claude''), (24, ''Gemini''), (11, ''Google''),
      (41, ''Gemini''), (33, ''Aws''), (39, ''Cloudflare''), (15, ''Baidu''),
      (46, ''Baidu''), (16, ''Zhipu''), (26, ''Zhipu''), (17, ''Qwen''),
      (18, ''Spark''), (23, ''Hunyuan''), (19, ''Ai360''), (25, ''Moonshot''),
      (31, ''Yi''), (35, ''Minimax''), (45, ''Volcengine''), (4, ''Ollama''),
      (27, ''Perplexity''), (34, ''Cohere''), (42, ''Mistral''), (43, ''DeepSeek''),
      (48, ''XAI''), (49, ''Coze''), (40, ''SiliconCloud''), (44, ''OpenAI''),
      (20, ''OpenRouter''), (2, ''Midjourney''), (5, ''Midjourney''), (50, ''Kling''),
      (51, ''Jimeng''), (52, ''Vidu''), (36, ''Suno''), (55, ''OpenAI''),
      (54, ''Doubao''), (56, ''Replicate''), (37, ''Dify''), (38, ''Jina''),
      (22, ''FastGPT''), (47, ''Xinference''), (53, ''OpenAI''), (10, ''OpenAI''),
      (21, ''OpenAI''), (12, ''OpenAI''), (13, ''OpenAI''), (9, ''OpenAI'')]"

definition getChannelTypeIcon :: "int \<Rightarrow> string" where
  "getChannelTypeIcon t = (case map_of TYPE_TO_ICON t of Some i \<Rightarrow> i | None \<Rightarrow> ''OpenAI'')"

definition TYPE_TO_KEY_PROMPT :: "(int \<times> string) list" where
  "TYPE_TO_KEY_PROMPT =
     [(15, ''Format: APIKey|SecretKey''),
      (18, ''Format: APPID|APISecret|APIKey''),
      (22, ''Format: APIKey-AppId, e.g., fastgpt-0sp2gtvfdgyi4k30jwlgwf1i-64f335d84283f05518e9e041''),
      (23, ''Format: AppId|SecretId|SecretKey''),
      (33, ''Format: Ak|Sk|Region''),
      (50, ''Format: AccessKey|SecretKey (or just ApiKey if upstream is New API)''),
      (51, ''Format: Access Key ID|Secret Access Key''),
      (57, ''Paste Codex OAuth JSON credential (access_token / refresh_token / account_id)'')]"

definition getKeyPromptForType :: "int \<Rightarrow> string" where
  "getKeyPromptForType t =
     (case map_of TYPE_TO_KEY_PROMPT t of Some p \<Rightarrow> p | None \<Rightarrow> ''Enter API key for this channel'')"

subsection \<open>Status badges\<close>

datatype variant = Success | Neutral | Danger | Warning | Info

definition CHANNEL_STATUS_CONFIG :: "(int \<times> variant \<times> string) list" where
  "CHANNEL_STATUS_CONFIG =
     [(0, Neutral, ''Unknown''), (1, Success, ''Enabled''), (2, Neutral, ''Disabled''),
      (3, Danger, ''Auto Disabled'')]"

definition MULTI_KEY_STATUS_CONFIG :: "(int \<times> variant \<times> string) list" where
  "MULTI_KEY_STATUS_CONFIG =
     [(1, Success, ''Enabled''), (2, Neutral, ''Manual Disabled''), (3, Danger, ''Auto Disabled'')]"

definition getChannelStatusBadge :: "int \<Rightarrow> variant \<times> string" where
  "getChannelStatusBadge status =
     (case map_of CHANNEL_STATUS_CONFIG status of Some c \<Rightarrow> c | None \<Rightarrow> (Neutral, ''Unknown''))"

definition getMultiKeyStatusBadge :: "int \<Rightarrow> variant \<times> string" where
  "getMultiKeyStatusBadge status =
     (case map_of MULTI_KEY_STATUS_CONFIG status of Some c \<Rightarrow> c | None \<Rightarrow> (Success, ''Enabled''))"

definition getMultiKeyStatusConfig :: "int \<Rightarrow> variant \<times> string" where
  "getMultiKeyStatusConfig status =
     (case map_of MULTI_KEY_STATUS_CONFIG status of Some c \<Rightarrow> c | None \<Rightarrow> (Neutral, ''Unknown''))"

subsection \<open>Actions on the keys of a multi-key channel\<close>

datatype multi_key_action = Delete | Enable | Disable | Enable_All | Disable_All | Delete_Disabled

fun getMultiKeyConfirmMessage :: "multi_key_action option \<Rightarrow> string" where
  "getMultiKeyConfirmMessage None = []"
| "getMultiKeyConfirmMessage (Some Delete) =
     ''Are you sure you want to delete this key? This action cannot be undone.''"
| "getMultiKeyConfirmMessage (Some Enable) = ''Enable this key?''"
| "getMultiKeyConfirmMessage (Some Disable) = ''Disable this key?''"
| "getMultiKeyConfirmMessage (Some Enable_All) = ''Are you sure you want to enable all keys?''"
| "getMultiKeyConfirmMessage (Some Disable_All) =
     ''Are you sure you want to disable all enabled keys?''"
| "getMultiKeyConfirmMessage (Some Delete_Disabled) =
     ''Are you sure you want to delete all auto-disabled keys? This action cannot be undone.''"

definition isDestructiveAction :: "multi_key_action option \<Rightarrow> bool" where
  "isDestructiveAction action =
     (case action of None \<Rightarrow> False
      | Some a \<Rightarrow> a = Delete \<or> a = Delete_Disabled \<or> a = Disable_All)"

subsection \<open>Configuration of channel types\<close>

text \<open>The validation rule of a key: the prefix its pattern requires, and a minimal length.\<close>

record key_validation =
  keyFormat :: "string option"
  keyMinLength :: "nat option"

record channel_type_config =
  cfg_id :: int
  cfg_name :: string
  cfg_icon :: string
  defaultBaseUrl :: "string option"
  cfg_requiresOrganization :: "bool option"
  cfg_requiresRegion :: "bool option"
  hints :: "(string \<times> string) list option"
  validation :: "key_validation option"

definition type_config :: "int \<Rightarrow> string \<Rightarrow> channel_type_config" where
  "type_config i icon =
     \<lparr>cfg_id = i, cfg_name = getChannelTypeLabel i, cfg_icon = icon, defaultBaseUrl = None,
      cfg_requiresOrganization = None, cfg_requiresRegion = None, hints = None, validation = None\<rparr>"

definition CHANNEL_TYPE_CONFIGS :: "(int \<times> channel_type_config) list" where
  "CHANNEL_TYPE_CONFIGS =
     [(1, (type_config 1 ''openai'')
        \<lparr>defaultBaseUrl := Some ''https://api.openai.com'',
          cfg_requiresOrganization := Some True,
          hints := Some [(''baseUrl'', ''Default: https://api.openai.com''), (''key'', ''Format: sk-...''), (''models'', ''gpt-4,gpt-4-turbo,gpt-3.5-turbo'')],
          validation := Some \<lparr>keyFormat = Some ''sk-'', keyMinLength = Some 20\<rparr>\<rparr>),
      (3, (type_config 3 ''azure'')
        \<lparr>cfg_requiresRegion := Some True,
          hints := Some [(''baseUrl'', ''Azure OpenAI Endpoint''), (''key'', ''Azure API Key''), (''models'', ''Deployment names'')]\<rparr>),
      (14, (type_config 14 ''anthropic'')
        \<lparr>defaultBaseUrl := Some ''https://api.anthropic.com'',
          hints := Some [(''key'', ''Format: sk-ant-...''), (''models'', ''claude-3-opus,claude-3-sonnet,claude-3-haiku'')]\<rparr>),
      (24, (type_config 24 ''google'')
        \<lparr>hints := Some [(''key'', ''Google API Key''), (''models'', ''gemini-pro,gemini-pro-vision'')]\<rparr>),
      (41, (type_config 41 ''google'')
        \<lparr>cfg_requiresRegion := Some True,
          hints := Some [(''key'', ''Service account JSON or API key''), (''models'', ''gemini-pro,gemini-1.5-pro''), (''other'', ''Region config: {\"default\": \"us-central1\"}'')]\<rparr>),
      (43, (type_config 43 ''deepseek'')
        \<lparr>defaultBaseUrl := Some ''https://api.deepseek.com'',
          hints := Some [(''key'', ''DeepSeek API Key''), (''models'', ''deepseek-chat,deepseek-coder'')]\<rparr>),
      (20, (type_config 20 ''openrouter'')
        \<lparr>defaultBaseUrl := Some ''https://openrouter.ai/api'',
          hints := Some [(''key'', ''OpenRouter API Key''), (''models'', ''Use model IDs from OpenRouter'')]\<rparr>),
      (56, (type_config 56 ''replicate'')
        \<lparr>defaultBaseUrl := Some ''https://api.replicate.com'',
          hints := Some [(''key'', ''Replicate API Token''), (''models'', ''Replicate model IDs''), (''baseUrl'', ''Default: https://api.replicate.com'')]\<rparr>)]"

definition getChannelTypeConfig :: "int \<Rightarrow> channel_type_config" where
  "getChannelTypeConfig t =
     (case map_of CHANNEL_TYPE_CONFIGS t of Some c \<Rightarrow> c | None \<Rightarrow> type_config t ''openai'')"

definition requiresOrganization :: "int \<Rightarrow> bool" where
  "requiresOrganization t =
     (case map_of CHANNEL_TYPE_CONFIGS t of
        Some c \<Rightarrow> cfg_requiresOrganization c = Some True | None \<Rightarrow> False)"

definition requiresRegion :: "int \<Rightarrow> bool" where
  "requiresRegion t =
     (case map_of CHANNEL_TYPE_CONFIGS t of
        Some c \<Rightarrow> cfg_requiresRegion c = Some True | None \<Rightarrow> False)"

definition getDefaultBaseUrl :: "int \<Rightarrow> string" where
  "getDefaultBaseUrl t =
     (case map_of CHANNEL_TYPE_CONFIGS t of
        Some c \<Rightarrow> (case defaultBaseUrl c of Some u \<Rightarrow> u | None \<Rightarrow> []) | None \<Rightarrow> [])"

definition getChannelTypeHints :: "int \<Rightarrow> (string \<times> string) list" where
  "getChannelTypeHints t =
     (case map_of CHANNEL_TYPE_CONFIGS t of
        Some c \<Rightarrow> (case hints c of Some h \<Rightarrow> h | None \<Rightarrow> []) | None \<Rightarrow> [])"

definition validateKeyFormat :: "int \<Rightarrow> string \<Rightarrow> bool" where
  "validateKeyFormat t key =
     (case map_of CHANNEL_TYPE_CONFIGS t of None \<Rightarrow> True
      | Some c \<Rightarrow>
          (case validation c of None \<Rightarrow> True
           | Some v \<Rightarrow>
               if (case keyMinLength v of None \<Rightarrow> False | Some n \<Rightarrow> n \<noteq> 0 \<and> length key < n) then False
               else if (case keyFormat v of None \<Rightarrow> False | Some p \<Rightarrow> \<not> prefix p key) then False
               else True))"

subsection \<open>The tables fit together\<close>

lemma type_keys_distinct: "distinct (map fst CHANNEL_TYPES)"
  by code_simp

lemma ordered_keys: "map fst ordered_options = CHANNEL_TYPE_DISPLAY_ORDER"
  by code_simp

lemma ordered_key_set: "fst ` set ordered_options = set CHANNEL_TYPE_DISPLAY_ORDER"
  by (metis ordered_keys set_map)

lemma display_order: "distinct CHANNEL_TYPE_DISPLAY_ORDER" "0 \<notin> set CHANNEL_TYPE_DISPLAY_ORDER"
  by code_simp+

lemma type_0: "map_of CHANNEL_TYPES 0 = Some ''Unknown''"
  by code_simp

lemma set_ordered_options: "set ordered_options \<subseteq> set CHANNEL_TYPES"
  by (auto simp: ordered_options_def set_map_filter split: option.split_asm if_split_asm dest!: map_of_SomeD)

lemma options_by_key:
  "set CHANNEL_TYPE_OPTIONS = {(i, l) \<in> set CHANNEL_TYPES. i \<noteq> 0}"
proof -
  have "(i, l) \<in> set ordered_options \<longleftrightarrow> (i, l) \<in> set CHANNEL_TYPES" if "i \<in> fst ` set ordered_options" for i l
    using that set_ordered_options type_keys_distinct by (auto simp: image_iff) (metis eq_key_imp_eq_value subsetD)
  moreover have "0 \<notin> fst ` set ordered_options"
    using display_order by (simp add: ordered_key_set)
  ultimately show ?thesis by (force simp: CHANNEL_TYPE_OPTIONS_def)
qed

text \<open>The type options of the channel form offer every channel type except type 0 exactly once,
  under the label of the type table, and every type with a configuration of its own is among them.\<close>

theorem type_options_complete:
  "distinct (map fst CHANNEL_TYPE_OPTIONS)
   \<and> set CHANNEL_TYPE_OPTIONS = set CHANNEL_TYPES - {(0, ''Unknown'')}
   \<and> fst ` set CHANNEL_TYPE_CONFIGS \<subseteq> fst ` set CHANNEL_TYPE_OPTIONS"
proof (intro conjI)
  have "distinct (map fst (filter (\<lambda>(i, label). i \<noteq> 0 \<and> i \<notin> fst ` set ordered_options) CHANNEL_TYPES))"
    using type_keys_distinct by (rule distinct_map_filter)
  then show "distinct (map fst CHANNEL_TYPE_OPTIONS)"
    using display_order ordered_keys by (auto simp: CHANNEL_TYPE_OPTIONS_def ordered_key_set)
  show "set CHANNEL_TYPE_OPTIONS = set CHANNEL_TYPES - {(0, ''Unknown'')}"
    using type_0 type_keys_distinct by (auto simp: options_by_key) (metis map_of_is_SomeI option.inject)
  have "list_all (\<lambda>i. i \<noteq> 0 \<and> map_of CHANNEL_TYPES i \<noteq> None) (map fst CHANNEL_TYPE_CONFIGS)"
    by code_simp
  then have "i \<noteq> 0 \<and> (\<exists>l. (i, l) \<in> set CHANNEL_TYPES)" if "i \<in> fst ` set CHANNEL_TYPE_CONFIGS" for i
    using that by (fastforce simp: list_all_iff dest: map_of_SomeD)
  then show "fst ` set CHANNEL_TYPE_CONFIGS \<subseteq> fst ` set CHANNEL_TYPE_OPTIONS"
    by (force simp: options_by_key)
qed

end
