(* ===== verification/Channel_Utils.thy ===== *)
theory Channel_Utils
  imports Channel_Types
begin

section \<open>Channels\<close>

text \<open>
  A channel as the API returns it, and the operations of \<open>features/channels/lib/channel-utils.ts\<close>
  on it: the display of its key, its groups and models, the attention flags, the aggregation of
  channels into tag rows and the removal of duplicate keys.

  Optional fields are \<^const>\<open>None\<close> where the source has null or undefined; the schema gives
  \<open>channel_info\<close> a default, so it is always present.  Counters, prices and
  times of a channel are rational numbers (exact, unlike the doubles of the language); a key's
  characters are bytes.  The collation that \<open>localeCompare\<close> uses is not part of the program and
  is a parameter.
\<close>

datatype key_select = Random | Polling

record channel_info =
  is_multi_key :: bool
  multi_key_size :: int
  multi_key_status_list :: "(string \<times> int) list option"
  multi_key_polling_index :: int
  multi_key_mode :: key_select

record channel =
  ch_id :: int
  ch_type :: int
  ch_key :: string
  openai_organization :: "string option"
  test_model :: "string option"
  ch_status :: int
  ch_name :: string
  weight :: "rat option"
  created_time :: int
  test_time :: int
  response_time :: rat
  base_url :: "string option"
  other :: string
  balance :: rat
  balance_updated_time :: int
  ch_models :: string
  ch_group :: string
  used_quota :: rat
  model_mapping :: "string option"
  status_code_mapping :: "string option"
  priority :: "rat option"
  auto_ban :: "int option"
  other_info :: string
  ch_tag :: "string option"
  setting :: "string option"
  param_override :: "string option"
  header_override :: "string option"
  remark :: "string option"
  max_input_tokens :: int
  chan_info :: channel_info
  ch_settings :: "string option"

definition isChannelEnabled :: "channel \<Rightarrow> bool" where
  "isChannelEnabled c \<longleftrightarrow> ch_status c = 1"

definition isMultiKeyChannel :: "channel \<Rightarrow> bool" where
  "isMultiKeyChannel c = is_multi_key (chan_info c)"

subsection \<open>Keys\<close>

text \<open>\<open>s.slice(-n)\<close>.\<close>

definition last_chars :: "nat \<Rightarrow> string \<Rightarrow> string" where
  "last_chars n s = drop (length s - n) s"

definition key_lines :: "string \<Rightarrow> string list" where
  "key_lines key = filter (\<lambda>k. trim k \<noteq> []) (split_on (CHR 0x0A) key)"

definition formatChannelKey :: "string \<Rightarrow> bool \<Rightarrow> string" where
  "formatChannelKey key isMultiKey =
     (if key = [] then []
      else if isMultiKey then string_of_int (int (length (key_lines key))) @ '' keys''
      else if length key \<le> 16 then take 4 key @ ''...'' @ last_chars 4 key
      else take 8 key @ ''...'' @ last_chars 8 key)"

definition formatKeyPreview :: "string \<Rightarrow> nat \<Rightarrow> string" where
  "formatKeyPreview key maxLength =
     (if key = [] then []
      else if length key \<le> maxLength then key
      else take maxLength key @ ''...'')"

definition countKeys :: "string \<Rightarrow> nat" where
  "countKeys key = (if key = [] then 0 else length (key_lines key))"

subsection \<open>Models, groups and settings\<close>

definition parseModelsList :: "string \<Rightarrow> string list" where
  "parseModelsList models = (if models = [] then [] else csv_parts models)"

definition group_cmp :: "(string \<Rightarrow> string \<Rightarrow> int) \<Rightarrow> string \<Rightarrow> string \<Rightarrow> int" where
  "group_cmp localeCompare a b =
     (if a = ''default'' then -1 else if b = ''default'' then 1 else localeCompare a b)"

definition parseGroupsList :: "(string \<Rightarrow> string \<Rightarrow> int) \<Rightarrow> string \<Rightarrow> string list" where
  "parseGroupsList localeCompare groups =
     (if groups = [] then [] else sort_by (group_cmp localeCompare) (csv_parts groups))"

definition formatModelsString :: "string list \<Rightarrow> string" where
  "formatModelsString models = join '','' models"

definition formatGroupsString :: "string list \<Rightarrow> string" where
  "formatGroupsString groups = join '','' groups"

definition parseChannelSettings :: "string option \<Rightarrow> jsval" where
  "parseChannelSettings settingStr =
     (case settingStr of None \<Rightarrow> JObj []
      | Some s \<Rightarrow>
          if s = [] then JObj []
          else (case json_parse s of None \<Rightarrow> JObj [] | Some v \<Rightarrow> v))"

definition parseChannelOtherSettings :: "string option \<Rightarrow> jsval" where
  "parseChannelOtherSettings settingsStr =
     (case settingsStr of None \<Rightarrow> JObj []
      | Some s \<Rightarrow>
          if s = [] \<or> s = ''{}'' then JObj []
          else (case json_parse s of None \<Rightarrow> JObj [] | Some v \<Rightarrow> v))"

definition validateChannelSettings :: "string \<Rightarrow> bool" where
  "validateChannelSettings settings =
     (if settings = [] \<or> trim settings = [] then True else json_parse settings \<noteq> None)"

subsection \<open>Balance, response time, priority\<close>

definition getBalanceVariant :: "rat \<Rightarrow> variant" where
  "getBalanceVariant bal =
     (if bal = 0 then Neutral else if bal < 1 then Danger else if bal < 10 then Warning else Success)"

text \<open>The optional translation function gets the message and the value it interpolates.\<close>

definition formatResponseTime :: "rat \<Rightarrow> (string \<Rightarrow> string option \<Rightarrow> string) option \<Rightarrow> string" where
  "formatResponseTime timeMs t =
     (if timeMs = 0 then (case t of Some f \<Rightarrow> f ''Not tested'' None | None \<Rightarrow> ''Not tested'')
      else if timeMs < 1000 then
        (case t of Some f \<Rightarrow> f ''{{value}}ms'' (Some (rat_text timeMs))
         | None \<Rightarrow> rat_text timeMs @ ''ms'')
      else
        (case t of Some f \<Rightarrow> f ''{{value}}s'' (Some (rat_fixed 2 (timeMs / 1000)))
         | None \<Rightarrow> rat_fixed 2 (timeMs / 1000) @ ''s''))"

definition getResponseTimeConfig :: "rat \<Rightarrow> variant \<times> string" where
  "getResponseTimeConfig timeMs =
     (if timeMs = 0 then (Neutral, ''Not tested'')
      else if timeMs \<le> 500 then (Success, ''Excellent'')
      else if timeMs \<le> 1000 then (Info, ''Good'')
      else if timeMs \<le> 2000 then (Warning, ''Fair'')
      else if timeMs \<le> 5000 then (Danger, ''Poor'')
      else (Danger, ''Poor''))"

definition getPriorityDisplay :: "rat option \<Rightarrow> string" where
  "getPriorityDisplay p = (case p of None \<Rightarrow> ''0'' | Some n \<Rightarrow> rat_text n)"

definition getWeightDisplay :: "rat option \<Rightarrow> string" where
  "getWeightDisplay w = (case w of None \<Rightarrow> ''0'' | Some n \<Rightarrow> rat_text n)"

subsection \<open>Validation and attention\<close>

definition validateChannelName :: "string \<Rightarrow> bool" where
  "validateChannelName name \<longleftrightarrow> length (trim name) > 0"

definition validateApiKey :: "string \<Rightarrow> bool" where
  "validateApiKey key \<longleftrightarrow> length (trim key) > 0"

definition validateModels :: "string \<Rightarrow> bool" where
  "validateModels models \<longleftrightarrow> length (parseModelsList models) > 0"

definition validateGroups :: "(string \<Rightarrow> string \<Rightarrow> int) \<Rightarrow> string \<Rightarrow> bool" where
  "validateGroups localeCompare groups \<longleftrightarrow> length (parseGroupsList localeCompare groups) > 0"

definition all_keys_disabled :: "channel \<Rightarrow> bool" where
  "all_keys_disabled c =
     (is_multi_key (chan_info c)
      \<and> (case multi_key_status_list (chan_info c) of None \<Rightarrow> False
         | Some l \<Rightarrow> int (length l) \<ge> multi_key_size (chan_info c)))"

definition channelNeedsAttention :: "channel \<Rightarrow> bool" where
  "channelNeedsAttention c =
     (if ch_status c = 3 then True
      else if balance c > 0 \<and> balance c < 1 then True
      else if all_keys_disabled c then True
      else False)"

definition getAttentionReason :: "channel \<Rightarrow> string option" where
  "getAttentionReason c =
     (if ch_status c = 3 then Some ''Auto-disabled''
      else if balance c > 0 \<and> balance c < 1 then Some ''Low balance''
      else if all_keys_disabled c then Some ''All keys disabled''
      else None)"

subsection \<open>Tag rows\<close>

text \<open>A tag row is a channel whose \<open>id\<close> is the tag (a text) and whose \<open>status\<close> starts
  undefined, with the channels of the tag; the fields \<^const>\<open>ch_id\<close> and \<^const>\<open>ch_status\<close> of
  \<open>row\<close> are hidden by \<open>row_id\<close> and \<open>row_status\<close>.\<close>

record tag_row =
  row :: channel
  row_id :: string
  row_status :: "int option"
  children :: "channel list"

definition tag_of :: "channel \<Rightarrow> string" where
  "tag_of c = (case ch_tag c of None \<Rightarrow> [] | Some t \<Rightarrow> t)"

definition new_tag_row :: "channel \<Rightarrow> tag_row" where
  "new_tag_row c =
     \<lparr>row = c\<lparr>ch_key := tag_of c, ch_tag := Some (tag_of c), ch_name := tag_of c, ch_type := 0,
             ch_group := [], used_quota := 0, response_time := 0, priority := Some (-1),
             weight := Some (-1), balance := 0, test_time := 0, created_time := 0,
             balance_updated_time := 0, ch_models := []\<rparr>,
      row_id = tag_of c, row_status = None, children = []\<rparr>"

definition merge_number :: "rat option \<Rightarrow> rat option \<Rightarrow> rat option" where
  "merge_number acc v = (if acc = Some (-1) then v else if acc \<noteq> v then None else acc)"

definition nonempty_parts :: "string \<Rightarrow> string list" where
  "nonempty_parts s = filter (\<lambda>g. g \<noteq> []) (split_on CHR '','' s)"

definition merge_group :: "string \<Rightarrow> string \<Rightarrow> string" where
  "merge_group acc g =
     (if acc = [] then g
      else (let existingGroups = set (nonempty_parts acc) in
            foldl (\<lambda>a x. if x \<notin> existingGroups then a @ '','' @ x else a) acc (nonempty_parts g)))"

definition merge_status :: "int option \<Rightarrow> int \<Rightarrow> int option" where
  "merge_status acc s = (if s = 1 then Some 1 else if acc = None then Some s else acc)"

definition add_child :: "channel \<Rightarrow> tag_row \<Rightarrow> tag_row" where
  "add_child c r =
     (let childCount = of_nat (length (children r) + 1) in
      r\<lparr>children := children r @ [c],
        row := (row r)\<lparr>used_quota := used_quota (row r) + used_quota c,
                     response_time := (response_time (row r) * (childCount - 1) + response_time c)
                                      / childCount,
                     priority := merge_number (priority (row r)) (priority c),
                     weight := merge_number (weight (row r)) (weight c),
                     ch_group := merge_group (ch_group (row r)) (ch_group c)\<rparr>,
        row_status := merge_status (row_status r) (ch_status c)\<rparr>)"

text \<open>The body of the loop: the map from tags to rows and the result list hold the same rows in the
  order of their creation.\<close>

definition aggregate_step :: "(string \<times> tag_row) list \<Rightarrow> channel \<Rightarrow> (string \<times> tag_row) list" where
  "aggregate_step rows c =
     (let tag = tag_of c;
          rows' = (if tag \<in> fst ` set rows then rows else rows @ [(tag, new_tag_row c)])
      in map (\<lambda>(t, r). if t = tag then (t, add_child c r) else (t, r)) rows')"

definition aggregateChannelsByTag :: "channel list \<Rightarrow> tag_row list" where
  "aggregateChannelsByTag channels = map snd (foldl aggregate_step [] channels)"

subsection \<open>Duplicate keys\<close>

record dedup_result =
  deduplicatedText :: string
  beforeCount :: nat
  afterCount :: nat
  removedCount :: int

definition dedup_step :: "string list \<Rightarrow> string \<Rightarrow> string list" where
  "dedup_step keys line =
     (let trimmedLine = trim line in
      if trimmedLine \<noteq> [] \<and> trimmedLine \<notin> set keys then keys @ [trimmedLine] else keys)"

definition deduplicateKeys :: "string \<Rightarrow> dedup_result" where
  "deduplicateKeys keysText =
     (if keysText = [] \<or> trim keysText = [] then
        \<lparr>deduplicatedText = [], beforeCount = 0, afterCount = 0, removedCount = 0\<rparr>
      else
        (let keyLines = split_on (CHR 0x0A) keysText;
             deduplicatedKeys = foldl dedup_step [] keyLines
         in \<lparr>deduplicatedText = join [CHR 0x0A] deduplicatedKeys,
             beforeCount = length keyLines,
             afterCount = length deduplicatedKeys,
             removedCount = int (length keyLines) - int (length deduplicatedKeys)\<rparr>))"

subsection \<open>The aggregation as a specification\<close>

text \<open>The row of a tag as a function of the channels that carry the tag.\<close>

definition row_of :: "channel list \<Rightarrow> tag_row" where
  "row_of cs = foldl (\<lambda>r c. add_child c r) (new_tag_row (hd cs)) cs"

definition with_tag :: "string \<Rightarrow> channel list \<Rightarrow> channel list" where
  "with_tag t cs = filter (\<lambda>c. tag_of c = t) cs"

lemma row_of_snoc: "cs \<noteq> [] \<Longrightarrow> row_of (cs @ [c]) = add_child c (row_of cs)"
  by (simp add: row_of_def)

lemma row_of_single: "row_of [c] = add_child c (new_tag_row c)"
  by (simp add: row_of_def)

text \<open>Induction over the channels of a row.\<close>

lemma row_induct [consumes 1, case_names single snoc]:
  assumes "cs \<noteq> []" "\<And>c. P [c]" "\<And>c cs. cs \<noteq> [] \<Longrightarrow> P cs \<Longrightarrow> P (cs @ [c])"
  shows "P cs"
  using assms(1)
proof (induction cs rule: rev_induct)
  case (snoc c cs)
  then show ?case using assms(2,3) by (cases "cs = []") auto
qed simp

lemma uniq_snoc: "uniq (xs @ [x]) = (if x \<in> set xs then uniq xs else uniq xs @ [x])"
proof -
  have "uniq_from seen (xs @ [x])
      = (if x \<in> set xs \<union> set seen then uniq_from seen xs else uniq_from seen xs @ [x])" for seen
    by (induction xs arbitrary: seen) auto
  then show ?thesis by (simp add: uniq_def)
qed

lemma aggregate_step_map:
  "aggregate_step (map (\<lambda>t. (t, g t)) ts) c =
     map (\<lambda>t. (t, if t \<noteq> tag_of c then g t
                 else add_child c (if t \<in> set ts then g t else new_tag_row c)))
       (if tag_of c \<in> set ts then ts else ts @ [tag_of c])"
  by (auto simp: aggregate_step_def Let_def image_image)

lemma with_tag_empty: "with_tag t cs = [] \<longleftrightarrow> t \<notin> tag_of ` set cs"
  unfolding with_tag_def filter_empty_conv by (metis imageE imageI)

lemma with_tag_snoc:
  "with_tag t (cs @ [c]) = (if t = tag_of c then with_tag t cs @ [c] else with_tag t cs)"
  by (simp add: with_tag_def)

lemma aggregate_rows:
  "foldl aggregate_step [] cs = map (\<lambda>t. (t, row_of (with_tag t cs))) (uniq (map tag_of cs))"
proof (induction cs rule: rev_induct)
  case (snoc c cs)
  have "row_of (with_tag t (cs @ [c])) = (if t \<noteq> tag_of c then row_of (with_tag t cs)
      else add_child c (if t \<in> set (uniq (map tag_of cs)) then row_of (with_tag t cs) else new_tag_row c))"
    for t
    by (cases "t \<in> tag_of ` set cs")
      (simp_all add: with_tag_snoc row_of_snoc row_of_single with_tag_empty with_tag_empty [THEN iffD2])
  then show ?case
    by (simp only: foldl_append foldl_Cons foldl_Nil snoc.IH aggregate_step_map map_append
        list.map uniq_snoc set_uniq)
qed simp

lemmas row_simps = row_of_single row_of_snoc add_child_def new_tag_row_def Let_def

lemma row_children: "cs \<noteq> [] \<Longrightarrow> children (row_of cs) = cs"
  by (induction cs rule: row_induct) (simp_all add: row_simps)

lemma row_quota: "cs \<noteq> [] \<Longrightarrow> used_quota (row (row_of cs)) = sum_list (map used_quota cs)"
  by (induction cs rule: row_induct) (simp_all add: row_simps)

lemma row_response_time:
  "cs \<noteq> [] \<Longrightarrow> response_time (row (row_of cs)) = sum_list (map response_time cs) / of_nat (length cs)"
  by (induction cs rule: row_induct) (simp_all add: row_simps row_children field_simps)

lemma row_status_eq:
  "cs \<noteq> [] \<Longrightarrow> row_status (row_of cs) = Some (if \<exists>c\<in>set cs. ch_status c = 1 then 1 else ch_status (hd cs))"
  by (induction cs rule: row_induct) (auto simp: row_simps merge_status_def)

definition agreed :: "rat option list \<Rightarrow> rat option" where
  "agreed vs = (if \<forall>v\<in>set vs. v = hd vs then hd vs else None)"

lemma merge_number_agreed:
  "vs \<noteq> [] \<Longrightarrow> Some (-1) \<notin> set vs \<Longrightarrow> merge_number (agreed vs) v = agreed (vs @ [v])"
  by (cases vs) (auto simp: merge_number_def agreed_def)

lemma row_priority:
  "cs \<noteq> [] \<Longrightarrow> Some (-1) \<notin> priority ` set cs \<Longrightarrow> priority (row (row_of cs)) = agreed (map priority cs)"
  by (induction cs rule: row_induct)
    (auto simp: row_simps merge_number_agreed [symmetric], simp_all add: merge_number_def agreed_def)

lemma row_weight:
  "cs \<noteq> [] \<Longrightarrow> Some (-1) \<notin> weight ` set cs \<Longrightarrow> weight (row (row_of cs)) = agreed (map weight cs)"
  by (induction cs rule: row_induct)
    (auto simp: row_simps merge_number_agreed [symmetric], simp_all add: merge_number_def agreed_def)

lemma nonempty_parts_Nil [simp]: "nonempty_parts [] = []"
  by (simp add: nonempty_parts_def)

lemma nonempty_parts_add:
  "CHR '','' \<notin> set g \<Longrightarrow> set (nonempty_parts (a @ CHR '','' # g)) = set (nonempty_parts a) \<union> ({g} - {[]})"
  by (auto simp: nonempty_parts_def split_on_sep split_on_no_sep)

lemma nonempty_parts_no_comma: "g \<in> set (nonempty_parts s) \<Longrightarrow> CHR '','' \<notin> set g \<and> g \<noteq> []"
  by (auto simp: nonempty_parts_def dest: split_on_parts)

lemma merge_group_set:
  "set (nonempty_parts (merge_group acc g)) = set (nonempty_parts acc) \<union> set (nonempty_parts g)"
proof (cases "acc = []")
  case False
  let ?f = "\<lambda>a x. if x \<notin> set (nonempty_parts acc) then a @ '','' @ x else a"
  have "set (nonempty_parts (foldl ?f a gs)) = set (nonempty_parts a) \<union> set gs"
    if "list_all (\<lambda>x. CHR '','' \<notin> set x \<and> x \<noteq> []) gs" "set (nonempty_parts acc) \<subseteq> set (nonempty_parts a)"
    for gs a
    using that
  proof (induction gs arbitrary: a)
    case (Cons x gs)
    then have f: "set (nonempty_parts (?f a x)) = insert x (set (nonempty_parts a))"
      by (auto simp: nonempty_parts_add)
    with Cons.prems have "set (nonempty_parts acc) \<subseteq> set (nonempty_parts (?f a x))" by blast
    with Cons.prems have "set (nonempty_parts (foldl ?f (?f a x) gs)) = set (nonempty_parts (?f a x)) \<union> set gs"
      by (intro Cons.IH) simp_all
    with f show ?case by simp
  qed simp
  from this [of "nonempty_parts g" acc] False show ?thesis
    by (simp add: merge_group_def Let_def list_all_iff nonempty_parts_no_comma)
qed (simp add: merge_group_def nonempty_parts_def)

lemma row_groups:
  "cs \<noteq> [] \<Longrightarrow> set (nonempty_parts (ch_group (row (row_of cs)))) = (\<Union>c\<in>set cs. set (nonempty_parts (ch_group c)))"
  by (induction cs rule: row_induct) (simp_all add: row_simps merge_group_set Un_commute)

lemma row_id_eq: "cs \<noteq> [] \<Longrightarrow> row_id (row_of cs) = tag_of (hd cs)"
  by (induction cs rule: row_induct) (simp_all add: row_simps)

lemma aggregate_eq:
  "aggregateChannelsByTag cs = map (\<lambda>t. row_of (with_tag t cs)) (uniq (map tag_of cs))"
  by (simp add: aggregateChannelsByTag_def aggregate_rows)

lemma aggregate_row:
  assumes "r \<in> set (aggregateChannelsByTag cs)"
  obtains t where "t \<in> tag_of ` set cs" "r = row_of (with_tag t cs)" "with_tag t cs \<noteq> []"
  using assms by (auto simp: aggregate_eq with_tag_empty)

text \<open>The tag rows are the distinct tags in the order of their first channel, each with exactly the
  channels of its tag, in their order: no channel is lost, duplicated or put under another tag.\<close>

theorem tag_rows_partition:
  "map row_id (aggregateChannelsByTag cs) = uniq (map tag_of cs)
   \<and> map children (aggregateChannelsByTag cs) = map (\<lambda>t. with_tag t cs) (uniq (map tag_of cs))"
proof -
  have "tag_of (hd (with_tag t cs)) = t" "with_tag t cs \<noteq> []" if "t \<in> tag_of ` set cs" for t
    using that with_tag_empty [of t cs] hd_in_set [of "with_tag t cs"] by (auto simp: with_tag_def)
  then show ?thesis
    by (auto simp: aggregate_eq row_id_eq row_children intro!: map_idI)
qed

text \<open>C34. A tag row's quota is the sum and its response time the average over its channels, it is
  enabled exactly when one of them is (and otherwise carries the first one's status), and its groups
  are the groups of its channels.\<close>

theorem tag_row_summary:
  "list_all (\<lambda>r. children r \<noteq> []
      \<and> used_quota (row r) = sum_list (map used_quota (children r))
      \<and> response_time (row r) * of_nat (length (children r)) = sum_list (map response_time (children r))
      \<and> row_status r = Some (if list_ex isChannelEnabled (children r) then 1 else ch_status (hd (children r)))
      \<and> set (nonempty_parts (ch_group (row r))) = (\<Union>c\<in>set (children r). set (nonempty_parts (ch_group c))))
    (aggregateChannelsByTag cs)"
  unfolding list_all_iff
proof (rule ballI)
  fix r
  assume "r \<in> set (aggregateChannelsByTag cs)"
  then obtain t where r: "r = row_of (with_tag t cs)" "with_tag t cs \<noteq> []" by (rule aggregate_row)
  have kids: "children r = with_tag t cs" unfolding r(1) by (rule row_children [OF r(2)])
  show "children r \<noteq> []
      \<and> used_quota (row r) = sum_list (map used_quota (children r))
      \<and> response_time (row r) * of_nat (length (children r)) = sum_list (map response_time (children r))
      \<and> row_status r = Some (if list_ex isChannelEnabled (children r) then 1 else ch_status (hd (children r)))
      \<and> set (nonempty_parts (ch_group (row r))) = (\<Union>c\<in>set (children r). set (nonempty_parts (ch_group c)))"
    unfolding kids unfolding r(1) row_quota [OF r(2)] row_response_time [OF r(2)]
      row_status_eq [OF r(2)] row_groups [OF r(2)]
    using r(2) by (simp add: list_ex_iff isChannelEnabled_def)
qed

text \<open>Where no channel of the list has the priority or the weight -1, a tag row shows the priority
  and the weight that its channels agree on, and none where they differ.\<close>

theorem tag_row_agreement:
  assumes "Some (-1) \<notin> priority ` set cs" "Some (-1) \<notin> weight ` set cs"
    and "r \<in> set (aggregateChannelsByTag cs)"
  shows "priority (row r) = agreed (map priority (children r))
    \<and> weight (row r) = agreed (map weight (children r))"
proof -
  from assms(3) obtain t where r: "r = row_of (with_tag t cs)" "with_tag t cs \<noteq> []" by (rule aggregate_row)
  have "set (with_tag t cs) \<subseteq> set cs" by (simp add: with_tag_def)
  then show ?thesis
    using assms(1,2) row_priority [OF r(2)] row_weight [OF r(2)] row_children [OF r(2)] r(1)
    by (metis image_mono subsetD)
qed

definition sample_channel :: channel where
  "sample_channel =
     \<lparr>ch_id = 1, ch_type = 1, ch_key = ''sk-1'', openai_organization = None, test_model = None,
      ch_status = 2, ch_name = ''a'', weight = Some 0, created_time = 0, test_time = 0,
      response_time = 100, base_url = None, other = [], balance = 0, balance_updated_time = 0,
      ch_models = ''m'', ch_group = ''default'', used_quota = 7, model_mapping = None,
      status_code_mapping = None, priority = Some 3, auto_ban = None, other_info = [],
      ch_tag = Some ''t'', setting = None, param_override = None, header_override = None,
      remark = None, max_input_tokens = 0,
      chan_info = \<lparr>is_multi_key = False, multi_key_size = 0, multi_key_status_list = None,
                   multi_key_polling_index = 0, multi_key_mode = Random\<rparr>,
      ch_settings = None\<rparr>"

theorem tag_row_agreement_witness:
  "map (\<lambda>r. (priority (row r), weight (row r)))
     (aggregateChannelsByTag [sample_channel, sample_channel\<lparr>priority := Some 4\<rparr>]) = [(None, Some 0)]"
proof -
  let ?cs = "[sample_channel, sample_channel\<lparr>priority := Some 4\<rparr>]"
  have rows: "aggregateChannelsByTag ?cs = [row_of ?cs]"
    by (simp add: aggregate_eq uniq_def with_tag_def tag_of_def sample_channel_def)
  have "priority (row (row_of ?cs)) = agreed (map priority (children (row_of ?cs)))
    \<and> weight (row (row_of ?cs)) = agreed (map weight (children (row_of ?cs)))"
    by (rule tag_row_agreement [of ?cs]) (simp_all add: rows, simp_all add: sample_channel_def)
  with rows show ?thesis by (simp add: row_children agreed_def sample_channel_def)
qed

text \<open>The marker -1 of a fresh row cannot be told from a channel's own priority -1: the row of two
  channels whose priorities differ then shows the second one.\<close>

lemma priority_marker_collision:
  "map (\<lambda>r. priority (row r))
     (aggregateChannelsByTag [sample_channel\<lparr>priority := Some (-1)\<rparr>, sample_channel]) = [Some 3]"
  by (simp add: aggregate_eq uniq_def with_tag_def tag_of_def row_of_def add_child_def new_tag_row_def
      merge_number_def sample_channel_def)

subsection \<open>Keys that are displayed or deduplicated\<close>

lemma last_chars_update: "i < length k - n \<Longrightarrow> last_chars n (k[i := c]) = last_chars n k"
  by (simp add: last_chars_def)

lemma another_char: "\<exists>c'. c' \<noteq> (c :: char)"
  by (cases "c = CHR ''a''") (auto intro: exI [of _ "CHR ''a''"] exI [of _ "CHR ''b''"])

lemma short_key_display:
  assumes "length k \<le> 8" "length k' = length k" "k \<noteq> []"
    and "formatChannelKey k' False = formatChannelKey k False"
  shows "k' = k"
proof -
  have "take 4 k' @ ''...'' @ last_chars 4 k' = take 4 k @ ''...'' @ last_chars 4 k"
    using assms by (auto simp: formatChannelKey_def split: if_splits)
  then have "take 4 k' = take 4 k" "last_chars 4 k' = last_chars 4 k"
    using assms(2) by (auto simp: append_eq_append_conv)
  moreover have "drop 4 j = drop (8 - length j) (last_chars 4 j)" if "length j \<le> 8" for j
    using that by (cases "length j \<le> 4") (simp_all add: last_chars_def)
  ultimately show ?thesis
    using assms(1,2) append_take_drop_id [of 4 k] append_take_drop_id [of 4 k'] by metis
qed

text \<open>The displayed form of a single key leaves the key open, among the keys of its length, exactly
  when the key has more than eight characters.\<close>

theorem key_display_hides:
  "(\<exists>k'. k' \<noteq> k \<and> length k' = length k \<and> formatChannelKey k' False = formatChannelKey k False)
   \<longleftrightarrow> 8 < length k"
proof
  assume long: "8 < length k"
  define m where "m = (if length k \<le> 16 then 4 else 8 :: nat)"
  have m: "m < length k - m" "m < length k" using long by (auto simp: m_def)
  obtain c where c: "c \<noteq> k ! m" using another_char by blast
  have "k[m := c] \<noteq> k" using c m(2) by (metis nth_list_update_eq)
  moreover have "take m (k[m := c]) = take m k" "last_chars m (k[m := c]) = last_chars m k"
    using m by (simp_all add: last_chars_update)
  then have "formatChannelKey (k[m := c]) False = formatChannelKey k False"
    by (auto simp: formatChannelKey_def m_def split: if_splits)
  ultimately show "\<exists>k'. k' \<noteq> k \<and> length k' = length k \<and> formatChannelKey k' False = formatChannelKey k False"
    by (metis length_list_update)
next
  assume "\<exists>k'. k' \<noteq> k \<and> length k' = length k \<and> formatChannelKey k' False = formatChannelKey k False"
  then obtain k' where k': "k' \<noteq> k" "length k' = length k" "formatChannelKey k' False = formatChannelKey k False"
    by blast
  then have "k \<noteq> []" by auto
  with k' short_key_display [OF _ k'(2) _ k'(3)] show "8 < length k" by force
qed

text \<open>The keys of a text: its lines, trimmed, without the blank ones.\<close>

definition keys_of :: "string \<Rightarrow> string list" where
  "keys_of s = filter (\<lambda>k. k \<noteq> []) (map trim (split_on (CHR 0x0A) s))"

lemma countKeys_eq: "countKeys s = length (keys_of s)"
  by (simp add: countKeys_def key_lines_def keys_of_def filter_map o_def)

lemma foldl_dedup_step:
  "foldl dedup_step acc ls = acc @ uniq_from (rev acc) (filter (\<lambda>k. k \<noteq> []) (map trim ls))"
  by (induction ls arbitrary: acc) (auto simp: dedup_step_def Let_def)

lemma keys_of_blank: "trim s = [] \<Longrightarrow> keys_of s = []"
proof -
  assume "trim s = []"
  then have "\<forall>l\<in>set (split_on (CHR 0x0A) s). trim l = []" by (blast intro: blank_lines)
  then show ?thesis by (simp add: keys_of_def filter_empty_conv)
qed

lemma deduplicateKeys_eq:
  "trim s \<noteq> [] \<Longrightarrow> deduplicateKeys s =
     \<lparr>deduplicatedText = join [CHR 0x0A] (uniq (keys_of s)),
      beforeCount = length (split_on (CHR 0x0A) s), afterCount = length (uniq (keys_of s)),
      removedCount = int (length (split_on (CHR 0x0A) s)) - int (length (uniq (keys_of s)))\<rparr>"
  by (auto simp: deduplicateKeys_def Let_def foldl_dedup_step uniq_def keys_of_def)

lemma deduplicatedText_eq: "deduplicatedText (deduplicateKeys s) = join [CHR 0x0A] (uniq (keys_of s))"
  using deduplicateKeys_eq [of s] by (cases "trim s = []") (simp_all add: deduplicateKeys_def keys_of_blank)

lemma afterCount_eq: "afterCount (deduplicateKeys s) = length (uniq (keys_of s))"
  using deduplicateKeys_eq [of s] by (cases "trim s = []") (simp_all add: deduplicateKeys_def keys_of_blank)

lemma keys_of_join:
  assumes "list_all (\<lambda>k. k \<noteq> [] \<and> trim k = k \<and> CHR 0x0A \<notin> set k) ks"
  shows "keys_of (join [CHR 0x0A] ks) = ks"
proof (cases "ks = []")
  case False
  then have "split_on (CHR 0x0A) (join [CHR 0x0A] ks) = ks"
    using assms by (intro split_on_join) (auto simp: list_all_iff)
  moreover have "map trim ks = ks" "filter (\<lambda>k. k \<noteq> []) ks = ks"
    using assms by (auto simp: list_all_iff intro!: map_idI filter_True)
  ultimately show ?thesis by (simp only: keys_of_def)
qed (simp add: keys_of_def)

lemma keys_of_clean: "list_all (\<lambda>k. k \<noteq> [] \<and> trim k = k \<and> CHR 0x0A \<notin> set k) (keys_of s)"
proof -
  have "CHR 0x0A \<notin> set (trim l)" if "l \<in> set (split_on (CHR 0x0A) s)" for l
    using split_on_parts [OF that] set_trim [of l] by blast
  then show ?thesis by (auto simp: keys_of_def list_all_iff)
qed

text \<open>Removing duplicate keys keeps each key once, in the order of its first line; the counts it
  reports are the lines of the text, the keys that are left, which a count of the new text finds
  again, and their difference; and a second removal finds nothing to do.\<close>

theorem deduplicate_keys:
  fixes s :: string
  defines "r \<equiv> deduplicateKeys s"
  shows "keys_of (deduplicatedText r) = uniq (keys_of s)
    \<and> afterCount r = card (set (keys_of s)) \<and> afterCount r = countKeys (deduplicatedText r)
    \<and> removedCount r = int (beforeCount r) - int (afterCount r) \<and> 0 \<le> removedCount r
    \<and> deduplicatedText (deduplicateKeys (deduplicatedText r)) = deduplicatedText r"
proof -
  have text': "keys_of (deduplicatedText r) = uniq (keys_of s)"
    unfolding r_def deduplicatedText_eq
    using keys_of_clean [of s] by (intro keys_of_join) (simp add: list_all_iff)
  moreover have "afterCount r = card (set (keys_of s))"
    by (simp add: r_def afterCount_eq length_uniq_card)
  moreover have "removedCount r = int (beforeCount r) - int (afterCount r)"
    by (simp add: r_def deduplicateKeys_def Let_def)
  moreover have "afterCount r \<le> beforeCount r"
  proof (cases "s = [] \<or> trim s = []")
    case False
    have "length (uniq (keys_of s)) \<le> length (split_on (CHR 0x0A) s)"
      using length_uniq [of "keys_of s"] by (simp add: keys_of_def) (meson length_filter_le le_trans length_map)
    with False show ?thesis by (simp add: r_def deduplicateKeys_eq)
  qed (simp add: r_def deduplicateKeys_def)
  ultimately show ?thesis
    by (simp add: countKeys_eq deduplicatedText_eq afterCount_eq r_def)
qed

subsection \<open>Groups\<close>

lemma group_cmp_comparator: "comparator lc \<Longrightarrow> comparator (group_cmp lc)"
  by (auto simp: comparator_def group_cmp_def split: if_splits)

lemma default_first:
  assumes "comparator.ordered (group_cmp lc) gs" "comparator lc"
  shows "\<exists>n rest. gs = replicate n ''default'' @ rest \<and> ''default'' \<notin> set rest
    \<and> sorted_wrt (\<lambda>a b. lc a b \<le> 0) rest"
  using assms(1) unfolding comparator.ordered_def [OF group_cmp_comparator [OF assms(2)]]
proof (induction gs)
  case (Cons g gs)
  then obtain n rest where IH: "gs = replicate n ''default'' @ rest" "''default'' \<notin> set rest"
    "sorted_wrt (\<lambda>a b. lc a b \<le> 0) rest" by auto
  show ?case
  proof (cases "g = ''default''")
    case True
    with IH show ?thesis by (intro exI [of _ "Suc n"] exI [of _ rest]) simp
  next
    case False
    with Cons.prems IH have "n = 0" by (cases n) (auto simp: group_cmp_def)
    moreover have "\<forall>b\<in>set rest. lc g b \<le> 0" using Cons.prems IH False by (auto simp: group_cmp_def split: if_splits)
    ultimately show ?thesis using IH False by (intro exI [of _ 0] exI [of _ "g # gs"]) auto
  qed
qed simp

text \<open>For every collation that orders texts, the group list of a channel has exactly the groups of
  its text, the default group in front and the others in collation order, and saving it and reading
  it again gives the same list.\<close>

theorem groups_sorted:
  assumes "comparator localeCompare"
  shows "mset (parseGroupsList localeCompare g) = mset (csv_parts g)
    \<and> (\<exists>n rest. parseGroupsList localeCompare g = replicate n ''default'' @ rest
        \<and> ''default'' \<notin> set rest \<and> sorted_wrt (\<lambda>a b. localeCompare a b \<le> 0) rest)
    \<and> parseGroupsList localeCompare (formatGroupsString (parseGroupsList localeCompare g))
      = parseGroupsList localeCompare g"
proof -
  let ?p = "parseGroupsList localeCompare"
  note gc = group_cmp_comparator [OF assms]
  have p: "?p g = sort_by (group_cmp localeCompare) (csv_parts g)" for g
    by (cases "g = []") (simp_all add: parseGroupsList_def sort_by_def)
  have ord: "comparator.ordered (group_cmp localeCompare) (?p g)"
    unfolding p by (rule comparator.ordered_sort_by [OF gc])
  have "set (?p g) = set (csv_parts g)" by (simp add: p)
  then have "csv_parts (join '','' (?p g)) = ?p g"
    by (intro csv_parts_join) (auto simp: list_all_iff intro: csv_parts_items)
  then have "?p (formatGroupsString (?p g)) = ?p g"
    using comparator.sort_by_ordered_id [OF gc ord] by (simp add: p formatGroupsString_def)
  then show ?thesis using default_first [OF ord assms] by (simp add: p)
qed

theorem groups_sorted_witness:
  "comparator (\<lambda>a b. int (length a) - int (length b))
   \<and> parseGroupsList (\<lambda>a b. int (length a) - int (length b)) ''vip, b,default''
     = [''default'', ''b'', ''vip'']
   \<and> mset (parseGroupsList (\<lambda>a b. int (length a) - int (length b)) ''vip, b,default'')
     = mset (csv_parts ''vip, b,default'')"
proof -
  have c: "comparator (\<lambda>a b. int (length a) - int (length b))" by unfold_locales auto
  have "parseGroupsList (\<lambda>a b. int (length a) - int (length b)) ''vip, b,default''
     = [''default'', ''b'', ''vip'']" by code_simp
  with c groups_sorted [OF c, of "''vip, b,default''"] show ?thesis by blast
qed

end
