(* ===== verification/Channel_Form.thy ===== *)
theory Channel_Form
  imports Channel_Utils
begin

section \<open>The channel form\<close>

text \<open>
  The form in which an administrator edits a channel
  (\<open>features/channels/lib/channel-form.ts\<close>): its validation schema and defaults, the values it
  opens with, the two JSON texts it keeps its settings in, and the payloads it sends.

  Fields that are read from JSON without a check of their type are dynamic values.  Payloads are
  objects in the order the source writes their properties.  \<^const>\<open>None\<close> is the \<open>TypeError\<close>
  that the source throws where the settings text holds null or a primitive.
\<close>

datatype add_mode = Single | Batch | Multi_To_Single
datatype key_edit = Append | Replace

record channel_form =
  f_name :: string
  f_type :: int
  f_base_url :: "string option"
  f_key :: string
  f_openai_organization :: "string option"
  f_models :: string
  f_group :: "string list"
  f_model_mapping :: "string option"
  f_priority :: "rat option"
  f_weight :: "rat option"
  f_test_model :: "string option"
  f_auto_ban :: "int option"
  f_status :: int
  f_status_code_mapping :: "string option"
  f_tag :: "string option"
  f_remark :: "string option"
  f_setting :: "string option"
  f_param_override :: "string option"
  f_header_override :: "string option"
  f_settings :: "string option"
  f_other :: "string option"
  f_multi_key_mode :: "add_mode option"
  f_multi_key_type :: "key_select option"
  f_batch_add_set_key_prefix_2_name :: "bool option"
  f_key_mode :: "key_edit option"
  f_force_format :: jsval
  f_thinking_to_content :: jsval
  f_proxy :: jsval
  f_pass_through_body_enabled :: jsval
  f_system_prompt :: jsval
  f_system_prompt_override :: jsval
  f_is_enterprise_account :: jsval
  f_vertex_key_type :: jsval
  f_aws_key_type :: jsval
  f_azure_responses_version :: jsval
  f_allow_service_tier :: jsval
  f_disable_store :: jsval
  f_allow_safety_identifier :: jsval
  f_allow_include_obfuscation :: jsval
  f_allow_inference_geo :: jsval
  f_allow_speed :: jsval
  f_claude_beta_query :: jsval
  f_upstream_model_update_check_enabled :: jsval
  f_upstream_model_update_auto_sync_enabled :: jsval
  f_upstream_model_update_ignored_models :: "string option"

subsection \<open>Schema and defaults\<close>

definition optional_string :: "jsval \<Rightarrow> bool" where
  "optional_string v = (case v of JUndefined \<Rightarrow> True | JStr s \<Rightarrow> True | _ \<Rightarrow> False)"

definition optional_bool :: "jsval \<Rightarrow> bool" where
  "optional_bool v = (case v of JUndefined \<Rightarrow> True | JBool b \<Rightarrow> True | _ \<Rightarrow> False)"

definition optional_enum :: "string list \<Rightarrow> jsval \<Rightarrow> bool" where
  "optional_enum es v = (case v of JUndefined \<Rightarrow> True | JStr s \<Rightarrow> s \<in> set es | _ \<Rightarrow> False)"

definition channelFormSchema :: "channel_form \<Rightarrow> bool" where
  "channelFormSchema f \<longleftrightarrow>
     1 \<le> length (f_name f) \<and> 0 \<le> f_type f \<and> 1 \<le> length (f_models f) \<and> 1 \<le> length (f_group f)
     \<and> (case f_remark f of None \<Rightarrow> True | Some r \<Rightarrow> js_length r \<le> 255)
     \<and> optional_bool (f_force_format f) \<and> optional_bool (f_thinking_to_content f)
     \<and> optional_string (f_proxy f) \<and> optional_bool (f_pass_through_body_enabled f)
     \<and> optional_string (f_system_prompt f) \<and> optional_bool (f_system_prompt_override f)
     \<and> optional_bool (f_is_enterprise_account f)
     \<and> optional_enum [''json'', ''api_key''] (f_vertex_key_type f)
     \<and> optional_enum [''ak_sk'', ''api_key''] (f_aws_key_type f)
     \<and> optional_string (f_azure_responses_version f)
     \<and> optional_bool (f_allow_service_tier f) \<and> optional_bool (f_disable_store f)
     \<and> optional_bool (f_allow_safety_identifier f) \<and> optional_bool (f_allow_include_obfuscation f)
     \<and> optional_bool (f_allow_inference_geo f) \<and> optional_bool (f_allow_speed f)
     \<and> optional_bool (f_claude_beta_query f)
     \<and> optional_bool (f_upstream_model_update_check_enabled f)
     \<and> optional_bool (f_upstream_model_update_auto_sync_enabled f)"

definition CHANNEL_FORM_DEFAULT_VALUES :: channel_form where
  "CHANNEL_FORM_DEFAULT_VALUES =
     \<lparr>f_name = [], f_type = 1, f_base_url = Some [], f_key = [], f_openai_organization = Some [],
      f_models = [], f_group = [''default''], f_model_mapping = Some [], f_priority = Some 0,
      f_weight = Some 0, f_test_model = Some [], f_auto_ban = Some 1, f_status = 1,
      f_status_code_mapping = Some [], f_tag = Some [], f_remark = Some [], f_setting = Some [],
      f_param_override = Some [], f_header_override = Some [], f_settings = Some ''{}'',
      f_other = Some [], f_multi_key_mode = Some Single, f_multi_key_type = Some Random,
      f_batch_add_set_key_prefix_2_name = Some False, f_key_mode = Some Append,
      f_force_format = JBool False, f_thinking_to_content = JBool False, f_proxy = JStr [],
      f_pass_through_body_enabled = JBool False, f_system_prompt = JStr [],
      f_system_prompt_override = JBool False, f_is_enterprise_account = JBool False,
      f_vertex_key_type = JStr ''json'', f_aws_key_type = JStr ''ak_sk'',
      f_azure_responses_version = JStr [], f_allow_service_tier = JBool False,
      f_disable_store = JBool False, f_allow_safety_identifier = JBool False,
      f_allow_include_obfuscation = JBool False, f_allow_inference_geo = JBool False,
      f_allow_speed = JBool False, f_claude_beta_query = JBool False,
      f_upstream_model_update_check_enabled = JBool False,
      f_upstream_model_update_auto_sync_enabled = JBool False,
      f_upstream_model_update_ignored_models = Some []\<rparr>"

subsection \<open>From a channel to the form\<close>

definition parseModels :: "string \<Rightarrow> string list" where
  "parseModels models = (if models = [] then [] else csv_parts models)"

definition parseGroups :: "string \<Rightarrow> string list" where
  "parseGroups groups = (if groups = [] then [] else csv_parts groups)"

definition formatModels :: "string list \<Rightarrow> string" where
  "formatModels models = join '','' models"

definition formatGroups :: "string list \<Rightarrow> string" where
  "formatGroups groups = join '','' groups"

text \<open>\<open>s || ''\<close> on an optional text, and \<open>n || 0\<close> on an optional number.\<close>

definition or_empty :: "string option \<Rightarrow> string" where
  "or_empty s = (case s of None \<Rightarrow> [] | Some t \<Rightarrow> t)"

definition or_zero :: "rat option \<Rightarrow> rat" where
  "or_zero n = (case n of None \<Rightarrow> 0 | Some r \<Rightarrow> r)"

text \<open>The value a settings text holds; undefined properties where it is empty or not JSON (null, whose
  property access throws, leaves the same defaults).\<close>

definition stored_json :: "string option \<Rightarrow> jsval" where
  "stored_json s =
     (case s of None \<Rightarrow> JUndefined
      | Some t \<Rightarrow> if t = [] then JUndefined else (case json_parse t of None \<Rightarrow> JUndefined | Some v \<Rightarrow> v))"

definition flag :: "jsval \<Rightarrow> string \<Rightarrow> jsval" where
  "flag v k = JBool (js_get v k = JBool True)"

definition ignored_models_text :: "jsval \<Rightarrow> string" where
  "ignored_models_text v =
     (case v of JArr vs \<Rightarrow> (case js_string (JArr vs) of None \<Rightarrow> [] | Some s \<Rightarrow> s) | _ \<Rightarrow> [])"

definition transformChannelToFormDefaults :: "channel \<Rightarrow> channel_form" where
  "transformChannelToFormDefaults ch =
     (let extra = stored_json (setting ch); parsed = stored_json (ch_settings ch) in
      \<lparr>f_name = ch_name ch, f_type = ch_type ch, f_base_url = Some (or_empty (base_url ch)),
       f_key = [], f_openai_organization = Some (or_empty (openai_organization ch)),
       f_models = ch_models ch,
       f_group = parseGroups (if ch_group ch \<noteq> [] then ch_group ch else ''default''),
       f_model_mapping = Some (or_empty (model_mapping ch)),
       f_priority = Some (or_zero (priority ch)), f_weight = Some (or_zero (weight ch)),
       f_test_model = Some (or_empty (test_model ch)),
       f_auto_ban = Some (case auto_ban ch of None \<Rightarrow> 1 | Some a \<Rightarrow> a),
       f_status = ch_status ch, f_status_code_mapping = Some (or_empty (status_code_mapping ch)),
       f_tag = Some (or_empty (ch_tag ch)), f_remark = Some (or_empty (remark ch)),
       f_setting = Some (or_empty (setting ch)), f_param_override = Some (or_empty (param_override ch)),
       f_header_override = Some (or_empty (header_override ch)),
       f_settings = Some (if or_empty (ch_settings ch) \<noteq> [] then or_empty (ch_settings ch) else ''{}''),
       f_other = Some (other ch), f_multi_key_mode = Some Single,
       f_multi_key_type = Some (multi_key_mode (chan_info ch)),
       f_batch_add_set_key_prefix_2_name = Some False, f_key_mode = Some Append,
       f_force_format = js_or (js_get extra ''force_format'') (JBool False),
       f_thinking_to_content = js_or (js_get extra ''thinking_to_content'') (JBool False),
       f_proxy = js_or (js_get extra ''proxy'') (JStr []),
       f_pass_through_body_enabled = js_or (js_get extra ''pass_through_body_enabled'') (JBool False),
       f_system_prompt = js_or (js_get extra ''system_prompt'') (JStr []),
       f_system_prompt_override = js_or (js_get extra ''system_prompt_override'') (JBool False),
       f_is_enterprise_account = flag parsed ''openrouter_enterprise'',
       f_vertex_key_type = js_or (js_get parsed ''vertex_key_type'') (JStr ''json''),
       f_aws_key_type = js_or (js_get parsed ''aws_key_type'') (JStr ''ak_sk''),
       f_azure_responses_version = js_or (js_get parsed ''azure_responses_version'') (JStr []),
       f_allow_service_tier = flag parsed ''allow_service_tier'',
       f_disable_store = flag parsed ''disable_store'',
       f_allow_safety_identifier = flag parsed ''allow_safety_identifier'',
       f_allow_include_obfuscation = flag parsed ''allow_include_obfuscation'',
       f_allow_inference_geo = flag parsed ''allow_inference_geo'',
       f_allow_speed = flag parsed ''allow_speed'',
       f_claude_beta_query = flag parsed ''claude_beta_query'',
       f_upstream_model_update_check_enabled = flag parsed ''upstream_model_update_check_enabled'',
       f_upstream_model_update_auto_sync_enabled = flag parsed ''upstream_model_update_auto_sync_enabled'',
       f_upstream_model_update_ignored_models =
         Some (ignored_models_text (js_get parsed ''upstream_model_update_ignored_models''))\<rparr>)"

subsection \<open>The two settings texts\<close>

definition setting_props :: "channel_form \<Rightarrow> props" where
  "setting_props f =
     [(''force_format'', js_or (f_force_format f) (JBool False)),
      (''thinking_to_content'', js_or (f_thinking_to_content f) (JBool False)),
      (''proxy'', js_or (f_proxy f) (JStr [])),
      (''pass_through_body_enabled'', js_or (f_pass_through_body_enabled f) (JBool False)),
      (''system_prompt'', js_or (f_system_prompt f) (JStr [])),
      (''system_prompt_override'', js_or (f_system_prompt_override f) (JBool False))]"

definition buildSettingJSON :: "channel_form \<Rightarrow> string" where
  "buildSettingJSON f = json_text (JObj (setting_props f))"

text \<open>The settings the form starts from.\<close>

definition existing_settings :: "channel_form \<Rightarrow> jsval" where
  "existing_settings f =
     (if or_empty (f_settings f) \<noteq> [] \<and> or_empty (f_settings f) \<noteq> ''{}'' then
        (case json_parse (or_empty (f_settings f)) of None \<Rightarrow> JObj [] | Some v \<Rightarrow> v)
      else JObj [])"

text \<open>A property that a channel type has, and that every other type removes.\<close>

definition put_or_delete :: "bool \<Rightarrow> string \<Rightarrow> jsval \<Rightarrow> props \<Rightarrow> props" where
  "put_or_delete b k v obj = (if b then obj_put k v obj else obj_delete k obj)"

definition is_true :: "jsval \<Rightarrow> jsval" where
  "is_true v = JBool (v = JBool True)"

definition MODEL_FETCHABLE_TYPES :: "int list" where
  "MODEL_FETCHABLE_TYPES = [1, 4, 14, 17, 20, 23, 24, 25, 26, 27, 31, 34, 35, 40, 42, 43, 47, 48]"

definition type_settings :: "channel_form \<Rightarrow> props \<Rightarrow> props" where
  "type_settings f obj =
     (let t = f_type f;
          obj = put_or_delete (t = 41) ''vertex_key_type'' (js_or (f_vertex_key_type f) (JStr ''json'')) obj;
          obj = put_or_delete (t = 3 \<and> truthy (f_azure_responses_version f))
                  ''azure_responses_version'' (f_azure_responses_version f) obj;
          obj = put_or_delete (t = 20) ''openrouter_enterprise'' (is_true (f_is_enterprise_account f)) obj;
          obj = put_or_delete (t = 33) ''aws_key_type'' (js_or (f_aws_key_type f) (JStr ''ak_sk'')) obj;
          obj = put_or_delete (t = 1 \<or> t = 14) ''allow_service_tier'' (is_true (f_allow_service_tier f)) obj;
          obj = (if t = 1 then
                   obj_put ''allow_inference_geo'' (is_true (f_allow_inference_geo f))
                     (obj_put ''allow_include_obfuscation'' (is_true (f_allow_include_obfuscation f))
                       (obj_put ''allow_safety_identifier'' (is_true (f_allow_safety_identifier f))
                         (obj_put ''disable_store'' (is_true (f_disable_store f)) obj)))
                 else
                   (let obj = obj_delete ''disable_store'' obj;
                        obj = obj_delete ''allow_safety_identifier'' obj;
                        obj = obj_delete ''allow_include_obfuscation'' obj
                    in if t \<noteq> 14 then obj_delete ''allow_inference_geo'' obj else obj))
      in if t = 14 then
           obj_put ''claude_beta_query'' (is_true (f_claude_beta_query f))
             (obj_put ''allow_speed'' (is_true (f_allow_speed f))
               (obj_put ''allow_inference_geo'' (is_true (f_allow_inference_geo f)) obj))
         else obj_delete ''claude_beta_query'' (obj_delete ''allow_speed'' obj))"

definition is_array :: "jsval \<Rightarrow> bool" where
  "is_array v = (case v of JArr vs \<Rightarrow> True | _ \<Rightarrow> False)"

definition is_number :: "jsval \<Rightarrow> bool" where
  "is_number v = (case v of JNum n \<Rightarrow> True | _ \<Rightarrow> False)"

definition upstream_update :: "channel_form \<Rightarrow> props \<Rightarrow> props" where
  "upstream_update f obj =
     (if f_type f \<in> set MODEL_FETCHABLE_TYPES then
        (let obj = obj_put ''upstream_model_update_check_enabled''
                     (is_true (f_upstream_model_update_check_enabled f)) obj;
             obj = obj_put ''upstream_model_update_auto_sync_enabled''
                     (JBool (obj_get obj ''upstream_model_update_check_enabled'' = JBool True
                             \<and> f_upstream_model_update_auto_sync_enabled f = JBool True)) obj;
             obj = obj_put ''upstream_model_update_ignored_models''
                     (JArr (map JStr (uniq (csv_parts (or_empty (f_upstream_model_update_ignored_models f)))))) obj;
             obj = (if \<not> is_array (obj_get obj ''upstream_model_update_last_detected_models'')
                       \<or> obj_get obj ''upstream_model_update_check_enabled'' \<noteq> JBool True
                    then obj_put ''upstream_model_update_last_detected_models'' (JArr []) obj else obj)
         in if \<not> is_number (obj_get obj ''upstream_model_update_last_check_time'')
            then obj_put ''upstream_model_update_last_check_time'' (int_val 0) obj else obj)
      else obj)"

text \<open>An array keeps its elements: named properties set on it are not part of its text.\<close>

definition buildSettingsJSON :: "channel_form \<Rightarrow> string option" where
  "buildSettingsJSON f =
     (case existing_settings f of
        JObj obj \<Rightarrow> Some (json_text (JObj (upstream_update f (type_settings f obj))))
      | JArr vs \<Rightarrow> Some (json_text (JArr vs))
      | _ \<Rightarrow> None)"

subsection \<open>Payloads\<close>

definition or_null :: "string option \<Rightarrow> jsval" where
  "or_null s = (if or_empty s \<noteq> [] then JStr (or_empty s) else JNull)"

definition rat_val :: "rat \<Rightarrow> jsval" where
  "rat_val r = JNum (Fin r)"

definition number_or_null :: "rat option \<Rightarrow> jsval" where
  "number_or_null n = (if or_zero n \<noteq> 0 then rat_val (or_zero n) else JNull)"

definition empty_to_null :: "props \<Rightarrow> props" where
  "empty_to_null ps = map (\<lambda>(k, v). if v = JStr [] then (k, JNull) else (k, v)) ps"

record create_payload =
  p_mode :: add_mode
  p_multi_key_mode :: "key_select option"
  p_batch_add_set_key_prefix_2_name :: "bool option"
  p_channel :: props

definition create_props :: "channel_form \<Rightarrow> string \<Rightarrow> props" where
  "create_props f settings =
     [(''name'', JStr (f_name f)),
      (''type'', int_val (f_type f)),
      (''base_url'', or_null (f_base_url f)),
      (''key'', JStr (f_key f)),
      (''openai_organization'', or_null (f_openai_organization f)),
      (''models'', JStr (f_models f)),
      (''group'', JStr (formatGroups (f_group f))),
      (''model_mapping'', or_null (f_model_mapping f)),
      (''priority'', number_or_null (f_priority f)),
      (''weight'', number_or_null (f_weight f)),
      (''test_model'', or_null (f_test_model f)),
      (''auto_ban'', int_val (case f_auto_ban f of None \<Rightarrow> 1 | Some a \<Rightarrow> a)),
      (''status'', int_val (f_status f)),
      (''status_code_mapping'', or_null (f_status_code_mapping f)),
      (''tag'', or_null (f_tag f)),
      (''remark'', JStr (or_empty (f_remark f))),
      (''setting'', JStr (buildSettingJSON f)),
      (''param_override'', or_null (f_param_override f)),
      (''header_override'', or_null (f_header_override f)),
      (''settings'', JStr settings),
      (''other'', JStr (or_empty (f_other f)))]"

definition transformFormDataToCreatePayload :: "channel_form \<Rightarrow> create_payload option" where
  "transformFormDataToCreatePayload f =
     map_option
       (\<lambda>settings.
          (let mode = (case f_multi_key_mode f of None \<Rightarrow> Single | Some m \<Rightarrow> m) in
           \<lparr>p_mode = mode,
            p_multi_key_mode = (if mode = Multi_To_Single then f_multi_key_type f else None),
            p_batch_add_set_key_prefix_2_name =
              (if mode = Batch then f_batch_add_set_key_prefix_2_name f else None),
            p_channel = empty_to_null (create_props f settings)\<rparr>))
       (buildSettingsJSON f)"

text \<open>The text fields that an update clears with an explicit empty text.\<close>

definition clearable :: "channel_form \<Rightarrow> (string \<times> string option) list" where
  "clearable f =
     [(''base_url'', f_base_url f), (''openai_organization'', f_openai_organization f),
      (''test_model'', f_test_model f), (''tag'', f_tag f), (''remark'', f_remark f),
      (''model_mapping'', f_model_mapping f), (''status_code_mapping'', f_status_code_mapping f),
      (''param_override'', f_param_override f), (''header_override'', f_header_override f)]"

definition update_props :: "channel_form \<Rightarrow> int \<Rightarrow> string \<Rightarrow> props" where
  "update_props f channelId settings =
     [(''id'', int_val channelId),
      (''name'', JStr (f_name f)),
      (''type'', int_val (f_type f)),
      (''base_url'', or_null (f_base_url f)),
      (''openai_organization'', or_null (f_openai_organization f)),
      (''models'', JStr (f_models f)),
      (''group'', JStr (formatGroups (f_group f))),
      (''model_mapping'', or_null (f_model_mapping f)),
      (''priority'', rat_val (or_zero (f_priority f))),
      (''weight'', rat_val (or_zero (f_weight f))),
      (''test_model'', or_null (f_test_model f)),
      (''auto_ban'', int_val (case f_auto_ban f of None \<Rightarrow> 1 | Some a \<Rightarrow> a)),
      (''status'', int_val (f_status f)),
      (''status_code_mapping'', or_null (f_status_code_mapping f)),
      (''tag'', or_null (f_tag f)),
      (''remark'', JStr (or_empty (f_remark f))),
      (''setting'', JStr (buildSettingJSON f)),
      (''param_override'', or_null (f_param_override f)),
      (''header_override'', or_null (f_header_override f)),
      (''settings'', JStr settings),
      (''other'', JStr (or_empty (f_other f)))]"

definition transformFormDataToUpdatePayload :: "channel_form \<Rightarrow> int \<Rightarrow> props option" where
  "transformFormDataToUpdatePayload f channelId =
     map_option
       (\<lambda>settings.
          (let payload = update_props f channelId settings;
               payload = (if f_key f \<noteq> [] \<and> trim (f_key f) \<noteq> []
                          then obj_put ''key'' (JStr (f_key f)) payload else payload);
               payload = empty_to_null payload
           in foldl (\<lambda>p (k, s). obj_put k (JStr (or_empty s)) p) payload (clearable f)))
       (buildSettingsJSON f)"

definition validateJSON :: "string \<Rightarrow> bool" where
  "validateJSON value = (if value = [] \<or> trim value = [] then True else json_parse value \<noteq> None)"

definition validateModelMapping :: "string \<Rightarrow> bool" where
  "validateModelMapping value = (if value = [] \<or> trim value = [] then True else validateJSON value)"

subsection \<open>Reading the settings texts back\<close>

lemma schema_values:
  "optional_bool v \<Longrightarrow> js_or v (JBool False) = is_true v"
  "optional_bool v \<Longrightarrow> wf_json (js_or v (JBool False))"
  "optional_string v \<Longrightarrow> wf_json (js_or v (JStr s))"
  "optional_enum es v \<Longrightarrow> wf_json (js_or v (JStr s))"
  "optional_string v \<Longrightarrow> truthy v \<Longrightarrow> wf_json v"
  "wf_json (is_true w)"
  by (auto simp: optional_bool_def optional_string_def optional_enum_def js_or_def is_true_def
      split: jsval.splits)

lemma js_or_js_or: "js_or (js_or v w) w = js_or v w"
  by (simp add: js_or_def)

lemma setting_props_wf: "channelFormSchema f \<Longrightarrow> wf_obj (setting_props f)"
proof -
  assume "channelFormSchema f"
  then have "list_all (\<lambda>(k, v). wf_json v) (setting_props f)"
    by (auto simp: channelFormSchema_def setting_props_def schema_values)
  moreover have "map fst (setting_props f) = [''force_format'', ''thinking_to_content'', ''proxy'',
    ''pass_through_body_enabled'', ''system_prompt'', ''system_prompt_override'']"
    by (simp add: setting_props_def)
  moreover have "distinct [''force_format'', ''thinking_to_content'', ''proxy'',
    ''pass_through_body_enabled'', ''system_prompt'', ''system_prompt_override'']
    \<and> sorted_wrt key_before [''force_format'', ''thinking_to_content'', ''proxy'',
    ''pass_through_body_enabled'', ''system_prompt'', ''system_prompt_override'']"
    by code_simp
  ultimately show ?thesis by (simp add: wf_obj_def wf_props_def)
qed

lemma stored_object: "wf_obj ps \<Longrightarrow> stored_json (Some (json_text (JObj ps))) = JObj ps"
  using wf_obj_parse [of ps] by (simp add: stored_json_def)

lemma transform_extra:
  "f_force_format (transformChannelToFormDefaults ch)
     = js_or (js_get (stored_json (setting ch)) ''force_format'') (JBool False)"
  "f_thinking_to_content (transformChannelToFormDefaults ch)
     = js_or (js_get (stored_json (setting ch)) ''thinking_to_content'') (JBool False)"
  "f_proxy (transformChannelToFormDefaults ch) = js_or (js_get (stored_json (setting ch)) ''proxy'') (JStr [])"
  "f_pass_through_body_enabled (transformChannelToFormDefaults ch)
     = js_or (js_get (stored_json (setting ch)) ''pass_through_body_enabled'') (JBool False)"
  "f_system_prompt (transformChannelToFormDefaults ch)
     = js_or (js_get (stored_json (setting ch)) ''system_prompt'') (JStr [])"
  "f_system_prompt_override (transformChannelToFormDefaults ch)
     = js_or (js_get (stored_json (setting ch)) ''system_prompt_override'') (JBool False)"
  by (simp_all add: transformChannelToFormDefaults_def Let_def)

text \<open>The extra settings of a valid form come back when the channel is opened again from the text
  that was saved: flags as they were, an absent flag as false, an absent text as empty.\<close>

theorem extra_settings_roundtrip:
  assumes "channelFormSchema f" "setting ch = Some (buildSettingJSON f)"
  shows "let g = transformChannelToFormDefaults ch in
    f_force_format g = is_true (f_force_format f)
    \<and> f_thinking_to_content g = is_true (f_thinking_to_content f)
    \<and> f_proxy g = js_or (f_proxy f) (JStr [])
    \<and> f_pass_through_body_enabled g = is_true (f_pass_through_body_enabled f)
    \<and> f_system_prompt g = js_or (f_system_prompt f) (JStr [])
    \<and> f_system_prompt_override g = is_true (f_system_prompt_override f)
    \<and> buildSettingJSON g = buildSettingJSON f"
proof -
  define g where "g = transformChannelToFormDefaults ch"
  have st: "stored_json (setting ch) = JObj (setting_props f)"
    using stored_object [OF setting_props_wf [OF assms(1)]] assms(2) by (simp add: buildSettingJSON_def)
  have g: "f_force_format g = js_or (f_force_format f) (JBool False)"
    "f_thinking_to_content g = js_or (f_thinking_to_content f) (JBool False)"
    "f_proxy g = js_or (f_proxy f) (JStr [])"
    "f_pass_through_body_enabled g = js_or (f_pass_through_body_enabled f) (JBool False)"
    "f_system_prompt g = js_or (f_system_prompt f) (JStr [])"
    "f_system_prompt_override g = js_or (f_system_prompt_override f) (JBool False)"
    by (simp_all add: g_def transform_extra st setting_props_def obj_get_def js_or_js_or)
  then have "setting_props g = setting_props f" by (simp add: setting_props_def js_or_js_or)
  then have "buildSettingJSON g = buildSettingJSON f" by (simp only: buildSettingJSON_def)
  with g assms(1) show ?thesis
    unfolding g_def [symmetric] Let_def by (simp add: schema_values(1) channelFormSchema_def)
qed

theorem extra_settings_roundtrip_witness:
  "let f = CHANNEL_FORM_DEFAULT_VALUES\<lparr>f_name := ''c'', f_models := ''m'', f_force_format := JBool True,
             f_proxy := JStr ''http://p''\<rparr>;
       g = transformChannelToFormDefaults (sample_channel\<lparr>setting := Some (buildSettingJSON f)\<rparr>)
   in channelFormSchema f \<and> f_force_format g = JBool True \<and> f_proxy g = JStr ''http://p''
      \<and> f_system_prompt g = JStr []"
proof -
  let ?f = "CHANNEL_FORM_DEFAULT_VALUES\<lparr>f_name := ''c'', f_models := ''m'', f_force_format := JBool True,
             f_proxy := JStr ''http://p''\<rparr>"
  let ?ch = "sample_channel\<lparr>setting := Some (buildSettingJSON ?f)\<rparr>"
  have "channelFormSchema ?f"
    by (simp add: channelFormSchema_def CHANNEL_FORM_DEFAULT_VALUES_def optional_bool_def
        optional_string_def optional_enum_def js_length_def)
  moreover from this have "f_force_format (transformChannelToFormDefaults ?ch) = is_true (f_force_format ?f)"
    "f_proxy (transformChannelToFormDefaults ?ch) = js_or (f_proxy ?f) (JStr [])"
    "f_system_prompt (transformChannelToFormDefaults ?ch) = js_or (f_system_prompt ?f) (JStr [])"
    using extra_settings_roundtrip [of ?f ?ch] by (simp_all add: Let_def)
  ultimately show ?thesis
    unfolding Let_def by (simp add: CHANNEL_FORM_DEFAULT_VALUES_def is_true_def js_or_def)
qed

text \<open>The properties of the settings object that the form owns.\<close>

definition type_keys :: "string list" where
  "type_keys = [''vertex_key_type'', ''azure_responses_version'', ''openrouter_enterprise'', ''aws_key_type'',
     ''allow_service_tier'', ''disable_store'', ''allow_safety_identifier'', ''allow_include_obfuscation'',
     ''allow_inference_geo'', ''allow_speed'', ''claude_beta_query'']"

definition upstream_keys :: "string list" where
  "upstream_keys = [''upstream_model_update_check_enabled'', ''upstream_model_update_auto_sync_enabled'',
     ''upstream_model_update_ignored_models'', ''upstream_model_update_last_detected_models'',
     ''upstream_model_update_last_check_time'']"

lemma put_or_delete_get:
  "obj_get (put_or_delete b k v obj) k' = (if k' = k then (if b then v else JUndefined) else obj_get obj k')"
  by (simp add: put_or_delete_def)

lemma put_or_delete_wf: "wf_obj obj \<Longrightarrow> (b \<Longrightarrow> wf_json v) \<Longrightarrow> wf_obj (put_or_delete b k v obj)"
  by (simp add: put_or_delete_def)

lemma type_settings_wf:
  assumes "channelFormSchema f" "wf_obj obj"
  shows "wf_obj (type_settings f obj)"
  using assms
  by (auto simp: type_settings_def Let_def channelFormSchema_def schema_values
      intro!: put_or_delete_wf wf_obj_put wf_obj_delete)

lemma upstream_update_wf: "wf_obj obj \<Longrightarrow> wf_obj (upstream_update f obj)"
  by (auto simp: upstream_update_def Let_def schema_values list_all_iff intro!: wf_obj_put)

lemma type_settings_other: "k \<notin> set type_keys \<Longrightarrow> obj_get (type_settings f obj) k = obj_get obj k"
  by (simp add: type_keys_def type_settings_def Let_def put_or_delete_get)

lemma upstream_update_other: "k \<notin> set upstream_keys \<Longrightarrow> obj_get (upstream_update f obj) k = obj_get obj k"
  by (simp add: upstream_keys_def upstream_update_def Let_def)

text \<open>The value of an owned property after saving, by channel type.\<close>

definition owned_value :: "channel_form \<Rightarrow> string \<Rightarrow> jsval" where
  "owned_value f k =
     (let t = f_type f; only = (\<lambda>b v. if b then v else JUndefined) in
      case map_of
        [(''vertex_key_type'', only (t = 41) (js_or (f_vertex_key_type f) (JStr ''json''))),
         (''azure_responses_version'', only (t = 3 \<and> truthy (f_azure_responses_version f)) (f_azure_responses_version f)),
         (''openrouter_enterprise'', only (t = 20) (is_true (f_is_enterprise_account f))),
         (''aws_key_type'', only (t = 33) (js_or (f_aws_key_type f) (JStr ''ak_sk''))),
         (''allow_service_tier'', only (t \<in> {1, 14}) (is_true (f_allow_service_tier f))),
         (''disable_store'', only (t = 1) (is_true (f_disable_store f))),
         (''allow_safety_identifier'', only (t = 1) (is_true (f_allow_safety_identifier f))),
         (''allow_include_obfuscation'', only (t = 1) (is_true (f_allow_include_obfuscation f))),
         (''allow_inference_geo'', only (t \<in> {1, 14}) (is_true (f_allow_inference_geo f))),
         (''allow_speed'', only (t = 14) (is_true (f_allow_speed f))),
         (''claude_beta_query'', only (t = 14) (is_true (f_claude_beta_query f)))] k of
        Some v \<Rightarrow> v | None \<Rightarrow> JUndefined)"

lemma type_settings_owned: "k \<in> set type_keys \<Longrightarrow> obj_get (type_settings f obj) k = owned_value f k"
  unfolding type_keys_def
  by (auto simp: owned_value_def type_settings_def Let_def put_or_delete_get)

text \<open>Saving a valid form whose stored settings are a JSON object always gives a settings text, and
  that text holds the properties of the form's channel type, none of another type, and every property
  the form does not own with its old value.\<close>

theorem settings_text:
  assumes "channelFormSchema f" "existing_settings f = JObj obj" "wf_obj obj"
  shows "\<exists>t new. buildSettingsJSON f = Some t \<and> json_parse t = Some (JObj new)
    \<and> list_all (\<lambda>k. obj_get new k = owned_value f k) type_keys
    \<and> (\<forall>k. k \<notin> set type_keys \<union> set upstream_keys \<longrightarrow> obj_get new k = obj_get obj k)"
proof -
  let ?new = "upstream_update f (type_settings f obj)"
  have "wf_obj ?new" using assms by (simp add: type_settings_wf upstream_update_wf)
  then have "json_parse (json_text (JObj ?new)) = Some (JObj ?new)" by (rule wf_obj_parse)
  moreover have "buildSettingsJSON f = Some (json_text (JObj ?new))"
    by (simp only: buildSettingsJSON_def assms(2) jsval.case)
  moreover have "k \<notin> set upstream_keys" if "k \<in> set type_keys" for k
    using that by (auto simp: type_keys_def upstream_keys_def)
  ultimately show ?thesis
    by (auto simp: list_all_iff type_settings_owned type_settings_other upstream_update_other)
qed

definition saved_settings :: "channel_form \<Rightarrow> props \<Rightarrow> props" where
  "saved_settings f obj = upstream_update f (type_settings f obj)"

lemma saved_owned: "k \<in> set type_keys \<Longrightarrow> obj_get (saved_settings f obj) k = owned_value f k"
proof -
  assume k: "k \<in> set type_keys"
  then have "k \<notin> set upstream_keys" by (auto simp: type_keys_def upstream_keys_def)
  with k show ?thesis by (simp add: saved_settings_def upstream_update_other type_settings_owned)
qed

lemma transform_typed:
  fixes ch :: channel
  defines "g \<equiv> transformChannelToFormDefaults ch" and "v \<equiv> stored_json (ch_settings ch)"
  shows "f_type g = ch_type ch" "f_settings g = Some (if or_empty (ch_settings ch) \<noteq> [] then or_empty (ch_settings ch) else ''{}'')"
    "f_vertex_key_type g = js_or (js_get v ''vertex_key_type'') (JStr ''json'')"
    "f_aws_key_type g = js_or (js_get v ''aws_key_type'') (JStr ''ak_sk'')"
    "f_azure_responses_version g = js_or (js_get v ''azure_responses_version'') (JStr [])"
    "f_is_enterprise_account g = flag v ''openrouter_enterprise''"
    "f_allow_service_tier g = flag v ''allow_service_tier''" "f_disable_store g = flag v ''disable_store''"
    "f_allow_safety_identifier g = flag v ''allow_safety_identifier''"
    "f_allow_include_obfuscation g = flag v ''allow_include_obfuscation''"
    "f_allow_inference_geo g = flag v ''allow_inference_geo''" "f_allow_speed g = flag v ''allow_speed''"
    "f_claude_beta_query g = flag v ''claude_beta_query''"
    "f_upstream_model_update_check_enabled g = flag v ''upstream_model_update_check_enabled''"
    "f_upstream_model_update_auto_sync_enabled g = flag v ''upstream_model_update_auto_sync_enabled''"
    "f_upstream_model_update_ignored_models g
       = Some (ignored_models_text (js_get v ''upstream_model_update_ignored_models''))"
  by (simp_all add: g_def v_def transformChannelToFormDefaults_def Let_def)

lemma put_or_delete_same:
  "wf_obj new \<Longrightarrow> obj_get new k = (if b then v else JUndefined) \<Longrightarrow> (b \<Longrightarrow> v \<noteq> JUndefined)
   \<Longrightarrow> put_or_delete b k v new = new"
  by (simp add: put_or_delete_def obj_put_same obj_delete_absent)

lemma defined_values: "js_or v (JStr s) \<noteq> JUndefined" "is_true v \<noteq> JUndefined" "truthy v \<Longrightarrow> v \<noteq> JUndefined"
  by (auto simp: js_or_def is_true_def)

lemma owned_values:
  "owned_value f ''vertex_key_type''
     = (if f_type f = 41 then js_or (f_vertex_key_type f) (JStr ''json'') else JUndefined)"
  "owned_value f ''azure_responses_version''
     = (if f_type f = 3 \<and> truthy (f_azure_responses_version f) then f_azure_responses_version f else JUndefined)"
  "owned_value f ''openrouter_enterprise''
     = (if f_type f = 20 then is_true (f_is_enterprise_account f) else JUndefined)"
  "owned_value f ''aws_key_type''
     = (if f_type f = 33 then js_or (f_aws_key_type f) (JStr ''ak_sk'') else JUndefined)"
  "owned_value f ''allow_service_tier''
     = (if f_type f = 1 \<or> f_type f = 14 then is_true (f_allow_service_tier f) else JUndefined)"
  "owned_value f ''disable_store'' = (if f_type f = 1 then is_true (f_disable_store f) else JUndefined)"
  "owned_value f ''allow_safety_identifier''
     = (if f_type f = 1 then is_true (f_allow_safety_identifier f) else JUndefined)"
  "owned_value f ''allow_include_obfuscation''
     = (if f_type f = 1 then is_true (f_allow_include_obfuscation f) else JUndefined)"
  "owned_value f ''allow_inference_geo''
     = (if f_type f = 1 \<or> f_type f = 14 then is_true (f_allow_inference_geo f) else JUndefined)"
  "owned_value f ''allow_speed'' = (if f_type f = 14 then is_true (f_allow_speed f) else JUndefined)"
  "owned_value f ''claude_beta_query'' = (if f_type f = 14 then is_true (f_claude_beta_query f) else JUndefined)"
  by (simp_all add: owned_value_def Let_def)

lemma type_settings_same:
  assumes wf: "wf_obj new" and owned: "list_all (\<lambda>k. obj_get new k = owned_value g k) type_keys"
  shows "type_settings g new = new"
proof -
  note new = owned [unfolded type_keys_def list.pred_inject owned_values]
  have put: "obj_put k v new = new" if "obj_get new k = v" "v \<noteq> JUndefined" for k v
    using obj_put_same [OF wf that] .
  have del: "obj_delete k new = new" if "obj_get new k = JUndefined" for k
    using obj_delete_absent [OF wf that] .
  note same = put_or_delete_same [OF wf]
  have common: "put_or_delete (f_type g = 41) ''vertex_key_type'' (js_or (f_vertex_key_type g) (JStr ''json'')) new = new"
    "put_or_delete (f_type g = 3 \<and> truthy (f_azure_responses_version g)) ''azure_responses_version''
       (f_azure_responses_version g) new = new"
    "put_or_delete (f_type g = 20) ''openrouter_enterprise'' (is_true (f_is_enterprise_account g)) new = new"
    "put_or_delete (f_type g = 33) ''aws_key_type'' (js_or (f_aws_key_type g) (JStr ''ak_sk'')) new = new"
    "put_or_delete (f_type g = 1 \<or> f_type g = 14) ''allow_service_tier'' (is_true (f_allow_service_tier g)) new = new"
    using new by (auto intro!: same simp: defined_values)
  consider "f_type g = 1" | "f_type g = 14" | "f_type g \<noteq> 1" "f_type g \<noteq> 14" by blast
  then show ?thesis
    using new unfolding type_settings_def Let_def common
    by cases (simp_all add: put del defined_values)
qed

lemma owned_value_stable:
  assumes v: "stored_json (ch_settings ch) = JObj new" "ch_type ch = f_type f"
    and owned: "list_all (\<lambda>k. obj_get new k = owned_value f k) type_keys"
  shows "list_all (\<lambda>k. owned_value (transformChannelToFormDefaults ch) k = owned_value f k) type_keys"
proof -
  note new = owned [unfolded type_keys_def list.pred_inject owned_values]
  show ?thesis
    using new unfolding type_keys_def list.pred_inject owned_values transform_typed v
    by (auto simp: flag_def is_true_def js_or_def)
qed

lemma upstream_update_same:
  assumes "wf_obj new"
    and "f_type g \<in> set MODEL_FETCHABLE_TYPES \<Longrightarrow>
      obj_get new ''upstream_model_update_check_enabled'' = is_true (f_upstream_model_update_check_enabled g)
      \<and> obj_get new ''upstream_model_update_auto_sync_enabled''
        = JBool (f_upstream_model_update_check_enabled g = JBool True
            \<and> f_upstream_model_update_auto_sync_enabled g = JBool True)
      \<and> obj_get new ''upstream_model_update_ignored_models''
        = JArr (map JStr (uniq (csv_parts (or_empty (f_upstream_model_update_ignored_models g)))))
      \<and> is_array (obj_get new ''upstream_model_update_last_detected_models'')
      \<and> (f_upstream_model_update_check_enabled g = JBool True
         \<or> obj_get new ''upstream_model_update_last_detected_models'' = JArr [])
      \<and> is_number (obj_get new ''upstream_model_update_last_check_time'')"
  shows "upstream_update g new = new"
proof (cases "f_type g \<in> set MODEL_FETCHABLE_TYPES")
  case True
  note new = assms(2) [OF True]
  have same: "obj_put k v new = new" if "obj_get new k = v" "v \<noteq> JUndefined" for k v
    using obj_put_same [OF assms(1) that] .
  show ?thesis
    using True new by (auto simp: upstream_update_def Let_def same is_true_def)
qed (simp add: upstream_update_def)

lemma saved_upstream:
  assumes "f_type f \<in> set MODEL_FETCHABLE_TYPES"
  shows "obj_get (saved_settings f obj) ''upstream_model_update_check_enabled''
      = is_true (f_upstream_model_update_check_enabled f)
    \<and> obj_get (saved_settings f obj) ''upstream_model_update_auto_sync_enabled''
      = JBool (f_upstream_model_update_check_enabled f = JBool True
          \<and> f_upstream_model_update_auto_sync_enabled f = JBool True)
    \<and> obj_get (saved_settings f obj) ''upstream_model_update_ignored_models''
      = JArr (map JStr (uniq (csv_parts (or_empty (f_upstream_model_update_ignored_models f)))))
    \<and> is_array (obj_get (saved_settings f obj) ''upstream_model_update_last_detected_models'')
    \<and> (f_upstream_model_update_check_enabled f = JBool True
       \<or> obj_get (saved_settings f obj) ''upstream_model_update_last_detected_models'' = JArr [])
    \<and> is_number (obj_get (saved_settings f obj) ''upstream_model_update_last_check_time'')"
  using assms
  by (simp add: saved_settings_def upstream_update_def Let_def is_true_def is_array_def is_number_def int_val_def)

text \<open>C20. A valid form whose channel is saved, opened again and saved once more without an edit gives
  exactly the same settings text.\<close>

theorem settings_fixpoint:
  assumes "channelFormSchema f" "existing_settings f = JObj obj" "wf_obj obj"
    and "ch_settings ch = buildSettingsJSON f" "ch_type ch = f_type f"
  shows "buildSettingsJSON (transformChannelToFormDefaults ch) = buildSettingsJSON f"
proof -
  let ?new = "saved_settings f obj" and ?g = "transformChannelToFormDefaults ch"
  let ?t = "json_text (JObj ?new)"
  have wf: "wf_obj ?new" using assms by (simp add: saved_settings_def type_settings_wf upstream_update_wf)
  have saved: "buildSettingsJSON f = Some ?t"
    by (simp only: buildSettingsJSON_def saved_settings_def assms(2) jsval.case)
  have stored: "stored_json (ch_settings ch) = JObj ?new"
    unfolding assms(4) saved by (rule stored_object [OF wf])
  have "existing_settings ?g = JObj ?new"
  proof (cases "?t = ''{}''")
    case True
    then have "json_parse ''{}'' = Some (JObj ?new)" using wf_obj_parse [OF wf] by simp
    moreover have "json_parse ''{}'' = Some (JObj [])" by code_simp
    ultimately show ?thesis
      using True by (simp add: existing_settings_def transform_typed assms(4) saved or_empty_def)
  next
    case False
    then show ?thesis
      using wf_obj_parse [OF wf]
      by (simp add: existing_settings_def transform_typed assms(4) saved or_empty_def)
  qed
  moreover have "type_settings ?g ?new = ?new"
    using owned_value_stable [OF stored assms(5), unfolded list_all_iff]
    by (intro type_settings_same [OF wf]) (simp add: list_all_iff saved_owned)
  moreover have "upstream_update ?g ?new = ?new"
  proof (rule upstream_update_same [OF wf])
    have csv: "uniq (csv_parts (join '','' (uniq (csv_parts u)))) = uniq (csv_parts u)" for u
      using csv_parts_join [of "uniq (csv_parts u)"] by (simp add: list_all_iff csv_parts_items)
    assume "f_type ?g \<in> set MODEL_FETCHABLE_TYPES"
    then have "f_type f \<in> set MODEL_FETCHABLE_TYPES" by (simp add: transform_typed assms(5))
    note new = saved_upstream [OF this, of obj]
    then show "obj_get ?new ''upstream_model_update_check_enabled'' = is_true (f_upstream_model_update_check_enabled ?g)
      \<and> obj_get ?new ''upstream_model_update_auto_sync_enabled''
        = JBool (f_upstream_model_update_check_enabled ?g = JBool True
            \<and> f_upstream_model_update_auto_sync_enabled ?g = JBool True)
      \<and> obj_get ?new ''upstream_model_update_ignored_models''
        = JArr (map JStr (uniq (csv_parts (or_empty (f_upstream_model_update_ignored_models ?g)))))
      \<and> is_array (obj_get ?new ''upstream_model_update_last_detected_models'')
      \<and> (f_upstream_model_update_check_enabled ?g = JBool True
         \<or> obj_get ?new ''upstream_model_update_last_detected_models'' = JArr [])
      \<and> is_number (obj_get ?new ''upstream_model_update_last_check_time'')"
      by (simp add: transform_typed stored flag_def is_true_def ignored_models_text_def js_string_texts
          csv or_empty_def del: js_string.simps)
  qed
  ultimately show ?thesis
    unfolding saved by (simp only: buildSettingsJSON_def jsval.case)
qed

subsection \<open>Witnesses\<close>

definition azure_form :: channel_form where
  "azure_form = CHANNEL_FORM_DEFAULT_VALUES
     \<lparr>f_name := ''az'', f_type := 3, f_models := ''m'', f_azure_responses_version := JStr ''v1'',
      f_settings := Some ''{\"custom\":7,\"aws_key_type\":\"ak_sk\"}''\<rparr>"

lemma azure_form_schema: "channelFormSchema azure_form"
  by (simp add: azure_form_def channelFormSchema_def CHANNEL_FORM_DEFAULT_VALUES_def optional_bool_def
      optional_string_def optional_enum_def js_length_def)

lemma azure_form_settings:
  "existing_settings azure_form = JObj [(''custom'', int_val 7), (''aws_key_type'', JStr ''ak_sk'')]"
  by code_simp

lemma azure_form_wf: "wf_obj [(''custom'', int_val 7), (''aws_key_type'', JStr ''ak_sk'')]"
  by code_simp

theorem settings_text_witness:
  "channelFormSchema azure_form
   \<and> (\<exists>t new. buildSettingsJSON azure_form = Some t \<and> json_parse t = Some (JObj new)
      \<and> obj_get new ''azure_responses_version'' = JStr ''v1'' \<and> obj_get new ''aws_key_type'' = JUndefined
      \<and> obj_get new ''custom'' = int_val 7)"
proof -
  obtain t new where t: "buildSettingsJSON azure_form = Some t" "json_parse t = Some (JObj new)"
    "list_all (\<lambda>k. obj_get new k = owned_value azure_form k) type_keys"
    "\<forall>k. k \<notin> set type_keys \<union> set upstream_keys \<longrightarrow>
       obj_get new k = obj_get [(''custom'', int_val 7), (''aws_key_type'', JStr ''ak_sk'')] k"
    using settings_text [OF azure_form_schema azure_form_settings azure_form_wf] by blast
  have "''custom'' \<notin> set type_keys \<union> set upstream_keys" by (simp add: type_keys_def upstream_keys_def)
  with t(4) have "obj_get new ''custom'' = int_val 7" by (simp add: obj_get_def)
  moreover have "obj_get new ''azure_responses_version'' = JStr ''v1''" "obj_get new ''aws_key_type'' = JUndefined"
    using t(3) by (simp_all add: type_keys_def owned_values azure_form_def CHANNEL_FORM_DEFAULT_VALUES_def)
  ultimately show ?thesis using t(1,2) azure_form_schema by blast
qed

theorem settings_fixpoint_witness:
  "let ch = sample_channel\<lparr>ch_type := 3, ch_settings := buildSettingsJSON azure_form\<rparr> in
   buildSettingsJSON (transformChannelToFormDefaults ch)
     = Some ''{\"custom\":7,\"azure_responses_version\":\"v1\"}''"
proof -
  let ?ch = "sample_channel\<lparr>ch_type := 3, ch_settings := buildSettingsJSON azure_form\<rparr>"
  have "buildSettingsJSON (transformChannelToFormDefaults ?ch) = buildSettingsJSON azure_form"
    by (rule settings_fixpoint [OF azure_form_schema azure_form_settings azure_form_wf])
      (simp_all add: azure_form_def)
  also have "\<dots> = Some ''{\"custom\":7,\"azure_responses_version\":\"v1\"}''" by code_simp
  finally show ?thesis unfolding Let_def .
qed

subsection \<open>Payloads\<close>

lemma obj_get_empty_to_null:
  "obj_get (empty_to_null ps) k = (if obj_get ps k = JStr [] then JNull else obj_get ps k)"
  by (induction ps) (auto simp: empty_to_null_def obj_get_def)

lemma update_payload_get:
  assumes "transformFormDataToUpdatePayload f i = Some p"
  shows "list_all (\<lambda>(k, s). obj_get p k = JStr (or_empty s)) (clearable f)"
    and "obj_get p ''key'' = (if trim (f_key f) \<noteq> [] then JStr (f_key f) else JUndefined)"
    and "obj_get p ''id'' = int_val i"
    and "obj_get p ''models'' = (if f_models f = [] then JNull else JStr (f_models f))"
proof -
  obtain t where p: "p = foldl (\<lambda>p (k, s). obj_put k (JStr (or_empty s)) p)
      (empty_to_null (if f_key f \<noteq> [] \<and> trim (f_key f) \<noteq> []
         then obj_put ''key'' (JStr (f_key f)) (update_props f i t) else update_props f i t)) (clearable f)"
    using assms by (auto simp: transformFormDataToUpdatePayload_def Let_def)
  show "list_all (\<lambda>(k, s). obj_get p k = JStr (or_empty s)) (clearable f)"
    unfolding p by (simp add: clearable_def)
  show "obj_get p ''key'' = (if trim (f_key f) \<noteq> [] then JStr (f_key f) else JUndefined)"
    unfolding p by (auto simp: clearable_def obj_get_empty_to_null) (simp_all add: update_props_def obj_get_def)
  show "obj_get p ''id'' = int_val i"
    unfolding p by (auto simp: clearable_def obj_get_empty_to_null)
      (simp_all add: update_props_def obj_get_def int_val_def)
  show "obj_get p ''models'' = (if f_models f = [] then JNull else JStr (f_models f))"
    unfolding p by (auto simp: clearable_def obj_get_empty_to_null) (simp_all add: update_props_def obj_get_def)
qed

text \<open>The clearable texts as the channel stores them.\<close>

definition stored_texts :: "channel \<Rightarrow> (string \<times> string option) list" where
  "stored_texts ch =
     [(''base_url'', base_url ch), (''openai_organization'', openai_organization ch),
      (''test_model'', test_model ch), (''tag'', ch_tag ch), (''remark'', remark ch),
      (''model_mapping'', model_mapping ch), (''status_code_mapping'', status_code_mapping ch),
      (''param_override'', param_override ch), (''header_override'', header_override ch)]"

text \<open>C30. Saving an opened channel without an edit sends no key, and sends each of its optional texts as
  it was, an absent one as the empty text that clears it.\<close>

theorem unedited_update:
  assumes "transformFormDataToUpdatePayload (transformChannelToFormDefaults ch) i = Some p"
  shows "obj_get p ''key'' = JUndefined \<and> obj_get p ''id'' = int_val i
    \<and> list_all (\<lambda>(k, s). obj_get p k = JStr (or_empty s)) (stored_texts ch)"
proof -
  have "f_key (transformChannelToFormDefaults ch) = []"
    by (simp add: transformChannelToFormDefaults_def Let_def)
  moreover have "clearable (transformChannelToFormDefaults ch)
    = map (\<lambda>(k, s). (k, Some (or_empty s))) (stored_texts ch)"
    by (simp add: clearable_def stored_texts_def transformChannelToFormDefaults_def Let_def)
  ultimately show ?thesis
    using update_payload_get [OF assms] by (simp add: list_all_iff split_beta or_empty_def)
qed

theorem unedited_update_witness:
  "\<exists>p. transformFormDataToUpdatePayload (transformChannelToFormDefaults sample_channel) 5 = Some p
     \<and> obj_get p ''key'' = JUndefined \<and> obj_get p ''tag'' = JStr ''t'' \<and> obj_get p ''remark'' = JStr []"
proof -
  have "existing_settings (transformChannelToFormDefaults sample_channel) = JObj []"
    by (simp add: existing_settings_def transform_typed sample_channel_def or_empty_def)
  then obtain p where p: "transformFormDataToUpdatePayload (transformChannelToFormDefaults sample_channel) 5 = Some p"
    by (auto simp: transformFormDataToUpdatePayload_def buildSettingsJSON_def)
  from p unedited_update [OF p] show ?thesis by (simp add: stored_texts_def sample_channel_def or_empty_def)
qed

text \<open>The payload of a new channel never carries an empty text, names the key selection only for a
  multi-key channel and the name prefix option only for a batch.\<close>

theorem create_payload_shape:
  assumes "transformFormDataToCreatePayload f = Some p"
  shows "list_all (\<lambda>(k, v). v \<noteq> JStr []) (p_channel p)
    \<and> (p_multi_key_mode p \<noteq> None \<longrightarrow> p_mode p = Multi_To_Single)
    \<and> (p_batch_add_set_key_prefix_2_name p \<noteq> None \<longrightarrow> p_mode p = Batch)
    \<and> obj_get (p_channel p) ''key'' = (if f_key f = [] then JNull else JStr (f_key f))"
proof -
  obtain t where t: "p_channel p = empty_to_null (create_props f t)"
    "p_multi_key_mode p = (if p_mode p = Multi_To_Single then f_multi_key_type f else None)"
    "p_batch_add_set_key_prefix_2_name p = (if p_mode p = Batch then f_batch_add_set_key_prefix_2_name f else None)"
    using assms by (auto simp: transformFormDataToCreatePayload_def Let_def)
  have "list_all (\<lambda>(k, v). v \<noteq> JStr []) (empty_to_null ps)" for ps
    by (induction ps) (auto simp: empty_to_null_def split: if_splits)
  moreover have "obj_get (create_props f t) ''key'' = JStr (f_key f)"
    by (simp add: create_props_def obj_get_def)
  ultimately show ?thesis using t by (simp add: obj_get_empty_to_null split: if_splits)
qed

theorem create_payload_shape_witness:
  "\<exists>p. transformFormDataToCreatePayload (azure_form\<lparr>f_key := ''k''\<rparr>) = Some p \<and> p_mode p = Single
     \<and> p_multi_key_mode p = None \<and> obj_get (p_channel p) ''key'' = JStr ''k''"
proof -
  have "existing_settings (azure_form\<lparr>f_key := ''k''\<rparr>) = existing_settings azure_form"
    by (simp add: existing_settings_def)
  then obtain p where p: "transformFormDataToCreatePayload (azure_form\<lparr>f_key := ''k''\<rparr>) = Some p"
    by (auto simp: transformFormDataToCreatePayload_def buildSettingsJSON_def azure_form_settings)
  then have "p_mode p = Single"
    by (auto simp: transformFormDataToCreatePayload_def Let_def azure_form_def CHANNEL_FORM_DEFAULT_VALUES_def)
  with p create_payload_shape [OF p] show ?thesis by auto
qed

end
