(* ===== verification/Model_Mapping.thy ===== *)
theory Model_Mapping
  imports Js_Json
begin

section \<open>Models and model mappings of a channel\<close>

text \<open>
  The model list of a channel as a comma-separated text, and the checks on its model mapping
  (\<open>features/channels/lib/model-mapping-validation.ts\<close>): the models that the mapping redirects
  from and to, the ones the list misses, the ones it exposes.  The second part is the state of the
  upstream model check that a channel's settings carry (\<open>upstream-update-utils.ts\<close>).
\<close>

definition parseModelsString :: "string \<Rightarrow> string list" where
  "parseModelsString s = (if s \<noteq> [] then csv_parts s else [])"

definition formatModelsArray :: "string list \<Rightarrow> string" where
  "formatModelsArray models = join '','' (uniq models)"

definition normalizeModelName :: "string \<Rightarrow> string" where
  "normalizeModelName model = trim model"

definition extractMappingSourceModels :: "string \<Rightarrow> string list" where
  "extractMappingSourceModels modelMapping =
     (let trimmed = trim modelMapping in
      if trimmed = [] then []
      else (case json_object trimmed of None \<Rightarrow> []
            | Some ps \<Rightarrow> uniq (filter (\<lambda>k. k \<noteq> []) (map (trim \<circ> fst) ps))))"

definition string_value :: "jsval \<Rightarrow> string option" where
  "string_value v = (case v of JStr s \<Rightarrow> Some (trim s) | _ \<Rightarrow> None)"

definition extractRedirectModels :: "string \<Rightarrow> string list" where
  "extractRedirectModels modelMapping =
     (let trimmed = trim modelMapping in
      if trimmed = [] then []
      else (case json_object trimmed of None \<Rightarrow> []
            | Some ps \<Rightarrow>
                uniq (filter (\<lambda>v. v \<noteq> []) (List.map_filter (string_value \<circ> snd) ps))))"

text \<open>The loop over the two lists, entered with equal lengths.\<close>

fun models_differ :: "string list \<Rightarrow> string list \<Rightarrow> bool" where
  "models_differ (x # xs) (y # ys) = (if x \<noteq> y then True else models_differ xs ys)"
| "models_differ _ _ = False"

definition hasModelConfigChanged :: "string list \<Rightarrow> string \<Rightarrow> string list \<Rightarrow> string \<Rightarrow> bool" where
  "hasModelConfigChanged currentModels currentModelMapping initialModels initialModelMapping =
     (if length initialModels = 0 \<and> initialModelMapping = [] then True
      else if length currentModels \<noteq> length initialModels then True
      else if models_differ currentModels initialModels then True
      else trim currentModelMapping \<noteq> trim initialModelMapping)"

definition findMissingModelsInMapping :: "string \<Rightarrow> string list \<Rightarrow> string list" where
  "findMissingModelsInMapping modelMapping currentModels =
     (if modelMapping = [] \<or> trim modelMapping = [] then []
      else (case json_object modelMapping of None \<Rightarrow> []
            | Some ps \<Rightarrow>
                (let modelSet = set (map normalizeModelName currentModels) in
                 uniq (filter (\<lambda>key. key \<noteq> [] \<and> key \<notin> modelSet)
                         (map (normalizeModelName \<circ> fst) ps)))))"

datatype mapping_validation = Valid | Invalid string

definition validateModelMappingJson :: "string \<Rightarrow> mapping_validation" where
  "validateModelMappingJson modelMapping =
     (if modelMapping = [] \<or> trim modelMapping = [] then Valid
      else (case json_parse modelMapping of
              None \<Rightarrow> Invalid ''Model mapping must be valid JSON format''
            | Some (JObj ps) \<Rightarrow> Valid
            | Some _ \<Rightarrow> Invalid ''Model mapping must be a valid JSON object''))"

definition findExposedTargetModels :: "string \<Rightarrow> string list \<Rightarrow> string list" where
  "findExposedTargetModels modelMapping currentModels =
     (let redirectModels = extractRedirectModels modelMapping in
      if length redirectModels = 0 then []
      else (let modelSet = set (map normalizeModelName currentModels) in
            filter (\<lambda>model. normalizeModelName model \<in> modelSet) redirectModels))"

record model_categories =
  normalizedCurrentModels :: "string list"
  normalizedRedirectModels :: "string list"
  classificationSet :: "string list"
  redirectOnlySet :: "string list"

definition categorizeModelsWithRedirect :: "string list \<Rightarrow> string list \<Rightarrow> model_categories" where
  "categorizeModelsWithRedirect currentModels redirectModels =
     (let cur = uniq (filter (\<lambda>m. m \<noteq> []) (map normalizeModelName currentModels));
          red = uniq (filter (\<lambda>m. m \<noteq> []) (map normalizeModelName redirectModels))
      in \<lparr>normalizedCurrentModels = cur, normalizedRedirectModels = red,
          classificationSet = uniq (cur @ red),
          redirectOnlySet = uniq (filter (\<lambda>m. m \<notin> set cur) red)\<rparr>)"

subsection \<open>The upstream model check\<close>

text \<open>\<^const>\<open>None\<close> where the source throws: the value is truthy and has no \<open>map\<close> method, or the
  text of an element throws.\<close>

definition normalizeModelList :: "jsval \<Rightarrow> string list option" where
  "normalizeModelList models =
     (case js_or models (JArr []) of
        JArr vs \<Rightarrow>
          map_option (\<lambda>ss. uniq (filter (\<lambda>s. s \<noteq> []) (map trim ss)))
            (those (map (\<lambda>model. js_string (js_or model (JStr []))) vs))
      | _ \<Rightarrow> None)"

record upstream_meta =
  enabled :: bool
  pendingAddModels :: "string list"
  pendingRemoveModels :: "string list"

definition upstream_settings :: "jsval \<Rightarrow> jsval option" where
  "upstream_settings settings =
     (case settings of JObj ps \<Rightarrow> Some settings | JStr s \<Rightarrow> json_parse s | _ \<Rightarrow> None)"

definition parseUpstreamUpdateMeta :: "jsval \<Rightarrow> upstream_meta option" where
  "parseUpstreamUpdateMeta settings =
     (case upstream_settings settings of
        Some parsed \<Rightarrow>
          if \<not> is_object parsed then
            Some \<lparr>enabled = False, pendingAddModels = [], pendingRemoveModels = []\<rparr>
          else
            (case (normalizeModelList
                     (js_or (js_get parsed ''upstream_model_update_last_detected_models'') (JArr [])),
                   normalizeModelList
                     (js_or (js_get parsed ''upstream_model_update_last_removed_models'') (JArr []))) of
               (Some add, Some rem) \<Rightarrow>
                 Some \<lparr>enabled = (js_get parsed ''upstream_model_update_check_enabled'' = JBool True),
                       pendingAddModels = add, pendingRemoveModels = rem\<rparr>
             | _ \<Rightarrow> None)
      | None \<Rightarrow> Some \<lparr>enabled = False, pendingAddModels = [], pendingRemoveModels = []\<rparr>)"

subsection \<open>Model lists as text\<close>

interpretation model_name: csv_codec "\<lambda>s. s" "\<lambda>s. Some (normalizeModelName s)" csv_item
  by unfold_locales (auto simp: csv_item_def normalizeModelName_def)

lemma list_all_uniq: "list_all P (uniq xs) = list_all P xs"
  by (simp add: list_all_iff)

lemma parse_format: "list_all csv_item models \<Longrightarrow> parseModelsString (formatModelsArray models) = uniq models"
  using model_name.parts_of_rendered [of "uniq models"]
  by (auto simp: parseModelsString_def formatModelsArray_def list_all_uniq)

lemma parseModelsString_items: "list_all csv_item (parseModelsString s)"
  by (auto simp: parseModelsString_def list_all_iff intro: csv_parts_items)

lemma models_differ_iff: "length xs = length ys \<Longrightarrow> models_differ xs ys \<longleftrightarrow> xs \<noteq> ys"
  by (induction xs ys rule: list_induct2) auto

lemma hasModelConfigChanged_iff:
  "hasModelConfigChanged models m models0 m0 \<longleftrightarrow> models0 = [] \<and> m0 = [] \<or> models \<noteq> models0 \<or> trim m \<noteq> trim m0"
  using models_differ_iff [of models models0] by (auto simp: hasModelConfigChanged_def)

text \<open>Saving the model list and reading it again keeps every model once, in the order of its first
  occurrence, and a second save changes nothing.\<close>

theorem models_text_normal_form:
  "parseModelsString (formatModelsArray (parseModelsString s)) = uniq (parseModelsString s)
   \<and> formatModelsArray (parseModelsString (formatModelsArray (parseModelsString s)))
     = formatModelsArray (parseModelsString s)"
  using parse_format [OF parseModelsString_items, of s] by (simp add: formatModelsArray_def)

subsection \<open>Missing and exposed models\<close>

text \<open>The names a mapping redirects from, as a set.\<close>

definition mapping_sources :: "string \<Rightarrow> string set" where
  "mapping_sources m =
     (if trim m = [] then {}
      else (case json_object m of None \<Rightarrow> {} | Some ps \<Rightarrow> trim ` fst ` set ps - {[]}))"

definition model_names :: "string list \<Rightarrow> string set" where
  "model_names models = trim ` set models"

lemma set_findMissing:
  "set (findMissingModelsInMapping m models) = mapping_sources m - model_names models"
  by (auto simp: findMissingModelsInMapping_def mapping_sources_def model_names_def
      normalizeModelName_def split: option.splits)

lemma findMissing_Nil:
  "findMissingModelsInMapping m models = [] \<longleftrightarrow> mapping_sources m \<subseteq> model_names models"
  using set_findMissing [of m models] by (metis Diff_eq_empty_iff set_empty)

lemma model_names_simps [simp]:
  "model_names (xs @ ys) = model_names xs \<union> model_names ys" "model_names (uniq xs) = model_names xs"
  by (auto simp: model_names_def)

lemma model_names_parse [simp]: "model_names (parseModelsString s) = set (parseModelsString s)"
  using parseModelsString_items [of s] by (auto simp: model_names_def list_all_iff csv_item_def image_iff)

text \<open>A text that holds an object is not blank.\<close>

lemma trim_start_skip_ws: "trim_start s = trim_start (skip_ws s)"
proof (induction s)
  case (Cons c s)
  have "trim_start (c # s) = trim_start s" if "json_ws c"
  proof -
    have "ws_head (c # s) = 1"
      using that unfolding json_ws_def by (elim disjE) (simp_all add: ws_head_def js_ws_def)
    then show ?thesis by (subst trim_start.simps) simp
  qed
  with Cons show ?case by (cases "json_ws c") (simp_all add: skip_ws_def)
qed (simp add: skip_ws_def)

lemma json_object_nonblank:
  assumes "json_object s = Some ps"
  shows "trim s \<noteq> []"
proof
  assume "trim s = []"
  then have "trim_start (skip_ws s) = []" using trim_Nil_start trim_start_skip_ws by metis
  moreover obtain t where "skip_ws s = CHR ''{'' # t"
  proof -
    obtain r where "p_value (Suc (length s)) s = Some (JObj ps, r)"
      using assms by (auto simp: json_object_def json_parse_def split: option.splits jsval.splits if_splits simp del: p_value.simps)
    moreover have "p_atom u \<noteq> Some (JObj ps, r)" for u r by (auto simp: p_atom_def)
    ultimately show thesis using that by (cases "skip_ws s") (auto split: if_splits option.splits)
  qed
  moreover have "ws_head (CHR ''{'' # t) = 0" for t by (simp add: ws_head_def js_ws_def)
  ultimately show False using trim_start.simps by (metis list.discI)
qed

lemma sources_trimmed: "k \<in> mapping_sources m \<Longrightarrow> k \<noteq> [] \<and> trim k = k"
  by (auto simp: mapping_sources_def split: if_splits option.splits)

lemma missing_models_items:
  "list_all (\<lambda>k. CHR '','' \<notin> set k) (findMissingModelsInMapping m models)
   \<Longrightarrow> list_all csv_item (findMissingModelsInMapping m models)"
  by (auto simp: list_all_iff csv_item_def set_findMissing dest: sources_trimmed)

lemma missing_models_added_text:
  assumes "list_all (\<lambda>k. CHR '','' \<notin> set k) (findMissingModelsInMapping m (parseModelsString s))"
  shows "findMissingModelsInMapping m (parseModelsString (formatModelsArray
           (uniq (parseModelsString s @ findMissingModelsInMapping m (parseModelsString s))))) = []"
    (is "findMissingModelsInMapping m (parseModelsString (formatModelsArray (uniq (?ms @ ?new)))) = []")
proof -
  have "list_all csv_item (uniq (?ms @ ?new))"
    using parseModelsString_items [of s] missing_models_items [OF assms] by (simp add: list_all_uniq)
  moreover have "model_names ?new = set ?new"
    unfolding model_names_def using sources_trimmed by (intro image_cong [THEN trans, OF refl _ image_ident])
      (auto simp: set_findMissing)
  ultimately show ?thesis
    by (auto simp: parse_format findMissing_Nil set_findMissing)
qed

lemma set_findExposed:
  "set (findExposedTargetModels m models) = set (extractRedirectModels m) \<inter> model_names models"
proof -
  have "trim k = k" if "k \<in> set (extractRedirectModels m)" for k
    using that by (auto simp: extractRedirectModels_def Let_def string_value_def List.map_filter_def
        split: option.splits jsval.splits if_splits)
  then show ?thesis
    by (auto simp: findExposedTargetModels_def Let_def normalizeModelName_def model_names_def)
qed

text \<open>Removing the exposed redirect targets from a model list leaves no target exposed and every
  other model in place.\<close>

theorem exposed_targets_removed:
  fixes m :: string and models :: "string list"
  defines "kept \<equiv> filter (\<lambda>x. normalizeModelName x \<notin> set (findExposedTargetModels m models)) models"
  shows "findExposedTargetModels m kept = []
    \<and> model_names kept = model_names models - set (extractRedirectModels m)"
proof -
  have "model_names kept = model_names models - set (extractRedirectModels m)"
    by (auto simp: kept_def model_names_def set_findExposed normalizeModelName_def)
  moreover from this have "set (findExposedTargetModels m kept) = {}" by (auto simp: set_findExposed)
  ultimately show ?thesis by simp
qed

subsection \<open>The state of the upstream check\<close>

definition clean_models :: "string list \<Rightarrow> bool" where
  "clean_models xs \<longleftrightarrow> distinct xs \<and> list_all (\<lambda>x. x \<noteq> [] \<and> trim x = x) xs"

lemma normalizeModelList_clean: "normalizeModelList v = Some xs \<Longrightarrow> clean_models xs"
  by (auto simp: normalizeModelList_def clean_models_def list_all_iff split: jsval.splits)

lemma normalizeModelList_fixed: "clean_models xs \<Longrightarrow> normalizeModelList (JArr (map JStr xs)) = Some xs"
proof -
  assume a: "clean_models xs"
  have "map (\<lambda>model. js_string (js_or model (JStr []))) (map JStr xs) = map (\<lambda>x. Some x) xs"
    by (auto simp: js_or_def)
  moreover have "js_or (JArr vs) v = JArr vs" for vs v by (simp add: js_or_def)
  ultimately have "normalizeModelList (JArr (map JStr xs)) = Some (uniq (filter (\<lambda>s. s \<noteq> []) (map trim xs)))"
    using those_map_Some [of "\<lambda>x. x" xs] by (simp add: normalizeModelList_def del: map_map)
  also have "map trim xs = xs" using a by (intro map_idI) (auto simp: clean_models_def list_all_iff)
  also have "filter (\<lambda>s. s \<noteq> []) xs = xs" using a by (intro filter_True) (auto simp: clean_models_def list_all_iff)
  finally show ?thesis using a by (simp add: clean_models_def uniq_distinct)
qed

text \<open>The pending models read from a channel's settings are distinct, trimmed and not empty,
  and normalising them again changes nothing.\<close>

theorem upstream_meta_normal:
  assumes "parseUpstreamUpdateMeta settings = Some meta"
  shows "normalizeModelList (JArr (map JStr (pendingAddModels meta))) = Some (pendingAddModels meta)
    \<and> normalizeModelList (JArr (map JStr (pendingRemoveModels meta))) = Some (pendingRemoveModels meta)"
proof -
  have "clean_models (pendingAddModels meta) \<and> clean_models (pendingRemoveModels meta)"
    using assms
    by (auto simp: parseUpstreamUpdateMeta_def clean_models_def [of "[]"]
        split: option.splits if_splits dest!: normalizeModelList_clean)
  then show ?thesis by (simp add: normalizeModelList_fixed)
qed

theorem upstream_meta_normal_witness:
  "parseUpstreamUpdateMeta (JStr ''{\"upstream_model_update_last_detected_models\":[\" a\",\"a\",\"\",\"b\"]}'')
     = Some \<lparr>enabled = False, pendingAddModels = [''a'', ''b''], pendingRemoveModels = []\<rparr>
   \<and> normalizeModelList (JArr (map JStr [''a'', ''b''])) = Some [''a'', ''b'']"
proof -
  have "parseUpstreamUpdateMeta (JStr ''{\"upstream_model_update_last_detected_models\":[\" a\",\"a\",\"\",\"b\"]}'')
     = Some \<lparr>enabled = False, pendingAddModels = [''a'', ''b''], pendingRemoveModels = []\<rparr>"
    by code_simp
  from this upstream_meta_normal [OF this] show ?thesis by simp
qed

end
