(* ===== verification/Status_Risk.thy ===== *)
theory Status_Risk
  imports Js_Json "HOL-Library.List_Lexorder" "HOL-Library.Char_ord"
begin

section \<open>Status code redirects of a channel\<close>

text \<open>
  The guard on the status code mapping of a channel
  (\<open>features/channels/lib/status-code-risk-guard.ts\<close>): which entries of the mapping are not a
  redirect between status codes, which ones redirect a code that must not be redirected, and
  which of the latter an edit adds.
\<close>

definition NON_REDIRECTABLE_STATUS_CODES :: "int list" where
  "NON_REDIRECTABLE_STATUS_CODES = [504, 524]"

text \<open>\<open>/^[1-5]\d{2}$/\<close>.\<close>

definition code_pattern :: "string \<Rightarrow> bool" where
  "code_pattern s \<longleftrightarrow>
     length s = 3 \<and> list_all is_digit s \<and> 1 \<le> digit_val (hd s) \<and> digit_val (hd s) \<le> 5"

definition parseStatusCodeKey :: "string \<Rightarrow> int option" where
  "parseStatusCodeKey rawKey =
     (let normalized = trim rawKey in
      if \<not> code_pattern normalized then None else Some (int (nat_of_digits normalized)))"

definition is_integer :: "rat \<Rightarrow> bool" where
  "is_integer r \<longleftrightarrow> of_int \<lfloor>r\<rfloor> = r"

definition parseStatusCodeMappingTarget :: "jsval \<Rightarrow> int option" where
  "parseStatusCodeMappingTarget rawValue =
     (case rawValue of
        JNum (Fin r) \<Rightarrow>
          if is_integer r then (if 100 \<le> r \<and> r \<le> 599 then Some \<lfloor>r\<rfloor> else None) else None
      | JStr s \<Rightarrow>
          (let normalized = trim s in
           if \<not> code_pattern normalized then None
           else
             (let code = int (nat_of_digits normalized) in
              if 100 \<le> code \<and> code \<le> 599 then Some code else None))
      | _ \<Rightarrow> None)"

text \<open>The guards both collectors open with: the entries of the mapping, none where it is blank,
  not JSON, or not an object.\<close>

definition mapping_entries :: "string \<Rightarrow> props" where
  "mapping_entries s =
     (if trim s = [] then [] else (case json_object s of None \<Rightarrow> [] | Some ps \<Rightarrow> ps))"

definition valid_entry :: "string \<times> jsval \<Rightarrow> bool" where
  "valid_entry = (\<lambda>(k, v). parseStatusCodeKey k \<noteq> None \<and> parseStatusCodeMappingTarget v \<noteq> None)"

definition arrow :: string where
  "arrow = [CHR '' '', CHR 0xE2, CHR 0x86, CHR 0x92, CHR '' '']"

text \<open>\<^const>\<open>None\<close> where the text of a value throws.\<close>

definition collectInvalidStatusCodeEntries :: "string \<Rightarrow> string list option" where
  "collectInvalidStatusCodeEntries s =
     those (map (\<lambda>(k, v). map_option (\<lambda>t. k @ arrow @ t) (js_string v))
                (filter (\<lambda>e. \<not> valid_entry e) (mapping_entries s)))"

definition risky_mapping :: "string \<times> jsval \<Rightarrow> string option" where
  "risky_mapping = (\<lambda>(rawFrom, rawTo).
     case (parseStatusCodeKey rawFrom, parseStatusCodeMappingTarget rawTo) of
       (Some fromCode, Some toCode) \<Rightarrow>
         if fromCode \<notin> set NON_REDIRECTABLE_STATUS_CODES then None
         else if fromCode = toCode then None
         else Some (string_of_int fromCode @ '' -> '' @ string_of_int toCode)
     | _ \<Rightarrow> None)"

definition collectDisallowedStatusCodeRedirects :: "string \<Rightarrow> string list" where
  "collectDisallowedStatusCodeRedirects s =
     sort (uniq (List.map_filter risky_mapping (mapping_entries s)))"

definition collectNewDisallowedStatusCodeRedirects :: "string \<Rightarrow> string \<Rightarrow> string list" where
  "collectNewDisallowedStatusCodeRedirects originalStr currentStr =
     (let currentRisky = collectDisallowedStatusCodeRedirects currentStr in
      if length currentRisky = 0 then []
      else filter (\<lambda>m. m \<notin> set (collectDisallowedStatusCodeRedirects originalStr)) currentRisky)"

subsection \<open>What the guard reports\<close>

text \<open>The redirects a mapping text configures: pairs of codes, whatever way they are written.\<close>

definition redirects :: "string \<Rightarrow> (int \<times> int) set" where
  "redirects s = {(c, d). \<exists>(k, v)\<in>set (mapping_entries s).
     parseStatusCodeKey k = Some c \<and> parseStatusCodeMappingTarget v = Some d}"

definition forbidden :: "(int \<times> int) set \<Rightarrow> (int \<times> int) set" where
  "forbidden R = {(c, d) \<in> R. c \<in> {504, 524} \<and> d \<noteq> c}"

definition redirect_text :: "int \<times> int \<Rightarrow> string" where
  "redirect_text = (\<lambda>(c, d). string_of_int c @ '' -> '' @ string_of_int d)"

lemma risky_mapping_Some:
  "risky_mapping (k, v) = Some t \<longleftrightarrow>
   (\<exists>c d. parseStatusCodeKey k = Some c \<and> parseStatusCodeMappingTarget v = Some d
      \<and> c \<in> {504, 524} \<and> d \<noteq> c \<and> t = redirect_text (c, d))"
  by (auto simp: risky_mapping_def redirect_text_def NON_REDIRECTABLE_STATUS_CODES_def
      split: option.splits)

lemma set_collectDisallowed:
  "set (collectDisallowedStatusCodeRedirects s) = redirect_text ` forbidden (redirects s)"
proof (rule set_eqI)
  fix t
  have "t \<in> set (collectDisallowedStatusCodeRedirects s) \<longleftrightarrow>
      (\<exists>k v. (k, v) \<in> set (mapping_entries s) \<and> risky_mapping (k, v) = Some t)"
    by (auto simp: collectDisallowedStatusCodeRedirects_def set_map_filter)
  also have "\<dots> \<longleftrightarrow> t \<in> redirect_text ` forbidden (redirects s)"
    unfolding risky_mapping_Some redirects_def forbidden_def image_iff by fast
  finally show "t \<in> set (collectDisallowedStatusCodeRedirects s) \<longleftrightarrow>
      t \<in> redirect_text ` forbidden (redirects s)" .
qed

lemma nat_of_digits_3:
  "code_pattern s \<Longrightarrow> 100 \<le> nat_of_digits s \<and> nat_of_digits s \<le> 599"
proof -
  assume p: "code_pattern s"
  then obtain a b c where s: "s = [a, b, c]"
    by (auto simp: code_pattern_def eval_nat_numeral length_Suc_conv)
  from p s have "digit_val b < 10" "digit_val c < 10" "1 \<le> digit_val a" "digit_val a \<le> 5"
    by (auto simp: code_pattern_def digit_val_less)
  then show ?thesis by (simp add: s nat_of_digits_def)
qed

lemma parseStatusCodeKey_range: "parseStatusCodeKey k = Some c \<Longrightarrow> 100 \<le> c \<and> c \<le> 599"
  using nat_of_digits_3 [of "trim k"] by (auto simp: parseStatusCodeKey_def Let_def split: if_splits)

lemma parseStatusCodeMappingTarget_range:
  "parseStatusCodeMappingTarget v = Some d \<Longrightarrow> 100 \<le> d \<and> d \<le> 599"
proof (cases v)
  case (JNum n)
  assume "parseStatusCodeMappingTarget v = Some d"
  with JNum show ?thesis
    by (cases n) (auto simp: parseStatusCodeMappingTarget_def le_floor_iff floor_le_iff split: if_splits)
qed (auto simp: parseStatusCodeMappingTarget_def Let_def split: if_splits)

lemma redirects_range:
  "(c, d) \<in> redirects s \<Longrightarrow> 100 \<le> c \<and> c \<le> 599 \<and> 100 \<le> d \<and> d \<le> 599"
  unfolding redirects_def
  using parseStatusCodeKey_range parseStatusCodeMappingTarget_range by blast

lemma redirect_text_inject:
  assumes "0 \<le> c" "0 \<le> d" "0 \<le> c'" "0 \<le> d'" "redirect_text (c, d) = redirect_text (c', d')"
  shows "c = c' \<and> d = d'"
proof -
  let ?n = "\<lambda>i. digits_of_nat (nat i)"
  have eq: "?n c @ '' -> '' @ ?n d = ?n c' @ '' -> '' @ ?n d'"
    using assms by (simp add: redirect_text_def string_of_int_def)
  have digits: "takeWhile is_digit (?n i @ '' -> '' @ u) = ?n i" for i u
    by (rule takeWhile_digits [OF digits_of_nat_digits]) (simp add: is_digit_def)
  have "?n c = ?n c'" using arg_cong [OF eq, of "takeWhile is_digit"] by (simp only: digits)
  with eq assms show ?thesis by (simp add: digits_of_nat_inject eq_nat_nat_iff)
qed

lemma inj_redirect_text: "inj_on redirect_text (redirects s \<union> redirects t)"
proof (rule inj_onI)
  fix p q
  assume pq: "p \<in> redirects s \<union> redirects t" "q \<in> redirects s \<union> redirects t"
    "redirect_text p = redirect_text q"
  obtain c d c' d' where "p = (c, d)" "q = (c', d')" by fastforce
  with pq show "p = q"
    using redirects_range [of c d] redirects_range [of c' d'] redirect_text_inject [of c d c' d']
    by fastforce
qed

lemma new_disallowed_set:
  "set (collectNewDisallowedStatusCodeRedirects old new)
     = redirect_text ` (forbidden (redirects new) - redirects old)"
proof -
  have "forbidden (redirects u) \<subseteq> redirects u" for u by (auto simp: forbidden_def)
  then have "redirect_text ` forbidden (redirects new) - redirect_text ` forbidden (redirects old)
      = redirect_text ` (forbidden (redirects new) - forbidden (redirects old))"
    by (intro inj_on_image_set_diff [OF inj_redirect_text [of new old], symmetric]) blast+
  also have "forbidden (redirects new) - forbidden (redirects old)
      = forbidden (redirects new) - redirects old" by (auto simp: forbidden_def)
  finally show ?thesis
    unfolding collectNewDisallowedStatusCodeRedirects_def Let_def
    by (auto simp flip: set_collectDisallowed)
qed

text \<open>The new risky redirects that an edit of the mapping is asked to confirm are, sorted and
  without repetition, exactly the redirects of the edited mapping away from 504 or 524 that the
  original mapping did not have, whatever way the two texts write the codes.\<close>

theorem new_disallowed_redirects:
  "set (collectNewDisallowedStatusCodeRedirects old new)
     = redirect_text ` (forbidden (redirects new) - redirects old)
   \<and> sorted (collectNewDisallowedStatusCodeRedirects old new)
   \<and> distinct (collectNewDisallowedStatusCodeRedirects old new)"
  using new_disallowed_set [of old new]
  by (simp add: collectNewDisallowedStatusCodeRedirects_def Let_def sorted_filter [where f = id, simplified]
      collectDisallowedStatusCodeRedirects_def)

text \<open>C2. A mapping passes the check for invalid entries exactly when every entry of it redirects a
  status code to a status code, so that each entry contributes a redirect between codes in
  100..599.\<close>

theorem no_invalid_entries:
  "collectInvalidStatusCodeEntries s = Some [] \<longleftrightarrow>
   list_all (\<lambda>(k, v). \<exists>c d. (c, d) \<in> redirects s \<and> parseStatusCodeKey k = Some c
      \<and> parseStatusCodeMappingTarget v = Some d) (mapping_entries s)"
proof -
  have "valid_entry e \<longleftrightarrow> (\<exists>c d. (c, d) \<in> redirects s \<and> parseStatusCodeKey (fst e) = Some c
      \<and> parseStatusCodeMappingTarget (snd e) = Some d)" if "e \<in> set (mapping_entries s)" for e
    using that by (cases e rule: prod.exhaust) (auto simp: valid_entry_def redirects_def)
  then show ?thesis
    by (auto simp: collectInvalidStatusCodeEntries_def those_Some_Nil filter_empty_conv list_all_iff)
qed

end
