(* ===== verification/Channel_Submit.thy ===== *)
theory Channel_Submit
  imports Channel_Form Model_Mapping Status_Risk
begin

section \<open>Submitting the channel form\<close>

text \<open>
  The submit handler of \<open>components/drawers/channel-mutate-drawer.tsx\<close> up to the request it sends:
  the checks on the key, the status code mapping and the model mapping, the two questions it may ask,
  and the choice of the payload.  The answers to the questions are functions of what is asked; the
  request itself is the outcome.
\<close>

datatype missing_action = Cancel_Submit | Submit_Anyway | Add_Models

datatype request = Create create_payload | Update int props

datatype submit_outcome =
    Key_Required
  | Invalid_Codes "string list"
  | Codes_Throw
  | Codes_Declined
  | Invalid_Mapping string
  | Models_Cancelled
  | Payload_Failed
  | Requested request

text \<open>What the handler closes over: the channel being edited, the values the form was opened with and the
  user's answers.\<close>

record submit_context =
  editing :: "int option"
  multi_key :: bool
  initialStatusCodeMapping :: string
  initialModels :: "string list"
  initialModelMapping :: string
  confirmStatusCodeRisk :: "string list \<Rightarrow> bool"
  confirmMissingModelMappings :: "string list \<Rightarrow> missing_action"

definition check_codes :: "submit_context \<Rightarrow> channel_form \<Rightarrow> submit_outcome option" where
  "check_codes cx f =
     (let m = or_empty (f_status_code_mapping f) in
      if trim m = [] then None
      else
        (case collectInvalidStatusCodeEntries m of
           None \<Rightarrow> Some Codes_Throw
         | Some invalid \<Rightarrow>
             if length invalid > 0 then Some (Invalid_Codes invalid)
             else
               (let risky = collectNewDisallowedStatusCodeRedirects (initialStatusCodeMapping cx) m in
                if length risky > 0 \<and> \<not> confirmStatusCodeRisk cx risky then Some Codes_Declined
                else None)))"

text \<open>The models text that is sent, or the reason why nothing is.\<close>

definition check_models :: "submit_context \<Rightarrow> channel_form \<Rightarrow> submit_outcome + string" where
  "check_models cx f =
     (let m = or_empty (f_model_mapping f); models = parseModelsString (f_models f) in
      if trim m = [] then Inr (f_models f)
      else
        (case validateModelMappingJson m of
           Invalid e \<Rightarrow> Inl (Invalid_Mapping e)
         | Valid \<Rightarrow>
             (let missing = findMissingModelsInMapping m models in
              if length missing > 0
                 \<and> hasModelConfigChanged models m (initialModels cx) (initialModelMapping cx)
              then (case confirmMissingModelMappings cx missing of
                      Cancel_Submit \<Rightarrow> Inl Models_Cancelled
                    | Add_Models \<Rightarrow> Inr (formatModelsArray (uniq (models @ missing)))
                    | Submit_Anyway \<Rightarrow> Inr (f_models f))
              else Inr (f_models f))))"

definition key_edit_text :: "key_edit \<Rightarrow> string" where
  "key_edit_text k = (case k of Append \<Rightarrow> ''append'' | Replace \<Rightarrow> ''replace'')"

definition build_request :: "submit_context \<Rightarrow> channel_form \<Rightarrow> submit_outcome" where
  "build_request cx f =
     (case editing cx of
        Some i \<Rightarrow>
          (case transformFormDataToUpdatePayload f i of None \<Rightarrow> Payload_Failed
           | Some p \<Rightarrow>
               (case (multi_key cx, f_key_mode f) of
                  (True, Some k) \<Rightarrow> Requested (Update i (obj_put ''key_mode'' (JStr (key_edit_text k)) p))
                | _ \<Rightarrow> Requested (Update i p)))
      | None \<Rightarrow>
          (case transformFormDataToCreatePayload f of None \<Rightarrow> Payload_Failed
           | Some p \<Rightarrow> Requested (Create p)))"

definition onSubmit :: "submit_context \<Rightarrow> channel_form \<Rightarrow> submit_outcome" where
  "onSubmit cx f =
     (if editing cx = None \<and> trim (f_key f) = [] then Key_Required
      else (case check_codes cx f of Some stop \<Rightarrow> stop
        | None \<Rightarrow>
            (case check_models cx f of Inl stop \<Rightarrow> stop
             | Inr models \<Rightarrow> build_request cx (f\<lparr>f_models := models\<rparr>))))"

subsection \<open>What a request guarantees\<close>

definition sent_models :: "request \<Rightarrow> jsval" where
  "sent_models r = (case r of Create p \<Rightarrow> obj_get (p_channel p) ''models'' | Update i p \<Rightarrow> obj_get p ''models'')"

lemma check_codes_None:
  assumes "check_codes cx f = None"
  shows "collectInvalidStatusCodeEntries (or_empty (f_status_code_mapping f)) = Some []"
    and "collectNewDisallowedStatusCodeRedirects (initialStatusCodeMapping cx) (or_empty (f_status_code_mapping f)) = []
      \<or> confirmStatusCodeRisk cx (collectNewDisallowedStatusCodeRedirects (initialStatusCodeMapping cx)
           (or_empty (f_status_code_mapping f)))"
  using assms
  by (auto simp: check_codes_def Let_def collectInvalidStatusCodeEntries_def mapping_entries_def
      collectNewDisallowedStatusCodeRedirects_def collectDisallowedStatusCodeRedirects_def
      List.map_filter_def split: if_splits option.splits)

lemma onSubmit_Requested:
  assumes "onSubmit cx f = Requested r"
  obtains models where "check_codes cx f = None" "check_models cx f = Inr models"
    "build_request cx (f\<lparr>f_models := models\<rparr>) = Requested r" "editing cx = None \<longrightarrow> trim (f_key f) \<noteq> []"
  using assms
  by (auto simp: onSubmit_def check_codes_def check_models_def Let_def
      split: if_splits option.splits sum.splits mapping_validation.splits missing_action.splits)

lemma sent_models_eq:
  assumes "build_request cx f = Requested r"
  shows "sent_models r = (if f_models f = [] then JNull else JStr (f_models f))"
proof (cases "editing cx")
  case None
  then obtain p where p: "transformFormDataToCreatePayload f = Some p" "r = Create p"
    using assms by (auto simp: build_request_def split: option.splits)
  then show ?thesis
    by (auto simp: transformFormDataToCreatePayload_def Let_def sent_models_def obj_get_empty_to_null)
      (simp_all add: create_props_def obj_get_def)
next
  case (Some i)
  then obtain p where p: "transformFormDataToUpdatePayload f i = Some p"
    using assms by (auto simp: build_request_def split: option.splits)
  with Some assms have "sent_models r = obj_get p ''models''"
    by (auto simp: build_request_def sent_models_def split: option.splits bool.splits)
  then show ?thesis by (simp add: update_payload_get(4) [OF p])
qed

text \<open>C15. A request is only sent when every entry of the status code mapping redirects a code to a code,
  every redirect away from 504 or 524 that the channel did not have before has been confirmed, the
  model mapping is blank or a JSON object, and a new channel has a key.\<close>

theorem request_checked:
  assumes "onSubmit cx f = Requested r"
  shows "collectInvalidStatusCodeEntries (or_empty (f_status_code_mapping f)) = Some []
    \<and> (forbidden (redirects (or_empty (f_status_code_mapping f))) \<subseteq> redirects (initialStatusCodeMapping cx)
       \<or> confirmStatusCodeRisk cx (collectNewDisallowedStatusCodeRedirects (initialStatusCodeMapping cx)
            (or_empty (f_status_code_mapping f))))
    \<and> validateModelMappingJson (or_empty (f_model_mapping f)) = Valid
    \<and> (editing cx = None \<longrightarrow> trim (f_key f) \<noteq> [])"
proof -
  from assms obtain models where r: "check_codes cx f = None" "check_models cx f = Inr models"
    "editing cx = None \<longrightarrow> trim (f_key f) \<noteq> []"
    by (rule onSubmit_Requested)
  have "validateModelMappingJson (or_empty (f_model_mapping f)) = Valid"
    using r(2) by (auto simp: check_models_def Let_def validateModelMappingJson_def
        split: if_splits mapping_validation.splits)
  moreover have "forbidden (redirects new) \<subseteq> redirects old"
    if "collectNewDisallowedStatusCodeRedirects old new = []" for old new
    using new_disallowed_set [of old new] unfolding that by simp
  ultimately show ?thesis using check_codes_None [OF r(1)] r(3) by blast
qed

text \<open>C19. Where the user lets the handler add the missing models, every name that the mapping redirects from
  is among the models that are sent, and so are the models of the form.  This takes that no name has a
  comma, and that the channel is new or its models or mapping were edited: otherwise nothing is asked.\<close>

theorem request_covers_mapping:
  assumes "onSubmit cx f = Requested r"
    and "json_parse (or_empty (f_model_mapping f)) = Some (JObj ps)"
    and "confirmMissingModelMappings cx = (\<lambda>_. Add_Models)"
    and "initialModels cx = [] \<and> initialModelMapping cx = [] \<or> parseModelsString (f_models f) \<noteq> initialModels cx
      \<or> trim (or_empty (f_model_mapping f)) \<noteq> trim (initialModelMapping cx)"
    and "\<forall>(k, v)\<in>set ps. CHR '','' \<notin> set k"
  shows "\<exists>models. sent_models r = (if models = [] then JNull else JStr models)
    \<and> (\<forall>(k, v)\<in>set ps. trim k \<noteq> [] \<longrightarrow> trim k \<in> set (parseModelsString models))
    \<and> set (parseModelsString (f_models f)) \<subseteq> set (parseModelsString models)"
proof -
  from assms(1) obtain models where r: "check_models cx f = Inr models"
    "build_request cx (f\<lparr>f_models := models\<rparr>) = Requested r"
    by (rule onSubmit_Requested)
  let ?m = "or_empty (f_model_mapping f)" and ?ms = "parseModelsString (f_models f)"
  let ?new = "findMissingModelsInMapping ?m ?ms"
  have obj: "json_object ?m = Some ps" using assms(2) by (simp add: json_object_def)
  have sources: "mapping_sources ?m = trim ` fst ` set ps - {[]}" using obj json_object_nonblank [OF obj] by (simp add: mapping_sources_def)
  have comma: "list_all (\<lambda>k. CHR '','' \<notin> set k) ?new"
    using assms(5) set_trim by (fastforce simp: list_all_iff set_findMissing sources)
  have "hasModelConfigChanged ?ms ?m (initialModels cx) (initialModelMapping cx)"
    using assms(4) by (simp add: hasModelConfigChanged_iff)
  then have "models = f_models f \<and> ?new = [] \<or> models = formatModelsArray (uniq (?ms @ ?new))"
    using r(1) assms(3) by (auto simp: check_models_def Let_def findMissingModelsInMapping_def
        split: if_splits mapping_validation.splits)
  moreover have "set ?ms \<subseteq> set (parseModelsString (formatModelsArray (uniq (?ms @ ?new))))"
    using missing_models_items [OF comma] by (simp add: parse_format list_all_uniq parseModelsString_items)
  ultimately have "findMissingModelsInMapping ?m (parseModelsString models) = []" "set ?ms \<subseteq> set (parseModelsString models)"
    using missing_models_added_text [OF comma] by auto
  moreover from this(1) have "trim k \<in> set (parseModelsString models)" if "(k, v) \<in> set ps" "trim k \<noteq> []" for k v
    using that by (force simp: findMissing_Nil sources)
  ultimately show ?thesis using sent_models_eq [OF r(2)] by (intro exI [of _ models]) auto
qed

definition sample_context :: submit_context where
  "sample_context =
     \<lparr>editing = None, multi_key = False, initialStatusCodeMapping = [], initialModels = [],
      initialModelMapping = [], confirmStatusCodeRisk = (\<lambda>_. True),
      confirmMissingModelMappings = (\<lambda>_. Add_Models)\<rparr>"

definition sample_form :: channel_form where
  "sample_form = azure_form\<lparr>f_key := ''k'', f_models := ''m'', f_model_mapping := Some ''{\"a\":\"b\"}'',
     f_status_code_mapping := Some ''{\"504\":500}''\<rparr>"

lemma sample_submitted: "\<exists>r. onSubmit sample_context sample_form = Requested r"
proof -
  have "check_codes sample_context sample_form = None" by code_simp
  moreover have "check_models sample_context sample_form = Inr ''m,a''" by code_simp
  moreover have "existing_settings (sample_form\<lparr>f_models := ''m,a''\<rparr>) = existing_settings azure_form"
    by (simp add: existing_settings_def sample_form_def)
  moreover have "editing sample_context = None" "trim (f_key sample_form) \<noteq> []" by code_simp+
  ultimately show ?thesis
    by (auto simp: onSubmit_def build_request_def transformFormDataToCreatePayload_def buildSettingsJSON_def
        azure_form_settings)
qed

theorem request_checked_witness:
  "validateModelMappingJson ''{\"a\":\"b\"}'' = Valid
   \<and> collectInvalidStatusCodeEntries ''{\"504\":500}'' = Some []"
proof -
  obtain r where "onSubmit sample_context sample_form = Requested r" using sample_submitted by blast
  from request_checked [OF this] show ?thesis by (simp add: sample_form_def or_empty_def)
qed

theorem request_covers_mapping_witness:
  "\<exists>r models. onSubmit sample_context sample_form = Requested r \<and> sent_models r = JStr models
     \<and> {''m'', ''a''} \<subseteq> set (parseModelsString models)"
proof -
  obtain r where r: "onSubmit sample_context sample_form = Requested r" using sample_submitted by blast
  have form: "or_empty (f_model_mapping sample_form) = ''{\"a\":\"b\"}''" "f_models sample_form = ''m''"
    by (simp_all add: sample_form_def or_empty_def)
  have facts: "json_parse ''{\"a\":\"b\"}'' = Some (JObj [(''a'', JStr ''b'')])"
    "parseModelsString ''m'' = [''m'']" "parseModelsString [] = []" "trim ''a'' = ''a''" by code_simp+
  have cx: "confirmMissingModelMappings sample_context = (\<lambda>_. Add_Models)" "initialModels sample_context = []"
    "initialModelMapping sample_context = []" by (simp_all add: sample_context_def)
  have "\<forall>(k, v)\<in>set [(''a'', JStr ''b'')]. CHR '','' \<notin> set k" by simp
  from request_covers_mapping [OF r, unfolded form, OF facts(1) cx(1) _ this] cx(2,3)
  obtain models where m: "sent_models r = (if models = [] then JNull else JStr models)"
    "trim ''a'' \<noteq> [] \<longrightarrow> trim ''a'' \<in> set (parseModelsString models)"
    "set (parseModelsString ''m'') \<subseteq> set (parseModelsString models)" by auto
  then have "models \<noteq> []" using facts(2,3) by (metis list.set(1) list.set_intros(1) subset_empty empty_iff)
  with m facts(2,4) r show ?thesis by auto
qed

end
