(* ===== verification/Js_Regex.thy ===== *)
theory Js_Regex
  imports Js_Number
begin

section \<open>Regular expressions\<close>

text \<open>
  The part of the language's regular expressions that the program uses, with the backtracking matcher of
  the language: a match is a list of results in the order in which the matcher tries them, and the
  first one is taken.  A state is the text read so far, the text ahead and the groups captured.
  Texts are bytes, so a white-space character is an alternative of byte sequences, and a negated class
  matches each byte of a character outside it.
\<close>

type_synonym caps = "(nat \<times> string) list"
type_synonym rstate = "string \<times> string \<times> caps"

text \<open>A class of bytes, a literal text, an assertion on what is before and ahead, sequence, ordered choice,
  greedy repetition, capturing group, back reference.\<close>

datatype re =
    Eps
  | Cls "char \<Rightarrow> bool"
  | Lit string
  | At "string \<Rightarrow> string \<Rightarrow> bool"
  | Seq re re
  | Alt re re
  | Star re
  | Grp nat re
  | Bref nat

definition capture :: "nat \<Rightarrow> string \<Rightarrow> rstate \<Rightarrow> rstate" where
  "capture n s st = (case st of (p, s', c) \<Rightarrow> (p, s', (n, take (length s - length s') s) # c))"

function ms :: "re \<Rightarrow> rstate \<Rightarrow> rstate list" where
  "ms Eps (p, s, c) = [(p, s, c)]"
| "ms (Cls P) (p, s, c) = (case s of [] \<Rightarrow> [] | x # t \<Rightarrow> if P x then [(p @ [x], t, c)] else [])"
| "ms (Lit w) (p, s, c) = (if prefix w s then [(p @ w, drop (length w) s, c)] else [])"
| "ms (At f) (p, s, c) = (if f p s then [(p, s, c)] else [])"
| "ms (Seq q r) (p, s, c) = concat (map (ms r) (ms q (p, s, c)))"
| "ms (Alt q r) (p, s, c) = ms q (p, s, c) @ ms r (p, s, c)"
| "ms (Star r) (p, s, c) =
     concat (map (\<lambda>(p', s', c'). if length s' < length s then ms (Star r) (p', s', c') else [])
       (ms r (p, s, c))) @ [(p, s, c)]"
| "ms (Grp n r) (p, s, c) = map (capture n s) (ms r (p, s, c))"
| "ms (Bref n) (p, s, c) =
     (case map_of c n of None \<Rightarrow> [(p, s, c)]
      | Some w \<Rightarrow> if prefix w s then [(p @ w, drop (length w) s, c)] else [])"
  by pat_completeness auto
termination
  by (relation "inv_image (less_than <*lex*> less_than) (\<lambda>(r, (p, s, c)). (size r, length s))") auto

text \<open>The first match that starts here, and \<open>re.exec\<close>: the first position with a match.\<close>

definition match_here :: "re \<Rightarrow> string \<Rightarrow> string \<Rightarrow> rstate option" where
  "match_here r p s = (case ms r (p, s, []) of [] \<Rightarrow> None | st # _ \<Rightarrow> Some st)"

fun scan_from :: "re \<Rightarrow> string \<Rightarrow> string \<Rightarrow> (string \<times> rstate) option" where
  "scan_from r p [] = map_option (\<lambda>st. ([], st)) (match_here r p [])"
| "scan_from r p (x # s) =
     (case match_here r p (x # s) of
        Some st \<Rightarrow> Some (x # s, st)
      | None \<Rightarrow> scan_from r (p @ [x]) s)"

text \<open>\<open>s.match(re)\<close> without the global flag: group 0 is the whole match.\<close>

definition re_match :: "re \<Rightarrow> string \<Rightarrow> caps option" where
  "re_match r s =
     (case scan_from r [] s of None \<Rightarrow> None
      | Some (t, (p, s', c)) \<Rightarrow> Some ((0, take (length t - length s') t) # c))"

definition re_test :: "re \<Rightarrow> string \<Rightarrow> bool" where
  "re_test r s \<longleftrightarrow> re_match r s \<noteq> None"

text \<open>The loop \<open>while ((m = re.exec(s)) !== null)\<close> with the global flag.  A match never ends before it
  starts, and the expressions of the program match no empty text, so every round spends a character;
  the fuel is the length of the text.\<close>

fun exec_all :: "nat \<Rightarrow> re \<Rightarrow> string \<Rightarrow> string \<Rightarrow> caps list" where
  "exec_all 0 r p s = []"
| "exec_all (Suc n) r p s =
     (case scan_from r p s of None \<Rightarrow> []
      | Some (t, (p', s', c)) \<Rightarrow>
          ((0, take (length t - length s') t) # c) # exec_all n r p' s')"

definition re_matches :: "re \<Rightarrow> string \<Rightarrow> caps list" where
  "re_matches r s = exec_all (length s + 1) r [] s"

definition group :: "nat \<Rightarrow> caps \<Rightarrow> string option" where
  "group n c = map_of c n"

definition the_group :: "nat \<Rightarrow> caps \<Rightarrow> string" where
  "the_group n c = (case map_of c n of None \<Rightarrow> [] | Some w \<Rightarrow> w)"

subsection \<open>Notation of the program's expressions\<close>

definition bol :: re where
  "bol = At (\<lambda>p s. p = [])"

definition eol :: re where
  "eol = At (\<lambda>p s. s = [])"

text \<open>The classes \<open>\w\<close> and \<open>\d\<close>, the assertion \<open>\b\<close>, white space \<open>\s\<close>.\<close>

definition is_word :: "char \<Rightarrow> bool" where
  "is_word c \<longleftrightarrow>
     (let n = (of_char c :: nat) in
      48 \<le> n \<and> n \<le> 57 \<or> 65 \<le> n \<and> n \<le> 90 \<or> 97 \<le> n \<and> n \<le> 122 \<or> n = 95)"

definition word_boundary :: re where
  "word_boundary =
     At (\<lambda>p s. (p \<noteq> [] \<and> is_word (last p)) \<noteq> (s \<noteq> [] \<and> is_word (hd s)))"

fun alts :: "re list \<Rightarrow> re" where
  "alts [] = Cls (\<lambda>_. False)"
| "alts [r] = r"
| "alts (r # q # rs) = Alt r (alts (q # rs))"

fun seqs :: "re list \<Rightarrow> re" where
  "seqs [] = Eps"
| "seqs (r # rs) = Seq r (seqs rs)"

definition ws :: re where
  "ws = alts (map Lit js_ws)"

definition plus_re :: "re \<Rightarrow> re" where
  "plus_re r = Seq r (Star r)"

definition opt :: "re \<Rightarrow> re" where
  "opt r = Alt r Eps"

definition words :: "string list \<Rightarrow> re" where
  "words xs = alts (map Lit xs)"

text \<open>\<open>.\<close> without the \<open>s\<close> flag: no line terminator starts here.\<close>

definition line_terminator :: "string \<Rightarrow> bool" where
  "line_terminator s \<longleftrightarrow>
     prefix [CHR 0x0A] s \<or> prefix [CHR 0x0D] s \<or> prefix [CHR 0xE2, CHR 0x80, CHR 0xA8] s
     \<or> prefix [CHR 0xE2, CHR 0x80, CHR 0xA9] s"

definition dot :: re where
  "dot = Seq (At (\<lambda>p s. \<not> line_terminator s)) (Cls (\<lambda>_. True))"

definition any :: re where
  "any = Cls (\<lambda>_. True)"

definition not_quote :: "char \<Rightarrow> bool" where
  "not_quote c \<longleftrightarrow> c \<noteq> CHR 0x22"

subsection \<open>Results of the matcher\<close>

named_theorems re_simps

declare ms.simps(7) [simp del]

lemma ms_Seq [re_simps]: "ms (Seq q r) st = concat (map (ms r) (ms q st))"
  by (cases st rule: prod_cases3) simp

lemma ms_Lit_append [re_simps]: "ms (Lit w) (p, w @ s, c) = [(p @ w, s, c)]"
  by simp

lemma ms_shorter: "\<forall>st'\<in>set (ms r st). length (fst (snd st')) \<le> length (fst (snd st))"
proof (induction r st rule: ms.induct)
  case (5 q r p s c)
  then show ?case by (fastforce intro: le_trans)
next
  case (7 r p s c)
  have "length (fst (snd st')) \<le> length s" if "st' \<in> set (ms (Star r) (p', s', c'))"
    "(p', s', c') \<in> set (ms r (p, s, c))" "length s' < length s" for st' p' s' c'
    using 7(2) [OF that(2) refl refl that(3)] that(1,3) by fastforce
  then show ?case by (subst ms.simps(7)) (auto split: if_splits)
next
  case (8 n r p s c)
  then show ?case by (auto simp: capture_def)
qed (auto split: list.splits if_splits option.splits)

text \<open>The repetition of a class: every prefix of the run, the longest first.\<close>

lemma ms_Star_Cls:
  "ms (Star (Cls P)) (p, s, c) =
     map (\<lambda>k. (p @ take k s, drop k s, c)) (rev [0..<Suc (length (takeWhile P s))])"
proof (induction s arbitrary: p)
  case (Cons x s)
  show ?case
  proof (cases "P x")
    case True
    have "map (\<lambda>k. (p @ take k (x # s), drop k (x # s), c)) (rev [0..<Suc (Suc n)])
        = map (\<lambda>k. ((p @ [x]) @ take k s, drop k s, c)) (rev [0..<Suc n]) @ [(p, x # s, c)]" for n
      by (simp add: upt_conv_Cons map_Suc_upt [symmetric] rev_map del: upt_Suc)
    with True Cons.IH [of "p @ [x]"] show ?thesis by (subst ms.simps(7)) simp
  next
    case False
    then show ?thesis by (subst ms.simps(7)) simp
  qed
qed (simp add: ms.simps(7))

text \<open>A run of a class in front of a character that ends it: only the whole run can be continued.\<close>

definition stuck :: "(char \<Rightarrow> bool) \<Rightarrow> re \<Rightarrow> bool" where
  "stuck P r \<longleftrightarrow> (\<forall>p x s c. P x \<longrightarrow> ms r (p, x # s, c) = [])"

definition ahead :: "(char \<Rightarrow> bool) \<Rightarrow> rstate \<Rightarrow> bool" where
  "ahead P st \<longleftrightarrow> (case st of (p, s, c) \<Rightarrow> s \<noteq> [] \<and> P (hd s))"

lemma stuck_ahead: "stuck P r \<Longrightarrow> ahead P st \<Longrightarrow> ms r st = []"
  by (cases st rule: prod_cases3) (auto simp: stuck_def ahead_def neq_Nil_conv)

lemma ahead_capture [simp]: "ahead P (capture n s st) = ahead P st"
  by (cases st rule: prod_cases3) (simp add: ahead_def capture_def)

lemma run_results:
  assumes "list_all P u" "s = [] \<or> \<not> P (hd s)"
  obtains rest where "ms (Star (Cls P)) (p, u @ s, c) = (p @ u, s, c) # rest" "\<forall>st\<in>set rest. ahead P st"
proof -
  have run: "takeWhile P (u @ s) = u"
    using assms by (cases s) (auto simp: list_all_iff takeWhile_append2)
  let ?rest = "map (\<lambda>k. (p @ take k (u @ s), drop k (u @ s), c)) (rev [0..<length u])"
  have "ahead P (p @ take k (u @ s), drop k (u @ s), c)" if "k < length u" for k
    using that assms(1) by (auto simp: ahead_def hd_drop_conv_nth nth_append list_all_iff)
  then have "\<forall>st\<in>set ?rest. ahead P st" by auto
  then show thesis using that [of ?rest] by (simp add: ms_Star_Cls run)
qed

lemma plus_results:
  assumes "list_all P u" "u \<noteq> []" "s = [] \<or> \<not> P (hd s)"
  obtains rest where "ms (plus_re (Cls P)) (p, u @ s, c) = (p @ u, s, c) # rest" "\<forall>st\<in>set rest. ahead P st"
proof -
  obtain x v where u: "u = x # v" using assms(2) by (cases u) auto
  then have "ms (plus_re (Cls P)) (p, u @ s, c) = ms (Star (Cls P)) (p @ [x], v @ s, c)"
    using assms(1) by (simp add: plus_re_def)
  moreover obtain rest where "ms (Star (Cls P)) (p @ [x], v @ s, c) = ((p @ [x]) @ v, s, c) # rest"
    "\<forall>st\<in>set rest. ahead P st"
    using assms(1,3) u run_results [of P v s "p @ [x]" c] by auto
  ultimately show thesis using that u by simp
qed

lemma first_only:
  "stuck P r \<Longrightarrow> \<forall>st\<in>set rest. ahead P st \<Longrightarrow> concat (map (ms r) (st # rest)) = ms r st"
  by (simp add: stuck_ahead)

lemma Star_then:
  assumes "list_all P u" "s = [] \<or> \<not> P (hd s)" "stuck P r"
  shows "ms (Seq (Star (Cls P)) r) (p, u @ s, c) = ms r (p @ u, s, c)"
proof -
  obtain rest where "ms (Star (Cls P)) (p, u @ s, c) = (p @ u, s, c) # rest" "\<forall>st\<in>set rest. ahead P st"
    using run_results [OF assms(1,2)] .
  then show ?thesis using first_only [OF assms(3)] by (simp only: ms_Seq)
qed

lemma plus_then:
  assumes "list_all P u" "u \<noteq> []" "s = [] \<or> \<not> P (hd s)" "stuck P r"
  shows "ms (Seq (plus_re (Cls P)) r) (p, u @ s, c) = ms r (p @ u, s, c)"
proof -
  obtain rest where "ms (plus_re (Cls P)) (p, u @ s, c) = (p @ u, s, c) # rest" "\<forall>st\<in>set rest. ahead P st"
    using plus_results [OF assms(1-3)] .
  then show ?thesis using first_only [OF assms(4)] by (simp only: ms_Seq)
qed

text \<open>The same inside a capturing group.\<close>

lemma capture_run: "capture n (u @ s) (p, s, c) = (p, s, (n, u) # c)"
  by (simp add: capture_def)

lemma Grp_plus_then:
  assumes "list_all P u" "u \<noteq> []" "s = [] \<or> \<not> P (hd s)" "stuck P r"
  shows "ms (Seq (Grp n (plus_re (Cls P))) r) (p, u @ s, c) = ms r (p @ u, s, (n, u) # c)"
proof -
  obtain rest where "ms (plus_re (Cls P)) (p, u @ s, c) = (p @ u, s, c) # rest" "\<forall>st\<in>set rest. ahead P st"
    using plus_results [OF assms(1-3)] .
  then have "ms (Grp n (plus_re (Cls P))) (p, u @ s, c)
      = (p @ u, s, (n, u) # c) # map (capture n (u @ s)) rest" "\<forall>st\<in>set (map (capture n (u @ s)) rest). ahead P st"
    by (simp_all add: capture_run)
  then show ?thesis using first_only [OF assms(4)] by (simp only: ms_Seq)
qed

lemma Grp_Star_then:
  assumes "list_all P u" "s = [] \<or> \<not> P (hd s)" "stuck P r"
  shows "ms (Seq (Grp n (Star (Cls P))) r) (p, u @ s, c) = ms r (p @ u, s, (n, u) # c)"
proof -
  obtain rest where "ms (Star (Cls P)) (p, u @ s, c) = (p @ u, s, c) # rest" "\<forall>st\<in>set rest. ahead P st"
    using run_results [OF assms(1,2)] .
  then have "ms (Grp n (Star (Cls P))) (p, u @ s, c)
      = (p @ u, s, (n, u) # c) # map (capture n (u @ s)) rest" "\<forall>st\<in>set (map (capture n (u @ s)) rest). ahead P st"
    by (simp_all add: capture_run)
  then show ?thesis using first_only [OF assms(3)] by (simp only: ms_Seq)
qed

text \<open>When an expression cannot go on in front of a character of the class.\<close>

lemma stuck_Lit: "w \<noteq> [] \<Longrightarrow> \<not> P (hd w) \<Longrightarrow> stuck P (Seq (Lit w) r)"
  by (cases w) (auto simp: stuck_def)

lemma stuck_eol: "stuck P (Seq eol r)" "stuck P eol"
  by (auto simp: stuck_def eol_def)

text \<open>An anchored expression is only tried at the start.\<close>

lemma scan_bol: "p \<noteq> [] \<Longrightarrow> scan_from (Seq bol r) p s = None"
  by (induction s arbitrary: p) (auto simp: match_here_def bol_def)

lemma re_match_bol:
  "re_match (Seq bol r) s =
     (case ms r ([], s, []) of [] \<Rightarrow> None
      | (p, s', c) # _ \<Rightarrow> Some ((0, take (length s - length s') s) # c))"
proof -
  have "ms (Seq bol r) ([], s, []) = ms r ([], s, [])" by (simp add: bol_def)
  moreover have "scan_from (Seq bol r) [x] t = None" for x t by (rule scan_bol) simp
  ultimately show ?thesis
    by (cases s) (auto simp: re_match_def match_here_def split: list.splits)
qed

text \<open>What an expression reads is a part of the text, over the alphabet of the expression.\<close>

fun over :: "(char \<Rightarrow> bool) \<Rightarrow> re \<Rightarrow> bool" where
  "over A Eps = True"
| "over A (Cls P) = (\<forall>x. P x \<longrightarrow> A x)"
| "over A (Lit w) = list_all A w"
| "over A (At f) = True"
| "over A (Seq q r) = (over A q \<and> over A r)"
| "over A (Alt q r) = (over A q \<and> over A r)"
| "over A (Star r) = over A r"
| "over A (Grp n r) = over A r"
| "over A (Bref n) = False"

definition reads :: "(char \<Rightarrow> bool) \<Rightarrow> rstate \<Rightarrow> rstate \<Rightarrow> bool" where
  "reads A st st' \<longleftrightarrow>
     (\<exists>u. list_all A u \<and> fst (snd st) = u @ fst (snd st') \<and> fst st' = fst st @ u)"

lemma reads_refl: "fst (snd st) = fst (snd st') \<Longrightarrow> fst st = fst st' \<Longrightarrow> reads A st st'"
  unfolding reads_def by (intro exI [of _ "[]"]) simp

lemma reads_one: "list_all A u \<Longrightarrow> reads A (p, u @ s, c) (p @ u, s, c)"
  by (auto simp: reads_def)

lemma reads_trans: "reads A x y \<Longrightarrow> reads A y z \<Longrightarrow> reads A x z"
  unfolding reads_def by (fastforce intro: exI [of _ "_ @ _"])

lemma reads_capture: "reads A st st' \<Longrightarrow> reads A st (capture n s st')"
  by (cases st' rule: prod_cases3) (auto simp: reads_def capture_def)

lemma set_ms_Star:
  "st' \<in> set (ms (Star r) (p, s, c)) \<longleftrightarrow>
     st' = (p, s, c)
     \<or> (\<exists>(p', s', c')\<in>set (ms r (p, s, c)). length s' < length s \<and> st' \<in> set (ms (Star r) (p', s', c')))"
proof -
  have "set (ms (Star r) (p, s, c)) = insert (p, s, c) (\<Union>(p', s', c')\<in>set (ms r (p, s, c)).
      if length s' < length s then set (ms (Star r) (p', s', c')) else {})"
    by (subst ms.simps(7)) (simp add: split_def if_distrib [of set])
  then show ?thesis by (simp add: split_def if_distrib [of "\<lambda>A. st' \<in> A"]) blast
qed

lemma ms_reads: "over A r \<Longrightarrow> st' \<in> set (ms r st) \<Longrightarrow> reads A st st'"
proof (induction r st arbitrary: st' rule: ms.induct)
  case (2 P p s c)
  then obtain x t where "s = [x] @ t" "A x" "st' = (p @ [x], t, c)" by (auto split: list.splits if_splits)
  then show ?case using reads_one [of A "[x]"] by (simp only: list.pred_inject)
next
  case (3 w p s c)
  then obtain t where "s = w @ t" "list_all A w" "st' = (p @ w, t, c)"
    by (auto simp: prefix_def split: if_splits)
  then show ?case by (simp only: reads_one)
next
  case (5 q r p s c)
  then obtain st1 where st1: "st1 \<in> set (ms q (p, s, c))" "st' \<in> set (ms r st1)" by auto
  have "reads A (p, s, c) st1" using 5(1) [OF _ st1(1)] 5(3) by simp
  moreover have "reads A st1 st'" using 5(2) [OF st1(1) _ st1(2)] 5(3) by simp
  ultimately show ?case by (rule reads_trans)
next
  case (7 r p s c)
  from 7(4) consider "st' = (p, s, c)"
    | p' s' c' where "(p', s', c') \<in> set (ms r (p, s, c))" "length s' < length s"
        "st' \<in> set (ms (Star r) (p', s', c'))"
    unfolding set_ms_Star [of st' r p s c] by blast
  then show ?case
  proof cases
    case 2
    have "reads A (p, s, c) (p', s', c')" using 7(1,3) 2(1) by simp
    moreover have "reads A (p', s', c') st'"
      using 7(2) [OF 2(1) refl refl 2(2)] 7(3) 2(3) by simp
    ultimately show ?thesis by (rule reads_trans)
  qed (simp add: reads_refl)
next
  case (8 n r p s c)
  then obtain st1 where "st1 \<in> set (ms r (p, s, c))" "st' = capture n s st1" by auto
  with 8 show ?case by (metis over.simps(8) reads_capture)
next
  case (6 q r p s c)
  then show ?case by (metis Un_iff ms.simps(6) over.simps(6) set_append)
qed (simp_all add: reads_refl split: if_splits)

lemma Seq_Lit_sublist:
  assumes "over (\<lambda>_. True) q" "ms (Seq q (Seq (Lit w) r)) (p, s, c) \<noteq> []"
  shows "sublist w s"
proof -
  obtain p' s' c' where m: "(p', s', c') \<in> set (ms q (p, s, c))" "ms (Seq (Lit w) r) (p', s', c') \<noteq> []"
    using assms(2) by (auto simp del: ms.simps(3))
  from ms_reads [OF assms(1) m(1)] obtain u where "s = u @ s'" by (auto simp: reads_def)
  moreover have "prefix w s'" using m(2) by (auto split: if_splits)
  ultimately show ?thesis by (auto simp: prefix_def)
qed

text \<open>A text that an expression between both anchors accepts.\<close>

lemma re_test_over:
  assumes "re_test (Seq bol r) s" "over A r" "\<forall>st st'. st' \<in> set (ms r st) \<longrightarrow> fst (snd st') = []"
  shows "list_all A s"
proof -
  from assms(1) obtain st where st: "st \<in> set (ms r ([], s, []))"
    by (auto simp: re_test_def re_match_bol split: list.splits)
  then obtain u where "list_all A u" "s = u @ fst (snd st)"
    using ms_reads [OF assms(2) st] by (auto simp: reads_def)
  moreover have "fst (snd st) = []" using assms(3) st by blast
  ultimately show ?thesis by simp
qed

text \<open>A repetition of an expression that reads a run one character at a time.\<close>

lemma Star_run:
  assumes "\<And>p c x t. P x \<Longrightarrow> ms q (p, x # t, c) = [(p @ [x], t, c)]" "\<And>p c. ms q (p, s, c) = []"
    "list_all P u"
  shows "\<exists>rest. ms (Star q) (p, u @ s, c) = (p @ u, s, c) # rest \<and> (\<forall>st\<in>set rest. ahead P st)"
  using assms(3)
proof (induction u arbitrary: p)
  case Nil
  then show ?case by (simp add: ms.simps(7) assms(2))
next
  case (Cons x u)
  then obtain rest where "ms (Star q) (p @ [x], u @ s, c) = ((p @ [x]) @ u, s, c) # rest"
    "\<forall>st\<in>set rest. ahead P st" by fastforce
  then show ?case using Cons.prems
    by (subst ms.simps(7)) (simp add: assms(1) ahead_def)
qed

text \<open>A text without line terminators, read to its end by \<open>.+\<close>.\<close>

fun one_line :: "string \<Rightarrow> bool" where
  "one_line [] = True"
| "one_line (x # s) \<longleftrightarrow> \<not> line_terminator (x # s) \<and> one_line s"

lemma Star_dot:
  assumes "one_line u"
  shows "\<exists>rest. ms (Star dot) (p, u, c) = (p @ u, [], c) # rest \<and> (\<forall>st\<in>set rest. ahead (\<lambda>_. True) st)"
  using assms
proof (induction u arbitrary: p)
  case Nil
  have "ms dot (p, [], c) = []" by (simp add: dot_def)
  then show ?case by (simp add: ms.simps(7))
next
  case (Cons x u)
  then obtain rest where "ms (Star dot) (p @ [x], u, c) = ((p @ [x]) @ u, [], c) # rest"
    "\<forall>st\<in>set rest. ahead (\<lambda>_. True) st" by fastforce
  moreover have "ms dot (p, x # u, c) = [(p @ [x], u, c)]" using Cons.prems by (simp add: dot_def)
  ultimately show ?case by (subst ms.simps(7)) (simp add: ahead_def)
qed

lemma Grp_dots_eol:
  assumes "one_line u" "u \<noteq> []"
  shows "ms (Seq (Grp n (plus_re dot)) (Seq eol Eps)) (p, u, c) = [(p @ u, [], (n, u) # c)]"
proof -
  obtain x v where u: "u = x # v" using assms(2) by (cases u) auto
  obtain rest where rest: "ms (Star dot) (p @ [x], v, c) = ((p @ [x]) @ v, [], c) # rest"
    "\<forall>st\<in>set rest. ahead (\<lambda>_. True) st"
    using Star_dot [of v "p @ [x]" c] assms(1) u by auto
  have "ms dot (p, u, c) = [(p @ [x], v, c)]" using assms(1) u by (simp add: dot_def)
  then have "ms (Grp n (plus_re dot)) (p, u, c) = (p @ u, [], (n, u) # c) # map (capture n u) rest"
    using rest u by (simp add: plus_re_def ms_Seq capture_def)
  moreover have "\<forall>st\<in>set (map (capture n u) rest). ahead (\<lambda>_. True) st" using rest by simp
  ultimately have "ms (Seq (Grp n (plus_re dot)) (Seq eol Eps)) (p, u, c)
      = ms (Seq eol Eps) (p @ u, [], (n, u) # c)"
    using first_only [OF stuck_eol(1)] by (simp only: ms_Seq [of "Grp n (plus_re dot)"])
  then show ?thesis by (simp add: eol_def)
qed

text \<open>The greedy \<open>(.+)\<close> in front of the last occurrence of a separator.\<close>

lemma Grp_any_results:
  "ms (Grp n (plus_re any)) (p, x # s, c) =
     map (\<lambda>k. (p @ x # take k s, drop k s, (n, x # take k s) # c)) (rev [0..<Suc (length s)])"
proof -
  have "length (takeWhile (\<lambda>_. True) s) = length s" by (induction s) auto
  then have "ms (plus_re any) (p, x # s, c)
      = map (\<lambda>k. (p @ x # take k s, drop k s, c)) (rev [0..<Suc (length s)])"
    by (simp add: plus_re_def any_def ms_Star_Cls)
  then show ?thesis by (auto simp: capture_def intro!: map_cong)
qed

lemma Grp_any_then:
  assumes u: "u \<noteq> []" and last: "\<And>k. 0 < k \<Longrightarrow> \<not> prefix w (drop k (w @ v))"
  shows "\<exists>rest. ms (Seq (Grp n (plus_re any)) (Seq (Lit w) r)) (p, u @ w @ v, c)
      = ms r (p @ u @ w, v, (n, u) # c) @ rest"
proof -
  obtain x t where ut: "u = x # t" using u by (cases u) auto
  define s where "s = t @ w @ v"
  let ?st = "\<lambda>k. (p @ x # take k s, drop k s, (n, x # take k s) # c)"
  let ?m = "ms (Seq (Lit w) r)"
  have idx: "[0..<Suc (length s)] = [0..<length t] @ length t # [Suc (length t)..<Suc (length s)]"
    unfolding s_def using upt_add_eq_append [of 0 "length t" "Suc (length (w @ v))"]
    by (simp add: upt_conv_Cons del: upt_Suc)
  have "?m (?st k) = []" if "length t < k" for k
  proof -
    have "drop k s = drop (k - length t) (w @ v)" using that by (simp add: s_def)
    then have "\<not> prefix w (drop k s)" using last [of "k - length t"] that by simp
    then show ?thesis by simp
  qed
  then have later: "concat (map (?m \<circ> ?st) (rev [Suc (length t)..<Suc (length s)])) = []"
    by (auto simp del: upt_Suc ms.simps)
  have here: "?m (?st (length t)) = ms r (p @ u @ w, v, (n, u) # c)"
    by (simp add: s_def ut)
  have "ms (Seq (Grp n (plus_re any)) (Seq (Lit w) r)) (p, u @ w @ v, c)
      = concat (map (?m \<circ> ?st) (rev [0..<Suc (length s)]))"
    unfolding ms_Seq [of "Grp n (plus_re any)"] ut append_Cons s_def [symmetric] Grp_any_results
    by (simp only: map_map)
  then show ?thesis
    unfolding idx by (simp only: rev_append map_append concat_append rev.simps list.map concat.simps append_Nil
      append_Nil2 append_assoc comp_apply later here) blast
qed

text \<open>A choice of words: the alternatives that start the text, in their order.\<close>

lemma ms_words:
  "ms (words xs) (p, s, c) = map (\<lambda>w. (p @ w, drop (length w) s, c)) (filter (\<lambda>w. prefix w s) xs)"
  unfolding words_def
proof (induction xs rule: induct_list012)
  case 1
  show ?case by (cases s) simp_all
qed simp_all

lemma words_then:
  assumes "filter (\<lambda>w. prefix w (u @ s)) xs = [u]"
  shows "ms (Seq (Grp n (words xs)) r) (p, u @ s, c) = ms r (p @ u, s, (n, u) # c)"
  by (simp add: ms_words assms capture_def)

subsection \<open>The first result\<close>

text \<open>In front of the text \<open>u @ s\<close>, the first result of the expression reads \<open>u\<close> and turns the captures
  \<open>c\<close> into \<open>c'\<close>.\<close>

definition eats :: "re \<Rightarrow> string \<Rightarrow> string \<Rightarrow> caps \<Rightarrow> caps \<Rightarrow> bool" where
  "eats r u s c c' \<longleftrightarrow> (\<forall>p. \<exists>rest. ms r (p, u @ s, c) = (p @ u, s, c') # rest)"

definition refuses :: "re \<Rightarrow> string \<Rightarrow> caps \<Rightarrow> bool" where
  "refuses r s c \<longleftrightarrow> (\<forall>p. ms r (p, s, c) = [])"

lemma eats_Lit: "eats (Lit w) w s c c"
  by (simp add: eats_def)

lemma eats_Eps: "eats Eps [] s c c"
  by (simp add: eats_def)

lemma eats_eol: "eats eol [] [] c c"
  by (simp add: eats_def eol_def)

lemma eats_Seq:
  assumes "eats q u (v @ s) c c1" "eats r v s c1 c2"
  shows "eats (Seq q r) (u @ v) s c c2"
  unfolding eats_def
proof
  fix p
  from assms(1) obtain rest where "ms q (p, u @ v @ s, c) = (p @ u, v @ s, c1) # rest"
    by (auto simp: eats_def)
  moreover from assms(2) obtain rest' where "ms r (p @ u, v @ s, c1) = ((p @ u) @ v, s, c2) # rest'"
    unfolding eats_def by blast
  ultimately show "\<exists>rest. ms (Seq q r) (p, (u @ v) @ s, c) = (p @ u @ v, s, c2) # rest"
    by simp
qed

lemma eats_Grp: "eats r u s c c' \<Longrightarrow> eats (Grp n r) u s c ((n, u) # c')"
  unfolding eats_def
proof
  fix p
  assume "\<forall>p. \<exists>rest. ms r (p, u @ s, c) = (p @ u, s, c') # rest"
  then obtain rest where "ms r (p, u @ s, c) = (p @ u, s, c') # rest" by blast
  then show "\<exists>rest. ms (Grp n r) (p, u @ s, c) = (p @ u, s, (n, u) # c') # rest"
    by (simp add: capture_def)
qed

lemma eats_opt: "eats q u s c c' \<Longrightarrow> eats (opt q) u s c c'"
  unfolding eats_def opt_def
proof
  fix p
  assume "\<forall>p. \<exists>rest. ms q (p, u @ s, c) = (p @ u, s, c') # rest"
  then obtain rest where "ms q (p, u @ s, c) = (p @ u, s, c') # rest" by blast
  then show "\<exists>rest. ms (Alt q Eps) (p, u @ s, c) = (p @ u, s, c') # rest" by simp
qed

lemma eats_opt_skip: "refuses q s c \<Longrightarrow> eats (opt q) [] s c c"
  by (simp add: eats_def opt_def refuses_def)

lemma eats_Star_end: "refuses r s c \<Longrightarrow> eats (Star r) [] s c c"
  by (simp add: eats_def refuses_def ms.simps(7))

lemma eats_Star_step:
  assumes "eats r u (v @ s) c c1" "u \<noteq> []" "eats (Star r) v s c1 c2"
  shows "eats (Star r) (u @ v) s c c2"
  unfolding eats_def
proof
  fix p
  from assms(1) obtain rest where m: "ms r (p, u @ v @ s, c) = (p @ u, v @ s, c1) # rest"
    by (auto simp: eats_def)
  from assms(3) obtain rest' where "ms (Star r) (p @ u, v @ s, c1) = ((p @ u) @ v, s, c2) # rest'"
    unfolding eats_def by blast
  with m assms(2) show "\<exists>rest. ms (Star r) (p, (u @ v) @ s, c) = (p @ u @ v, s, c2) # rest"
    by (subst ms.simps(7)) simp
qed

lemma eats_Star_Cls:
  "list_all P u \<Longrightarrow> s = [] \<or> \<not> P (hd s) \<Longrightarrow> eats (Star (Cls P)) u s c c"
  unfolding eats_def by (metis run_results)

lemma eats_plus_Cls:
  "list_all P u \<Longrightarrow> u \<noteq> [] \<Longrightarrow> s = [] \<or> \<not> P (hd s) \<Longrightarrow> eats (plus_re (Cls P)) u s c c"
  unfolding eats_def by (metis plus_results)

lemma ms_seqs_append: "ms (seqs (rs @ qs)) st = concat (map (ms (seqs qs)) (ms (seqs rs) st))"
proof (induction rs arbitrary: st)
  case Nil
  then show ?case by (cases st rule: prod_cases3) simp
next
  case (Cons r rs)
  have flat: "concat (map (\<lambda>x. concat (map g (h x))) xs) = concat (map g (concat (map h xs)))"
    for g :: "rstate \<Rightarrow> rstate list" and h :: "rstate \<Rightarrow> rstate list" and xs
    by (induction xs) simp_all
  from Cons have "ms (seqs (rs @ qs)) = (\<lambda>st. concat (map (ms (seqs qs)) (ms (seqs rs) st)))" by blast
  then show ?case by (simp only: append_Cons seqs.simps ms_Seq flat)
qed

lemma eats_append:
  assumes "eats (seqs rs) u (v @ s) c c1" "eats (seqs qs) v s c1 c2"
  shows "eats (seqs (rs @ qs)) (u @ v) s c c2"
  using eats_Seq [OF assms] by (simp add: eats_def ms_seqs_append ms_Seq)

lemma eats_Cons:
  "eats r u (v @ s) c c1 \<Longrightarrow> eats (seqs rs) v s c1 c2 \<Longrightarrow> eats (seqs (r # rs)) (u @ v) s c c2"
  using eats_Seq by simp

lemma refuses_Seq: "refuses q s c \<Longrightarrow> refuses (Seq q r) s c"
  by (simp add: refuses_def)

lemma refuses_Lit: "\<not> prefix w s \<Longrightarrow> refuses (Lit w) s c"
  by (simp add: refuses_def)

text \<open>White space: nothing, or one blank, in front of a graphic character.\<close>

lemma ms_ws: "ms ws (p, s, c) = map (\<lambda>w. (p @ w, drop (length w) s, c)) (filter (\<lambda>w. prefix w s) js_ws)"
  using ms_words [of js_ws] by (simp add: ws_def words_def)

lemma ws_refuses: "graphic x \<Longrightarrow> ms ws (p, x # s, c) = []"
  using ws_head_graphic [of x s] by (simp add: ms_ws ws_head_0_iff filter_empty_conv)

lemma ms_ws_blank: "ms ws (p, CHR '' '' # s, c) = [(p @ '' '', s, c)]"
  by (simp add: ms_ws js_ws_def)

lemma Star_ws_none: "graphic x \<Longrightarrow> ms (Star ws) (p, x # s, c) = [(p, x # s, c)]"
  by (simp add: ms.simps(7) ws_refuses)

lemma Star_ws_blank:
  "graphic x \<Longrightarrow> ms (Star ws) (p, CHR '' '' # x # s, c) = [(p @ '' '', x # s, c), (p, CHR '' '' # x # s, c)]"
  by (subst ms.simps(7)) (simp add: ms_ws_blank Star_ws_none)

lemma eats_ws_none: "graphic x \<Longrightarrow> eats (Star ws) [] (x # s) c c"
  by (simp add: eats_def Star_ws_none)

lemma eats_ws_blank: "graphic x \<Longrightarrow> eats (Star ws) '' '' (x # s) c c"
  by (simp add: eats_def Star_ws_blank)

definition starts_graphic :: "string \<Rightarrow> bool" where
  "starts_graphic s \<longleftrightarrow> s \<noteq> [] \<and> graphic (hd s)"

lemma starts_graphic_simps [simp]:
  "\<not> starts_graphic []" "starts_graphic (x # s) = graphic x"
  "starts_graphic (u @ s) = (if u = [] then starts_graphic s else starts_graphic u)"
  by (auto simp: starts_graphic_def)

lemma eats_seqs_blank:
  assumes "eats (seqs rs) v s c c'" "starts_graphic (v @ s)"
  shows "eats (seqs (Star ws # rs)) (CHR '' '' # v) s c c'"
proof -
  obtain x t where xt: "v @ s = x # t" "graphic x" using assms(2) by (cases "v @ s") auto
  have "eats (Star ws) '' '' (v @ s) c c" unfolding xt(1) by (rule eats_ws_blank [OF xt(2)])
  from eats_Cons [OF this assms(1)] show ?thesis by simp
qed

lemma eats_seqs_none:
  assumes "eats (seqs rs) v s c c'" "starts_graphic (v @ s)"
  shows "eats (seqs (Star ws # rs)) v s c c'"
proof -
  obtain x t where xt: "v @ s = x # t" "graphic x" using assms(2) by (cases "v @ s") auto
  have "eats (Star ws) [] (v @ s) c c" unfolding xt(1) by (rule eats_ws_none [OF xt(2)])
  from eats_Cons [OF this assms(1)] show ?thesis by simp
qed

lemma eats_seqs_Lit: "eats (seqs rs) v s c c' \<Longrightarrow> eats (seqs (Lit w # rs)) (w @ v) s c c'"
  by (rule eats_Cons [OF eats_Lit])

lemma eats_seqs_Nil: "eats (seqs []) [] s c c"
  by (simp add: eats_def)

lemma eats_seqs_last: "eats r u s c c' \<Longrightarrow> eats (seqs [r]) u s c c'"
  using eats_Cons [of r u "[]" s c c' "[]"] eats_seqs_Nil by simp

lemma refuses_seqs_blank:
  assumes "refuses (seqs rs) s c" "refuses (seqs rs) (CHR '' '' # s) c" "starts_graphic s"
  shows "refuses (seqs (Star ws # rs)) (CHR '' '' # s) c"
proof -
  obtain x t where xt: "s = x # t" "graphic x" using assms(3) by (cases s) auto
  show ?thesis using assms(1,2) by (simp add: refuses_def ms_Seq xt Star_ws_blank)
qed

lemma refuses_seqs_none:
  assumes "refuses (seqs rs) s c" "starts_graphic s"
  shows "refuses (seqs (Star ws # rs)) s c"
proof -
  obtain x t where xt: "s = x # t" "graphic x" using assms(2) by (cases s) auto
  show ?thesis using assms(1) by (simp add: refuses_def ms_Seq xt Star_ws_none)
qed

lemma refuses_seqs_Lit: "refuses (seqs rs) s c \<Longrightarrow> refuses (seqs (Lit w # rs)) (w @ s) c"
  by (simp add: refuses_def)

lemma refuses_not_Lit: "\<not> prefix w s \<Longrightarrow> refuses (seqs (Lit w # rs)) s c"
  by (simp add: refuses_def)

text \<open>An anchored expression and its first result.\<close>

lemma re_match_eats: "eats r s [] [] c \<Longrightarrow> re_match (Seq bol r) s = Some ((0, s) # c)"
  by (auto simp: eats_def re_match_bol dest: spec [of _ "[]"])

lemma re_match_refuses: "refuses r s [] \<Longrightarrow> re_match (Seq bol r) s = None"
  by (simp add: refuses_def re_match_bol)

end
