(* ===== verification/Billing_Expr.thy ===== *)
theory Billing_Expr
  imports Js_Json Js_Regex
begin

section \<open>Billing expressions\<close>

text \<open>
  The expressions that price a model (\<open>features/pricing/lib/billing-expr.ts\<close>), first part: the
  registry of variables and the reader of tiers.  The regular expressions are translated term by term;
  see \<open>Js_Regex\<close> for their matcher.  \<open>normalizeTierLabel\<close> is left out: it needs the Unicode
  tables of case conversion.
\<close>

subsection \<open>Variables\<close>

datatype var_side = Input_Side | Output_Side | Condition_Side

record billing_var =
  var_key :: string
  var_field :: "string option"
  tierField :: "string option"
  var_label :: string
  shortLabel :: string
  side :: var_side
  isBase :: bool
  isConditionOnly :: bool
  var_group :: "string option"

definition price_var :: "string \<Rightarrow> string \<Rightarrow> string \<Rightarrow> string \<Rightarrow> string \<Rightarrow> var_side \<Rightarrow> bool \<Rightarrow> string option \<Rightarrow> billing_var" where
  "price_var k f tf l sl sd b g =
     \<lparr>var_key = k, var_field = Some f, tierField = Some tf, var_label = l, shortLabel = sl, side = sd,
      isBase = b, isConditionOnly = False, var_group = g\<rparr>"

definition BILLING_VARS :: "billing_var list" where
  "BILLING_VARS =
     [price_var ''p'' ''inputPrice'' ''input_unit_cost'' ''Input price'' ''Input'' Input_Side True None,
      price_var ''c'' ''outputPrice'' ''output_unit_cost'' ''Completion price'' ''Output'' Output_Side True None,
      \<lparr>var_key = ''len'', var_field = None, tierField = None, var_label = ''Input length'',
       shortLabel = ''Length'', side = Condition_Side, isBase = False, isConditionOnly = True,
       var_group = None\<rparr>,
      price_var ''cr'' ''cacheReadPrice'' ''cache_read_unit_cost'' ''Cache read price'' ''Cache Read''
        Input_Side False (Some ''cache''),
      price_var ''cc'' ''cacheCreatePrice'' ''cache_create_unit_cost'' ''Cache create price''
        ''Cache Write'' Input_Side False (Some ''cache''),
      price_var ''cc1h'' ''cacheCreate1hPrice'' ''cache_create_1h_unit_cost'' ''Cache create (1h) price''
        ''Cache Write (1h)'' Input_Side False (Some ''cache''),
      price_var ''img'' ''imagePrice'' ''image_unit_cost'' ''Image input price'' ''Image In''
        Input_Side False (Some ''media''),
      price_var ''img_o'' ''imageOutputPrice'' ''image_output_unit_cost'' ''Image output price''
        ''Image Out'' Output_Side False (Some ''media''),
      price_var ''ai'' ''audioInputPrice'' ''audio_input_unit_cost'' ''Audio input price'' ''Audio In''
        Input_Side False (Some ''media''),
      price_var ''ao'' ''audioOutputPrice'' ''audio_output_unit_cost'' ''Audio output price'' ''Audio Out''
        Output_Side False (Some ''media'')]"

definition BILLING_PRICING_VARS :: "billing_var list" where
  "BILLING_PRICING_VARS = filter (\<lambda>v. \<not> isConditionOnly v) BILLING_VARS"

definition BILLING_CONDITION_VARS :: "string list" where
  "BILLING_CONDITION_VARS = map var_key (filter (\<lambda>v. isBase v \<or> isConditionOnly v) BILLING_VARS)"

definition BILLING_VAR_KEY_TO_FIELD :: "(string \<times> string) list" where
  "BILLING_VAR_KEY_TO_FIELD = map (\<lambda>v. (var_key v, the (var_field v))) BILLING_PRICING_VARS"

definition BILLING_EXTRA_VARS :: "billing_var list" where
  "BILLING_EXTRA_VARS = filter (\<lambda>v. \<not> isBase v \<and> \<not> isConditionOnly v) BILLING_VARS"

text \<open>Pairs of tier field and variable.\<close>

definition BILLING_CACHE_VAR_MAP :: "(string \<times> string) list" where
  "BILLING_CACHE_VAR_MAP = map (\<lambda>v. (the (tierField v), var_key v)) BILLING_EXTRA_VARS"

text \<open>The classes \<open>[\d.eE+-]\<close> and \<open>[\d.eE+]\<close>.\<close>

definition num_char :: "char \<Rightarrow> bool" where
  "num_char c \<longleftrightarrow> is_digit c \<or> c = CHR ''.'' \<or> c = CHR ''e'' \<or> c = CHR ''E'' \<or> c = CHR ''+'' \<or> c = CHR ''-''"

definition pos_char :: "char \<Rightarrow> bool" where
  "pos_char c \<longleftrightarrow> is_digit c \<or> c = CHR ''.'' \<or> c = CHR ''e'' \<or> c = CHR ''E'' \<or> c = CHR ''+''"

definition num_re :: re where
  "num_re = plus_re (Cls num_char)"

definition BILLING_VAR_REGEX :: re where
  "BILLING_VAR_REGEX =
     seqs [word_boundary, Grp 1 (words (map var_key BILLING_PRICING_VARS)), Star ws, Lit ''*'', Star ws,
           Grp 2 num_re]"

subsection \<open>Tiers\<close>

record tier_condition =
  tc_var :: string
  tc_op :: string
  tc_value :: jsnum

record parsed_tier =
  tier_label :: string
  tier_conditions :: "tier_condition list"
  tier_prices :: "(string \<times> jsnum) list"

text \<open>\<open>/^v(\d+):([\s\S]*)$/\<close>.\<close>

definition version_re :: re where
  "version_re = seqs [bol, Lit ''v'', Grp 1 (plus_re (Cls is_digit)), Lit '':'', Grp 2 (Star any), eol]"

definition stripExprVersion :: "string \<Rightarrow> jsnum \<times> string" where
  "stripExprVersion exprStr =
     (if exprStr = [] then (Fin 1, [])
      else (case re_match version_re exprStr of
              Some m \<Rightarrow> (number_of_string (the_group 1 m), the_group 2 m)
            | None \<Rightarrow> (Fin 1, exprStr)))"

definition num_or_0 :: "jsnum option \<Rightarrow> jsnum" where
  "num_or_0 n = (case n of None \<Rightarrow> Fin 0 | Some NaN \<Rightarrow> Fin 0 | Some m \<Rightarrow> m)"

definition add_coeff :: "(string \<times> jsnum) list \<Rightarrow> caps \<Rightarrow> (string \<times> jsnum) list" where
  "add_coeff coeffs m =
     (if the_group 1 m \<in> fst ` set coeffs then coeffs
      else coeffs @ [(the_group 1 m, number_of_string (the_group 2 m))])"

definition parseTierBody :: "string \<Rightarrow> (string \<times> jsnum) list" where
  "parseTierBody bodyStr =
     (let coeffs = foldl add_coeff [] (re_matches BILLING_VAR_REGEX bodyStr)
      in map (\<lambda>(varName, field). (field, num_or_0 (map_of coeffs varName))) BILLING_VAR_KEY_TO_FIELD)"

definition cond_var :: re where
  "cond_var = words [''p'', ''c'', ''len'']"

definition cond_op :: re where
  "cond_op = words [''<'', ''<='', ''>'', ''>='']"

definition cond_re :: re where
  "cond_re = seqs [cond_var, Star ws, cond_op, Star ws, plus_re (Cls pos_char)]"

definition cond_group :: re where
  "cond_group = Grp 1 (seqs [cond_re, Star (seqs [Star ws, Lit ''&&'', Star ws, cond_re])])"

definition tier_re :: re where
  "tier_re =
     seqs [opt (seqs [cond_group, Star ws, Lit ''?'', Star ws]), Lit ''tier(\"'', Grp 2 (Star (Cls not_quote)),
           Lit ''\",'', Star ws, Grp 3 (plus_re (Cls (\<lambda>c. c \<noteq> CHR '')''))), Lit '')'']"

definition and_re :: re where
  "and_re = seqs [Star ws, Lit ''&&'', Star ws]"

text \<open>\<open>s.split(re)\<close> for an expression that matches no empty text, with fuel as in \<^const>\<open>re_matches\<close>.\<close>

fun re_split_from :: "nat \<Rightarrow> re \<Rightarrow> string \<Rightarrow> string \<Rightarrow> string list" where
  "re_split_from 0 r p s = [s]"
| "re_split_from (Suc n) r p s =
     (case scan_from r p s of None \<Rightarrow> [s]
      | Some (t, (p', s', c)) \<Rightarrow> take (length s - length t) s # re_split_from n r p' s')"

definition re_split :: "re \<Rightarrow> string \<Rightarrow> string list" where
  "re_split r s = re_split_from (length s + 1) r [] s"

definition cond_part_re :: re where
  "cond_part_re = seqs [bol, Grp 1 cond_var, Star ws, Grp 2 cond_op, Star ws, Grp 3 (plus_re (Cls pos_char)), eol]"

definition parse_condition_part :: "string \<Rightarrow> tier_condition option" where
  "parse_condition_part cp =
     map_option (\<lambda>cm. \<lparr>tc_var = the_group 1 cm, tc_op = the_group 2 cm,
                       tc_value = number_of_string (the_group 3 cm)\<rparr>)
       (re_match cond_part_re (trim cp))"

definition parse_conditions :: "string \<Rightarrow> tier_condition list" where
  "parse_conditions condStr =
     (if condStr = [] then [] else List.map_filter parse_condition_part (re_split and_re condStr))"

definition parseTiersFromExpr :: "string \<Rightarrow> parsed_tier list" where
  "parseTiersFromExpr exprStr =
     (if exprStr = [] then []
      else
        (let body = snd (stripExprVersion exprStr)
         in map (\<lambda>m. \<lparr>tier_label = the_group 2 m,
                      tier_conditions = parse_conditions (the_group 1 m),
                      tier_prices = parseTierBody (the_group 3 m)\<rparr>)
              (re_matches tier_re body)))"

subsection \<open>Characters of numbers\<close>

lemma not_num_chars [simp]: "\<not> num_char CHR '' ''" "\<not> num_char CHR '')''" "\<not> num_char CHR ''(''"
  "\<not> num_char CHR ''?''" "\<not> num_char CHR ''&''" "\<not> num_char CHR 0x22"
  by (simp_all add: num_char_def is_digit_def)

lemma num_char_graphic: "num_char c \<Longrightarrow> graphic c"
  by (auto simp: num_char_def graphic_def is_digit_def)

lemma pos_char_num: "pos_char c \<Longrightarrow> num_char c"
  by (auto simp: num_char_def pos_char_def)

end
