(* ===== verification/Request_Rules.thy ===== *)
theory Request_Rules
  imports Billing_Expr
begin

section \<open>Request rules\<close>

text \<open>
  The second part of \<open>features/pricing/lib/billing-expr.ts\<close>: the reader and the builder of request
  rules (conditional multipliers on a price), and the functions that join a price with its rules and
  take them apart again.

  The readers can throw: \<open>JSON.parse\<close> on a string literal that the expression accepts and JSON does
  not, and the conversion of an object to text.  Their result is a sum whose left part is the exception.
\<close>

datatype js_error = SyntaxError | TypeError

subsection \<open>Types and constants\<close>

definition MATCH_EQ :: string where "MATCH_EQ = ''eq''"
definition MATCH_CONTAINS :: string where "MATCH_CONTAINS = ''contains''"
definition MATCH_GT :: string where "MATCH_GT = ''gt''"
definition MATCH_GTE :: string where "MATCH_GTE = ''gte''"
definition MATCH_LT :: string where "MATCH_LT = ''lt''"
definition MATCH_LTE :: string where "MATCH_LTE = ''lte''"
definition MATCH_EXISTS :: string where "MATCH_EXISTS = ''exists''"
definition MATCH_RANGE :: string where "MATCH_RANGE = ''range''"

lemmas match_defs = MATCH_EQ_def MATCH_CONTAINS_def MATCH_GT_def MATCH_GTE_def MATCH_LT_def MATCH_LTE_def
  MATCH_EXISTS_def MATCH_RANGE_def

definition TIME_FUNCS :: "string list" where
  "TIME_FUNCS = [''hour'', ''minute'', ''weekday'', ''month'', ''day'']"

definition COMMON_TIMEZONES :: "(string \<times> string) list" where
  "COMMON_TIMEZONES =
     [(''Asia/Shanghai'', ''UTC+8 Shanghai (Asia/Shanghai)''), (''UTC'', ''UTC''),
      (''America/New_York'', ''UTC-5 New York (America/New_York)''),
      (''America/Los_Angeles'', ''UTC-8 Los Angeles (America/Los_Angeles)''),
      (''America/Chicago'', ''UTC-6 Chicago (America/Chicago)''),
      (''Europe/London'', ''UTC+0 London (Europe/London)''),
      (''Europe/Berlin'', ''UTC+1 Berlin (Europe/Berlin)''),
      (''Asia/Tokyo'', ''UTC+9 Tokyo (Asia/Tokyo)''),
      (''Asia/Singapore'', ''UTC+8 Singapore (Asia/Singapore)''),
      (''Asia/Seoul'', ''UTC+9 Seoul (Asia/Seoul)''),
      (''Australia/Sydney'', ''UTC+10 Sydney (Australia/Sydney)'')]"

text \<open>\<open>/^-?(?:\d+\.?\d*|\.\d+)(?:[eE][+-]?\d+)?$/\<close>.\<close>

definition NUMERIC_LITERAL_REGEX :: re where
  "NUMERIC_LITERAL_REGEX =
     seqs [bol, opt (Lit ''-''),
           Alt (seqs [plus_re (Cls is_digit), opt (Lit ''.''), Star (Cls is_digit)])
               (seqs [Lit ''.'', plus_re (Cls is_digit)]),
           opt (seqs [Cls (\<lambda>c. c = CHR ''e'' \<or> c = CHR ''E''), opt (Cls (\<lambda>c. c = CHR ''+'' \<or> c = CHR ''-'')),
                      plus_re (Cls is_digit)]),
           eol]"

datatype ph_source = Param | Header

record param_header_condition =
  ph_source :: ph_source
  path :: string
  ph_mode :: string
  ph_value :: string

record time_condition =
  timeFunc :: string
  timezone :: string
  t_mode :: string
  t_value :: string
  rangeStart :: string
  rangeEnd :: string

datatype request_condition = Time_Condition time_condition | Param_Header_Condition param_header_condition

record request_rule_group =
  conditions :: "request_condition list"
  multiplier :: string

subsection \<open>Reader\<close>

text \<open>Both splitting loops, for the separators \<open>' * '\<close> and \<open>' && '\<close>: the depth counts the character at
  the index before the separator is looked for.\<close>

definition paren_step :: "char \<Rightarrow> int \<Rightarrow> int" where
  "paren_step c d = (if c = CHR ''('' then d + 1 else if c = CHR '')'' then d - 1 else d)"

function split_top :: "string \<Rightarrow> int \<Rightarrow> string \<Rightarrow> string \<Rightarrow> string list" where
  "split_top sep d acc [] = [rev acc]"
| "split_top sep d acc (c # s) =
     (let d' = paren_step c d
      in if d' = 0 \<and> prefix sep (c # s) then rev acc # split_top sep d' [] (drop (length sep - 1) s)
         else split_top sep d' (c # acc) s)"
  by pat_completeness auto
termination
  by (relation "measure (\<lambda>(sep, d, acc, s). length s)") auto

definition split_parts :: "string \<Rightarrow> string \<Rightarrow> string list" where
  "split_parts sep expr = filter (\<lambda>p. p \<noteq> []) (map trim (split_top sep 0 [] expr))"

definition splitTopLevelMultiply :: "string \<Rightarrow> string list" where
  "splitTopLevelMultiply = split_parts '' * ''"

definition splitTopLevelAnd :: "string \<Rightarrow> string list" where
  "splitTopLevelAnd = split_parts '' && ''"

text \<open>The literal, \<^const>\<open>None\<close> for a null result.\<close>

definition parseExprLiteral :: "string \<Rightarrow> jsval option" where
  "parseExprLiteral raw =
     (let lit = trim raw
      in if lit = ''true'' \<or> lit = ''false'' then Some (JStr lit)
         else if re_test NUMERIC_LITERAL_REGEX lit then Some (JStr lit)
         else (case json_parse lit of Some JNull \<Rightarrow> None | v \<Rightarrow> v))"

definition quoted_name :: "nat \<Rightarrow> re" where
  "quoted_name n = Grp n (plus_re (Cls not_quote))"

definition range_parts :: "re list" where
  "range_parts =
     [Grp 1 (words TIME_FUNCS), Lit ''(\"'', quoted_name 2, Lit ''\") >= '', Grp 3 num_re, Lit '' || '',
      Bref 1, Lit ''(\"'', Bref 2, Lit ''\") < '', Grp 4 num_re]"

definition time_range_re :: re where
  "time_range_re = seqs (bol # range_parts @ [eol])"

definition time_range_paren_re :: re where
  "time_range_paren_re = seqs (bol # Lit ''('' # range_parts @ [Lit '')'', eol])"

definition time_cmp_re :: re where
  "time_cmp_re =
     seqs [bol, Grp 1 (words TIME_FUNCS), Lit ''(\"'', quoted_name 2, Lit ''\") '',
           Grp 3 (words [''=='', ''>='', ''<'']), Lit '' '', Grp 4 num_re, eol]"

definition range_condition :: "caps \<Rightarrow> request_condition" where
  "range_condition m =
     Time_Condition \<lparr>timeFunc = the_group 1 m, timezone = the_group 2 m, t_mode = MATCH_RANGE, t_value = [],
                     rangeStart = the_group 3 m, rangeEnd = the_group 4 m\<rparr>"

definition time_op_mode :: "string \<Rightarrow> string" where
  "time_op_mode oper =
     (if oper = ''=='' then MATCH_EQ else if oper = ''>='' then MATCH_GTE
      else if oper = ''<'' then MATCH_LT else MATCH_EQ)"

definition tryParseTimeCondition :: "string \<Rightarrow> request_condition option" where
  "tryParseTimeCondition expr =
     (case re_match time_range_re expr of Some m \<Rightarrow> Some (range_condition m)
      | None \<Rightarrow>
     (case re_match time_range_paren_re expr of Some m \<Rightarrow> Some (range_condition m)
      | None \<Rightarrow>
     (case re_match time_cmp_re expr of
        Some m \<Rightarrow>
          Some (Time_Condition
            \<lparr>timeFunc = the_group 1 m, timezone = the_group 2 m, t_mode = time_op_mode (the_group 3 m),
             t_value = the_group 4 m, rangeStart = [], rangeEnd = []\<rparr>)
      | None \<Rightarrow> None)))"

definition header_exists_re :: re where
  "header_exists_re = seqs [bol, Lit ''header(\"'', quoted_name 1, Lit ''\") != \"\"'', eol]"

definition param_exists_re :: re where
  "param_exists_re = seqs [bol, Lit ''param(\"'', quoted_name 1, Lit ''\") != nil'', eol]"

text \<open>\<open>"(?:[^"\\]|\\.)*"\<close>.\<close>

definition string_literal_re :: re where
  "string_literal_re =
     seqs [Lit ''\"'', Star (Alt (Cls (\<lambda>c. c \<noteq> CHR 0x22 \<and> c \<noteq> CHR 0x5C)) (Seq (Lit [CHR 0x5C]) dot)), Lit ''\"'']"

definition header_has_re :: re where
  "header_has_re =
     seqs [bol, Lit ''has(header(\"'', quoted_name 1, Lit ''\"), '', Grp 2 string_literal_re, Lit '')'', eol]"

definition param_has_re :: re where
  "param_has_re =
     seqs [bol, Lit ''param(\"'', quoted_name 1, Lit ''\") != nil && has(param(\"'', quoted_name 2, Lit ''\"), '',
           Grp 3 string_literal_re, Lit '')'', eol]"

definition param_cmp_re :: re where
  "param_cmp_re =
     seqs [bol, Lit ''param(\"'', quoted_name 1, Lit ''\") != nil && param(\"'', quoted_name 2, Lit ''\") '',
           Grp 3 (words [''>'', ''>='', ''<'', ''<='']), Lit '' '', Grp 4 num_re, eol]"

definition eq_re :: re where
  "eq_re =
     seqs [bol, Grp 1 (words [''param'', ''header'']), Lit ''(\"'', quoted_name 2, Lit ''\") == '',
           Grp 3 (plus_re dot), eol]"

definition ph_condition :: "ph_source \<Rightarrow> string \<Rightarrow> string \<Rightarrow> string \<Rightarrow> request_condition" where
  "ph_condition src pth md v =
     Param_Header_Condition \<lparr>ph_source = src, path = pth, ph_mode = md, ph_value = v\<rparr>"

definition param_op_mode :: "string \<Rightarrow> string" where
  "param_op_mode oper =
     (if oper = ''>'' then MATCH_GT else if oper = ''>='' then MATCH_GTE
      else if oper = ''<'' then MATCH_LT else MATCH_LTE)"

text \<open>The value of a condition whose literal goes through \<open>JSON.parse\<close> outside any handler.\<close>

definition contains_condition :: "ph_source \<Rightarrow> string \<Rightarrow> string \<Rightarrow> js_error + request_condition option" where
  "contains_condition src pth raw =
     (case json_parse raw of
        Some (JStr v) \<Rightarrow> Inr (Some (ph_condition src pth MATCH_CONTAINS v))
      | _ \<Rightarrow> Inl SyntaxError)"

definition eq_condition :: "caps \<Rightarrow> js_error + request_condition option" where
  "eq_condition m =
     (case parseExprLiteral (the_group 3 m) of
        None \<Rightarrow> Inr None
      | Some v \<Rightarrow>
          (case js_string v of
             None \<Rightarrow> Inl TypeError
           | Some t \<Rightarrow> Inr (Some (ph_condition (if the_group 1 m = ''header'' then Header else Param)
                                  (the_group 2 m) MATCH_EQ t))))"

definition same_groups :: "caps option \<Rightarrow> caps option" where
  "same_groups m =
     (case m of Some c \<Rightarrow> if the_group 1 c = the_group 2 c then Some c else None | None \<Rightarrow> None)"

definition tryParseRequestCondition :: "string \<Rightarrow> js_error + request_condition option" where
  "tryParseRequestCondition expr =
     (case tryParseTimeCondition expr of Some tc \<Rightarrow> Inr (Some tc)
      | None \<Rightarrow>
     (case re_match header_exists_re expr of
        Some m \<Rightarrow> Inr (Some (ph_condition Header (the_group 1 m) MATCH_EXISTS []))
      | None \<Rightarrow>
     (case re_match param_exists_re expr of
        Some m \<Rightarrow> Inr (Some (ph_condition Param (the_group 1 m) MATCH_EXISTS []))
      | None \<Rightarrow>
     (case re_match header_has_re expr of
        Some m \<Rightarrow> contains_condition Header (the_group 1 m) (the_group 2 m)
      | None \<Rightarrow>
     (case same_groups (re_match param_has_re expr) of
        Some m \<Rightarrow> contains_condition Param (the_group 1 m) (the_group 3 m)
      | None \<Rightarrow>
     (case same_groups (re_match param_cmp_re expr) of
        Some m \<Rightarrow> Inr (Some (ph_condition Param (the_group 1 m) (param_op_mode (the_group 3 m)) (the_group 4 m)))
      | None \<Rightarrow>
     (case re_match eq_re expr of
        Some m \<Rightarrow> eq_condition m
      | None \<Rightarrow> Inr None)))))))"

text \<open>The loops that read every part, stop at the first part that is not read and let an exception pass.\<close>

fun parse_each :: "('a \<Rightarrow> js_error + 'b option) \<Rightarrow> 'a list \<Rightarrow> js_error + 'b list option" where
  "parse_each f [] = Inr (Some [])"
| "parse_each f (x # xs) =
     (case f x of
        Inl e \<Rightarrow> Inl e
      | Inr None \<Rightarrow> Inr None
      | Inr (Some y) \<Rightarrow>
          (case parse_each f xs of
             Inr (Some ys) \<Rightarrow> Inr (Some (y # ys))
           | r \<Rightarrow> r))"

definition factor_re :: re where
  "factor_re =
     seqs [bol, Lit ''('', Grp 1 (plus_re any), Lit '' ? '', Grp 2 num_re, Lit '' : 1)'', eol]"

definition tryParseRuleGroupFactor :: "string \<Rightarrow> js_error + request_rule_group option" where
  "tryParseRuleGroupFactor part =
     (case re_match factor_re part of
        None \<Rightarrow> Inr None
      | Some m \<Rightarrow>
          (case parse_each (\<lambda>ap. tryParseRequestCondition (trim ap)) (splitTopLevelAnd (the_group 1 m)) of
             Inl e \<Rightarrow> Inl e
           | Inr None \<Rightarrow> Inr None
           | Inr (Some cs) \<Rightarrow>
               Inr (if cs = [] then None else Some \<lparr>conditions = cs, multiplier = the_group 2 m\<rparr>)))"

definition tryParseRequestRuleExpr :: "string \<Rightarrow> js_error + request_rule_group list option" where
  "tryParseRequestRuleExpr expr =
     (let trimmed = trim expr
      in if trimmed = [] then Inr (Some [])
         else parse_each tryParseRuleGroupFactor (splitTopLevelMultiply trimmed))"

subsection \<open>Joining a price and its rules\<close>

fun outer_parens :: "int \<Rightarrow> string \<Rightarrow> bool" where
  "outer_parens d [] = (d = 0)"
| "outer_parens d (c # s) =
     (let d' = paren_step c d
      in if d' = 0 \<and> s \<noteq> [] then False else outer_parens d' s)"

definition hasFullOuterParens :: "string \<Rightarrow> bool" where
  "hasFullOuterParens expr \<longleftrightarrow> prefix ''('' expr \<and> suffix '')'' expr \<and> outer_parens 0 expr"

text \<open>\<open>current.slice(1, -1)\<close>.\<close>

definition inner :: "string \<Rightarrow> string" where
  "inner s = butlast (tl s)"

lemma inner_shorter:
  assumes "hasFullOuterParens s"
  shows "length (trim (inner s)) < length s"
proof -
  have "s \<noteq> []" using assms by (auto simp: hasFullOuterParens_def)
  then have "length (inner s) < length s" by (simp add: inner_def)
  moreover have "length (trim t) \<le> length t" for t by (rule length_trim)
  ultimately show ?thesis using le_less_trans by blast
qed

function unwrap_loop :: "string \<Rightarrow> string" where
  "unwrap_loop current = (if hasFullOuterParens current then unwrap_loop (trim (inner current)) else current)"
  by pat_completeness auto
termination
  by (relation "measure length") (auto simp: inner_shorter)

declare unwrap_loop.simps [simp del]

definition unwrapOuterParens :: "string \<Rightarrow> string" where
  "unwrapOuterParens expr = unwrap_loop (trim expr)"

definition is_rule_part :: "string \<Rightarrow> js_error + bool" where
  "is_rule_part part =
     (case tryParseRequestRuleExpr part of
        Inl e \<Rightarrow> Inl e
      | Inr None \<Rightarrow> Inr False
      | Inr (Some gs) \<Rightarrow> Inr (gs \<noteq> []))"

fun sort_parts :: "string list \<Rightarrow> js_error + string list \<times> string list" where
  "sort_parts [] = Inr ([], [])"
| "sort_parts (part # parts) =
     (case is_rule_part part of
        Inl e \<Rightarrow> Inl e
      | Inr r \<Rightarrow>
          (case sort_parts parts of
             Inl e \<Rightarrow> Inl e
           | Inr (rules, bases) \<Rightarrow> Inr (if r then (part # rules, bases) else (rules, part # bases))))"

record split_expr =
  billingExpr :: string
  requestRuleExpr :: string

definition splitBillingExprAndRequestRules :: "string \<Rightarrow> js_error + split_expr" where
  "splitBillingExprAndRequestRules expr =
     (let trimmed = trim expr
      in if trimmed = [] then Inr \<lparr>billingExpr = [], requestRuleExpr = []\<rparr>
         else
           (let parts = splitTopLevelMultiply trimmed
            in if length parts \<le> 1 then Inr \<lparr>billingExpr = trimmed, requestRuleExpr = []\<rparr>
               else
                 (case sort_parts parts of
                    Inl e \<Rightarrow> Inl e
                  | Inr (ruleParts, baseParts) \<Rightarrow>
                      if ruleParts = [] \<or> length baseParts \<noteq> 1
                      then Inr \<lparr>billingExpr = trimmed, requestRuleExpr = []\<rparr>
                      else Inr \<lparr>billingExpr = unwrapOuterParens (hd baseParts),
                                requestRuleExpr = join '' * '' ruleParts\<rparr>)))"

definition combineBillingExpr :: "string \<Rightarrow> string \<Rightarrow> string" where
  "combineBillingExpr baseExpr ruleExpr =
     (let base = trim baseExpr; rules = trim ruleExpr
      in if base = [] then [] else if rules = [] then base else ''('' @ base @ '') * '' @ rules)"

subsection \<open>Editor\<close>

definition createEmptyCondition :: param_header_condition where
  "createEmptyCondition = \<lparr>ph_source = Param, path = [], ph_mode = MATCH_EQ, ph_value = []\<rparr>"

definition createEmptyTimeCondition :: time_condition where
  "createEmptyTimeCondition =
     \<lparr>timeFunc = ''hour'', timezone = ''Asia/Shanghai'', t_mode = MATCH_GTE, t_value = [], rangeStart = [],
      rangeEnd = []\<rparr>"

definition createEmptyRuleGroup :: request_rule_group where
  "createEmptyRuleGroup = \<lparr>conditions = [Param_Header_Condition createEmptyCondition], multiplier = []\<rparr>"

definition createEmptyTimeRuleGroup :: request_rule_group where
  "createEmptyTimeRuleGroup = \<lparr>conditions = [Time_Condition createEmptyTimeCondition], multiplier = []\<rparr>"

text \<open>Pairs of a mode and the key of its label.\<close>

definition getRequestRuleMatchOptions :: "string \<Rightarrow> (string \<times> string) list" where
  "getRequestRuleMatchOptions source =
     (if source = ''time'' then
        [(MATCH_EQ, ''Equals''), (MATCH_GTE, ''Greater than or equal''), (MATCH_LT, ''Less than''),
         (MATCH_RANGE, ''Overnight range'')]
      else
        (let base = [(MATCH_EQ, ''Equals''), (MATCH_CONTAINS, ''Contains''), (MATCH_EXISTS, ''Exists'')]
         in if source = ''header'' then base
            else base @ [(MATCH_GT, ''Greater than''), (MATCH_GTE, ''Greater than or equal''),
                         (MATCH_LT, ''Less than''), (MATCH_LTE, ''Less than or equal'')]))"

text \<open>A partial condition, as the editor holds it: every property may be missing.\<close>

record partial_condition =
  p_source :: "string option"
  p_path :: "string option"
  p_mode :: "string option"
  p_value :: "string option"
  p_timeFunc :: "string option"
  p_timezone :: "string option"
  p_rangeStart :: "string option"
  p_rangeEnd :: "string option"

definition isTimeFunc :: "string option \<Rightarrow> bool" where
  "isTimeFunc v = (case v of None \<Rightarrow> False | Some f \<Rightarrow> f \<in> set TIME_FUNCS)"

definition or_else :: "string option \<Rightarrow> string \<Rightarrow> string" where
  "or_else v d = (case v of None \<Rightarrow> d | Some s \<Rightarrow> if s = [] then d else s)"

definition text_of :: "string option \<Rightarrow> string" where
  "text_of v = (case v of None \<Rightarrow> [] | Some s \<Rightarrow> s)"

definition option_mode :: "string \<Rightarrow> string option \<Rightarrow> string \<Rightarrow> string" where
  "option_mode source md d =
     (case md of None \<Rightarrow> d
      | Some x \<Rightarrow> if x \<in> fst ` set (getRequestRuleMatchOptions source) then x else d)"

definition normalizeCondition :: "partial_condition \<Rightarrow> request_condition" where
  "normalizeCondition cond =
     (if p_source cond = Some ''time'' then
        Time_Condition
          \<lparr>timeFunc = (if isTimeFunc (p_timeFunc cond) then text_of (p_timeFunc cond) else ''hour''),
           timezone = or_else (p_timezone cond) ''Asia/Shanghai'',
           t_mode = option_mode ''time'' (p_mode cond) MATCH_GTE,
           t_value = text_of (p_value cond),
           rangeStart = text_of (p_rangeStart cond),
           rangeEnd = text_of (p_rangeEnd cond)\<rparr>
      else
        (let source = if p_source cond = Some ''header'' then ''header'' else ''param''
         in Param_Header_Condition
              \<lparr>ph_source = (if source = ''header'' then Header else Param),
               path = or_else (p_path cond) [],
               ph_mode = option_mode source (p_mode cond) MATCH_EQ,
               ph_value = text_of (p_value cond)\<rparr>))"

text \<open>A complete condition as a partial one.\<close>

definition no_condition :: partial_condition where
  "no_condition =
     \<lparr>p_source = None, p_path = None, p_mode = None, p_value = None, p_timeFunc = None, p_timezone = None,
      p_rangeStart = None, p_rangeEnd = None\<rparr>"

definition time_partial :: "time_condition \<Rightarrow> partial_condition" where
  "time_partial c =
     no_condition\<lparr>p_source := Some ''time'', p_timeFunc := Some (timeFunc c), p_timezone := Some (timezone c),
       p_mode := Some (t_mode c), p_value := Some (t_value c), p_rangeStart := Some (rangeStart c),
       p_rangeEnd := Some (rangeEnd c)\<rparr>"

definition source_text :: "ph_source \<Rightarrow> string" where
  "source_text s = (case s of Param \<Rightarrow> ''param'' | Header \<Rightarrow> ''header'')"

definition ph_partial :: "param_header_condition \<Rightarrow> partial_condition" where
  "ph_partial c =
     no_condition\<lparr>p_source := Some (source_text (ph_source c)), p_path := Some (path c),
       p_mode := Some (ph_mode c), p_value := Some (ph_value c)\<rparr>"

definition as_partial :: "request_condition \<Rightarrow> partial_condition" where
  "as_partial c = (case c of Time_Condition t \<Rightarrow> time_partial t | Param_Header_Condition h \<Rightarrow> ph_partial h)"

definition buildExprLiteral :: "string \<Rightarrow> string \<Rightarrow> string" where
  "buildExprLiteral mode val =
     (let lit = trim val
      in if mode = MATCH_CONTAINS then json_quote lit
         else if lit = ''true'' \<or> lit = ''false'' then lit
         else if re_test NUMERIC_LITERAL_REGEX lit then lit
         else json_quote lit)"

definition time_mode_op :: "string \<Rightarrow> string" where
  "time_mode_op mode =
     (if mode = MATCH_EQ then ''=='' else if mode = MATCH_GTE then ''>=''
      else if mode = MATCH_LT then ''<'' else ''=='')"

definition time_expr :: "time_condition \<Rightarrow> string" where
  "time_expr normalized =
     (let fn = timeFunc normalized @ ''('' @ json_quote (timezone normalized) @ '')''
      in if t_mode normalized = MATCH_RANGE then
           (let s = trim (rangeStart normalized); e = trim (rangeEnd normalized)
            in if \<not> re_test NUMERIC_LITERAL_REGEX s \<or> \<not> re_test NUMERIC_LITERAL_REGEX e then []
               else fn @ '' >= '' @ s @ '' || '' @ fn @ '' < '' @ e)
         else
           (let v = trim (t_value normalized)
            in if \<not> re_test NUMERIC_LITERAL_REGEX v then []
               else fn @ '' '' @ time_mode_op (t_mode normalized) @ '' '' @ v))"

definition buildTimeConditionExpr :: "time_condition \<Rightarrow> string" where
  "buildTimeConditionExpr cond =
     (case normalizeCondition (time_partial cond) of Time_Condition n \<Rightarrow> time_expr n | _ \<Rightarrow> [])"

definition param_mode_op :: "string \<Rightarrow> string" where
  "param_mode_op mode =
     (if mode = MATCH_GT then ''>'' else if mode = MATCH_GTE then ''>=''
      else if mode = MATCH_LT then ''<'' else ''<='')"

definition ph_expr :: "param_header_condition \<Rightarrow> string" where
  "ph_expr normalized =
     (let pth = trim (path normalized); mode = ph_mode normalized;
          sourceExpr = source_text (ph_source normalized) @ ''('' @ json_quote pth @ '')''
      in if pth = [] then []
         else if mode = MATCH_EXISTS then
           (if ph_source normalized = Header then sourceExpr @ '' != \"\"'' else sourceExpr @ '' != nil'')
         else if mode = MATCH_CONTAINS then
           (if ph_source normalized = Header
            then ''has('' @ sourceExpr @ '', '' @ buildExprLiteral mode (ph_value normalized) @ '')''
            else sourceExpr @ '' != nil && has('' @ sourceExpr @ '', ''
                 @ buildExprLiteral mode (ph_value normalized) @ '')'')
         else if mode \<in> {MATCH_GT, MATCH_GTE, MATCH_LT, MATCH_LTE} then
           (let numText = trim (ph_value normalized)
            in if \<not> re_test NUMERIC_LITERAL_REGEX numText then []
               else sourceExpr @ '' != nil && '' @ sourceExpr @ '' '' @ param_mode_op mode @ '' '' @ numText)
         else sourceExpr @ '' == '' @ buildExprLiteral mode (ph_value normalized))"

definition buildRequestConditionExpr :: "request_condition \<Rightarrow> string" where
  "buildRequestConditionExpr cond =
     (case cond of
        Time_Condition t \<Rightarrow> buildTimeConditionExpr t
      | Param_Header_Condition h \<Rightarrow>
          (case normalizeCondition (ph_partial h) of Param_Header_Condition n \<Rightarrow> ph_expr n | _ \<Rightarrow> []))"

definition buildRuleGroupFactor :: "request_rule_group \<Rightarrow> string" where
  "buildRuleGroupFactor g =
     (let mult = trim (multiplier g)
      in if \<not> re_test NUMERIC_LITERAL_REGEX mult then []
         else
           (let condExprs = filter (\<lambda>e. e \<noteq> []) (map buildRequestConditionExpr (conditions g))
            in if condExprs = [] then []
               else
                 (let combined =
                    (if length condExprs = 1 then hd condExprs
                     else join '' && ''
                       (map (\<lambda>e. if sublist '' || '' e then ''('' @ e @ '')'' else e) condExprs))
                  in ''('' @ combined @ '' ? '' @ mult @ '' : 1)'')))"

definition buildRequestRuleExpr :: "request_rule_group list \<Rightarrow> string" where
  "buildRequestRuleExpr groups = join '' * '' (filter (\<lambda>f. f \<noteq> []) (map buildRuleGroupFactor groups))"

subsection \<open>Numeric literals\<close>

lemma eol_end: "\<forall>st st'. st' \<in> set (ms (Seq eol Eps) st) \<longrightarrow> fst (snd st') = []"
  by (auto simp: ms_Seq eol_def split: if_splits)

lemma eol_after: "\<forall>st st'. st' \<in> set (ms q st) \<longrightarrow> fst (snd st') = [] \<Longrightarrow>
  \<forall>st st'. st' \<in> set (ms (Seq r q) st) \<longrightarrow> fst (snd st') = []"
  by (simp only: ms_Seq set_concat set_map) blast

lemma numeric_chars:
  assumes "re_test NUMERIC_LITERAL_REGEX s"
  shows "list_all num_char s"
proof -
  obtain r where r: "NUMERIC_LITERAL_REGEX = Seq bol r"
    and ov: "over num_char r" and e: "\<forall>st st'. st' \<in> set (ms r st) \<longrightarrow> fst (snd st') = []"
  proof
    show "NUMERIC_LITERAL_REGEX = Seq bol (seqs
      [opt (Lit ''-''),
       Alt (seqs [plus_re (Cls is_digit), opt (Lit ''.''), Star (Cls is_digit)])
           (seqs [Lit ''.'', plus_re (Cls is_digit)]),
       opt (seqs [Cls (\<lambda>c. c = CHR ''e'' \<or> c = CHR ''E''), opt (Cls (\<lambda>c. c = CHR ''+'' \<or> c = CHR ''-'')),
                  plus_re (Cls is_digit)]), eol])" (is "_ = Seq bol ?r")
      by (simp add: NUMERIC_LITERAL_REGEX_def)
    show "over num_char ?r"
      by (auto simp: opt_def plus_re_def eol_def num_char_def)
    show "\<forall>st st'. st' \<in> set (ms ?r st) \<longrightarrow> fst (snd st') = []"
      unfolding seqs.simps by (intro eol_after eol_end)
  qed
  from re_test_over [OF _ ov e] assms show ?thesis by (simp add: r)
qed

lemma numeric_nonempty: "\<not> re_test NUMERIC_LITERAL_REGEX []"
  by code_simp

definition numeric :: "string \<Rightarrow> bool" where
  "numeric s \<longleftrightarrow> re_test NUMERIC_LITERAL_REGEX s"

lemma numericD: "numeric s \<Longrightarrow> list_all num_char s \<and> s \<noteq> []"
  using numeric_chars numeric_nonempty by (auto simp: numeric_def)

subsection \<open>Parentheses\<close>

definition depth :: "int \<Rightarrow> string \<Rightarrow> int" where
  "depth d s = fold paren_step s d"

fun deep :: "int \<Rightarrow> string \<Rightarrow> bool" where
  "deep d [] = True"
| "deep d (c # s) = (1 \<le> paren_step c d \<and> deep (paren_step c d) s)"

lemma depth_simps [simp]:
  "depth d [] = d" "depth d (c # s) = depth (paren_step c d) s" "depth d (u @ v) = depth (depth d u) v"
  by (simp_all add: depth_def)

lemma deep_append [simp]: "deep d (u @ v) \<longleftrightarrow> deep d u \<and> deep (depth d u) v"
  by (induction d u rule: deep.induct) auto

definition no_paren :: "char \<Rightarrow> bool" where
  "no_paren c \<longleftrightarrow> c \<noteq> CHR ''('' \<and> c \<noteq> CHR '')''"

lemma depth_no_paren: "list_all no_paren u \<Longrightarrow> depth d u = d"
  by (induction u) (auto simp: no_paren_def paren_step_def)

lemma deep_no_paren: "list_all no_paren u \<Longrightarrow> 1 \<le> d \<Longrightarrow> deep d u"
  by (induction u) (auto simp: no_paren_def paren_step_def)

text \<open>A text whose parentheses match, at any depth.\<close>

definition balanced :: "string \<Rightarrow> bool" where
  "balanced s \<longleftrightarrow> deep 1 s \<and> depth 1 s = 1"

lemma depth_shift: "depth (d + k) s = depth d s + k"
proof (induction s arbitrary: d)
  case (Cons c s)
  have "paren_step c (d + k) = paren_step c d + k" by (simp add: paren_step_def)
  with Cons show ?case by simp
qed simp

lemma balanced_depth: "balanced s \<Longrightarrow> depth d s = d"
  using depth_shift [of 1 "d - 1" s] by (simp add: balanced_def)

text \<open>Texts the splitting loops pass over.\<close>

lemma split_deep:
  "deep d u \<Longrightarrow> split_top sep d acc (u @ s) = split_top sep (depth d u) (rev u @ acc) s"
  by (induction u arbitrary: d acc) (auto simp: Let_def)

lemma split_and_free:
  assumes "CHR ''&'' \<notin> set u" "u \<noteq> []" "last u \<noteq> CHR '' ''"
  shows "split_top '' && '' d acc (u @ s) = split_top '' && '' (depth d u) (rev u @ acc) s"
  using assms
proof (induction u arbitrary: d acc)
  case (Cons c u)
  have "\<not> prefix '' && '' (c # u @ s)" using Cons.prems by (cases u) auto
  then have "split_top '' && '' d acc ((c # u) @ s) = split_top '' && '' (paren_step c d) (c # acc) (u @ s)"
    by (simp only: append_Cons split_top.simps Let_def simp_thms if_False)
  with Cons show ?case by (cases u) auto
qed simp

definition and_part :: "string \<Rightarrow> bool" where
  "and_part e \<longleftrightarrow> CHR ''&'' \<notin> set e \<and> e \<noteq> [] \<and> last e \<noteq> CHR '' '' \<and> balanced e"

lemma split_and_join:
  "list_all and_part es \<Longrightarrow> es \<noteq> [] \<Longrightarrow> split_top '' && '' 0 [] (join '' && '' es) = es"
proof (induction es rule: induct_list012)
  case (2 e)
  then show ?case using split_and_free [of e 0 "[]" "[]"] by (simp add: and_part_def)
next
  case (3 e f es)
  then have "split_top '' && '' 0 [] (e @ '' && '' @ join '' && '' (f # es))
      = split_top '' && '' 0 (rev e) ('' && '' @ join '' && '' (f # es))"
    using split_and_free [of e 0 "[]" "'' && '' @ join '' && '' (f # es)"]
    by (simp add: and_part_def balanced_depth del: append_Cons append_Nil)
  then show ?case using 3 by (simp add: paren_step_def Let_def)
qed simp

definition mul_part :: "string \<Rightarrow> bool" where
  "mul_part f \<longleftrightarrow> (\<exists>b. f = ''('' @ b @ '')'' \<and> balanced b)"

lemma split_mul_part:
  assumes "mul_part f"
  shows "split_top '' * '' 0 [] (f @ s) = split_top '' * '' 0 (rev f) s"
proof -
  obtain b where b: "f = ''('' @ b @ '')''" "balanced b" using assms by (auto simp: mul_part_def)
  then have "split_top '' * '' 0 [] (f @ s) = split_top '' * '' 1 (rev b @ ''('') ('')'' @ s)"
    using split_deep [of 1 b "'' * ''" "''(''" "'')'' @ s"]
    by (simp add: balanced_def paren_step_def Let_def)
  then show ?thesis by (simp add: b paren_step_def Let_def)
qed

lemma split_mul_join:
  "list_all mul_part fs \<Longrightarrow> fs \<noteq> [] \<Longrightarrow> split_top '' * '' 0 [] (join '' * '' fs) = fs"
proof (induction fs rule: induct_list012)
  case (2 e)
  then show ?case using split_mul_part [of e "[]"] by simp
next
  case (3 e f es)
  then show ?case using split_mul_part [of e "'' * '' @ join '' * '' (f # es)"]
    by (simp add: paren_step_def Let_def)
qed simp

end
