(* ===== verification/Rule_Roundtrip.thy ===== *)
theory Rule_Roundtrip
  imports Request_Rules
begin

section \<open>Request rules are read back\<close>

text \<open>
  What \<open>buildRequestRuleExpr\<close> writes, \<open>tryParseRequestRuleExpr\<close> reads, and
  \<open>splitBillingExprAndRequestRules\<close> undoes \<open>combineBillingExpr\<close>.  The lemmas follow one
  regular expression at a time over a text whose parts are known (collection \<open>re_step\<close>), then the
  splitting loops over texts with matching parentheses (\<open>solid\<close>, \<open>mul_part\<close>).  The last part is about
  the conditions the editor offers and the reader refuses.
\<close>

subsection \<open>Reading one step of an expression\<close>

named_theorems re_step

lemma Lit_then [re_step]:
  "ms (Seq (Lit w) r) (p, s, c) = (if prefix w s then ms r (p @ w, drop (length w) s, c) else [])"
  by simp

lemma Bref_then [re_step]: "map_of c n = Some w \<Longrightarrow> ms (Seq (Bref n) r) (p, w @ s, c) = ms r (p @ w, s, c)"
  by simp

lemma eol_then [re_step]: "ms (Seq eol Eps) (p, s, c) = (if s = [] then [(p, [], c)] else [])"
  by (simp add: eol_def)

lemma quoted_then [re_step]:
  assumes "list_all not_quote u" "u \<noteq> []"
  shows "ms (Seq (quoted_name n) (Seq (Lit (CHR 0x22 # w)) r)) (p, u @ CHR 0x22 # s, c)
    = ms (Seq (Lit (CHR 0x22 # w)) r) (p @ u, CHR 0x22 # s, (n, u) # c)"
  unfolding quoted_name_def
  by (subst Grp_plus_then [OF assms]) (simp_all add: not_quote_def stuck_Lit)

lemma num_then [re_step]:
  assumes "list_all num_char u" "u \<noteq> []" "\<not> num_char x" "\<not> num_char y"
  shows "ms (Seq (Grp n num_re) (Seq (Lit (x # w)) r)) (p, u @ y # s, c)
    = ms (Seq (Lit (x # w)) r) (p @ u, y # s, (n, u) # c)"
  unfolding num_re_def
  by (subst Grp_plus_then [OF assms(1,2)]) (simp_all add: assms(3,4) stuck_Lit)

lemma num_eol [re_step]:
  assumes "list_all num_char u" "u \<noteq> []"
  shows "ms (Seq (Grp n num_re) (Seq eol Eps)) (p, u, c) = [(p @ u, [], (n, u) # c)]"
  using Grp_plus_then [OF assms, of "[]" "Seq eol Eps" n p c] stuck_eol
  by (simp add: num_re_def eol_def)

lemma num_stop [re_step]:
  assumes "list_all num_char u" "u \<noteq> []" "\<not> num_char x"
  shows "ms (Seq (Grp n num_re) (Seq (Lit (x # w)) r)) (p, u, c) = []"
  using Grp_plus_then [OF assms(1,2), of "[]" "Seq (Lit (x # w)) r" n p c] assms(3)
  by (simp add: num_re_def stuck_Lit)

lemma time_func_then [re_step]:
  assumes "f \<in> set TIME_FUNCS"
  shows "ms (Seq (Grp n (words TIME_FUNCS)) r) (p, f @ s, c) = ms r (p @ f, s, (n, f) # c)"
proof (rule words_then)
  from assms consider "f = ''hour''" | "f = ''minute''" | "f = ''weekday''" | "f = ''month''" | "f = ''day''"
    by (auto simp: TIME_FUNCS_def)
  then show "filter (\<lambda>w. prefix w (f @ s)) TIME_FUNCS = [f]"
    by cases (simp_all add: TIME_FUNCS_def)
qed

lemma re_match_first:
  "ms r ([], s, []) = [(p, [], c)] \<Longrightarrow> re_match (Seq bol r) s = Some ((0, s) # c)"
  by (simp add: re_match_bol)

lemma re_match_none: "ms r ([], s, []) = [] \<Longrightarrow> re_match (Seq bol r) s = None"
  by (simp add: re_match_bol)

definition range_text :: "string \<Rightarrow> string \<Rightarrow> string \<Rightarrow> string \<Rightarrow> string" where
  "range_text f tz s e =
     f @ ''(\"'' @ tz @ ''\") >= '' @ s @ '' || '' @ f @ ''(\"'' @ tz @ ''\") < '' @ e"

lemma parse_range:
  assumes f: "f \<in> set TIME_FUNCS" and tz: "list_all not_quote tz" "tz \<noteq> []"
    and s: "list_all num_char s" "s \<noteq> []" and e: "list_all num_char e" "e \<noteq> []"
  shows "tryParseTimeCondition (range_text f tz s e) =
    Some (Time_Condition \<lparr>timeFunc = f, timezone = tz, t_mode = MATCH_RANGE, t_value = [],
                          rangeStart = s, rangeEnd = e\<rparr>)"
proof -
  have "\<exists>p. ms (seqs (range_parts @ [eol])) ([], range_text f tz s e, [])
      = [(p, [], [(4, e), (3, s), (2, tz), (1, f)])]"
    unfolding range_text_def range_parts_def by (simp add: re_step assms del: ms.simps)
  then have "re_match time_range_re (range_text f tz s e)
      = Some [(0, range_text f tz s e), (4, e), (3, s), (2, tz), (1, f)]"
    unfolding time_range_re_def seqs.simps by (metis re_match_first)
  then show ?thesis
    by (simp add: tryParseTimeCondition_def range_condition_def the_group_def)
qed


lemma not_time_name:
  "list_all (\<lambda>w. \<not> prefix w s) TIME_FUNCS \<Longrightarrow> ms (Seq (Grp n (words TIME_FUNCS)) r) (p, s, c) = []"
  by (simp add: ms_words list_all_iff filter_empty_conv [THEN iffD2])

lemma parse_range_paren:
  assumes f: "f \<in> set TIME_FUNCS" and tz: "list_all not_quote tz" "tz \<noteq> []"
    and s: "list_all num_char s" "s \<noteq> []" and e: "list_all num_char e" "e \<noteq> []"
  shows "tryParseTimeCondition (''('' @ range_text f tz s e @ '')'') =
    Some (Time_Condition \<lparr>timeFunc = f, timezone = tz, t_mode = MATCH_RANGE, t_value = [],
                          rangeStart = s, rangeEnd = e\<rparr>)"
proof -
  let ?t = "''('' @ range_text f tz s e @ '')''"
  have "list_all (\<lambda>w. \<not> prefix w ?t) TIME_FUNCS" by (simp add: TIME_FUNCS_def)
  then have "ms (seqs (range_parts @ [eol])) ([], ?t, []) = []"
    by (simp add: range_parts_def not_time_name del: ms.simps)
  then have "re_match time_range_re ?t = None"
    unfolding time_range_re_def seqs.simps by (rule re_match_none)
  moreover have "\<exists>p. ms (seqs (Lit ''('' # range_parts @ [Lit '')'', eol])) ([], ?t, [])
      = [(p, [], [(4, e), (3, s), (2, tz), (1, f)])]"
    unfolding range_text_def range_parts_def by (simp add: re_step assms del: ms.simps)
  then have "re_match time_range_paren_re ?t = Some [(0, ?t), (4, e), (3, s), (2, tz), (1, f)]"
    unfolding time_range_paren_re_def seqs.simps by (metis re_match_first)
  ultimately show ?thesis
    by (simp add: tryParseTimeCondition_def range_condition_def the_group_def)
qed

definition time_ops :: "string list" where
  "time_ops = [''=='', ''>='', ''<'']"

lemma parse_cmp:
  assumes f: "f \<in> set TIME_FUNCS" and tz: "list_all not_quote tz" "tz \<noteq> []"
    and v: "list_all num_char v" "v \<noteq> []" and oper: "oper \<in> set time_ops"
  shows "tryParseTimeCondition (f @ ''(\"'' @ tz @ ''\") '' @ oper @ '' '' @ v) =
    Some (Time_Condition \<lparr>timeFunc = f, timezone = tz, t_mode = time_op_mode oper, t_value = v,
                          rangeStart = [], rangeEnd = []\<rparr>)"
proof -
  let ?t = "f @ ''(\"'' @ tz @ ''\") '' @ oper @ '' '' @ v"
  from oper consider "oper = ''==''" | "oper = ''>=''" | "oper = ''<''" by (auto simp: time_ops_def)
  note ops = this
  have "ms (seqs (range_parts @ [eol])) ([], ?t, []) = []"
    using ops by cases (simp_all add: range_parts_def re_step f tz v del: ms.simps)
  then have "re_match time_range_re ?t = None"
    unfolding time_range_re_def seqs.simps by (rule re_match_none)
  moreover from f have "f \<noteq> [] \<and> hd f \<noteq> CHR ''(''" by (auto simp: TIME_FUNCS_def)
  then have "ms (seqs (Lit ''('' # range_parts @ [Lit '')'', eol])) ([], ?t, []) = []"
    by (cases f) (auto simp: Lit_then simp del: ms.simps)
  then have "re_match time_range_paren_re ?t = None"
    unfolding time_range_paren_re_def seqs.simps by (rule re_match_none)
  moreover have "filter (\<lambda>w. prefix w (oper @ '' '' @ v)) time_ops = [oper]"
    using ops by cases (simp_all add: time_ops_def)
  then have "\<exists>p. ms (seqs [Grp 1 (words TIME_FUNCS), Lit ''(\"'', quoted_name 2, Lit ''\") '',
           Grp 3 (words time_ops), Lit '' '', Grp 4 num_re, eol]) ([], ?t, [])
      = [(p, [], [(4, v), (3, oper), (2, tz), (1, f)])]"
    using words_then [of oper "'' '' @ v" time_ops] by (simp add: re_step f tz v del: ms.simps)
  then have "re_match time_cmp_re ?t = Some [(0, ?t), (4, v), (3, oper), (2, tz), (1, f)]"
    unfolding time_cmp_re_def seqs.simps time_ops_def by (metis re_match_first)
  ultimately show ?thesis
    by (simp add: tryParseTimeCondition_def the_group_def)
qed

lemma not_time:
  assumes "list_all (\<lambda>w. \<not> prefix w s) TIME_FUNCS" "s = [] \<or> hd s \<noteq> CHR ''(''"
  shows "tryParseTimeCondition s = None"
proof -
  have "re_match time_range_re s = None" "re_match time_cmp_re s = None"
    using not_time_name [OF assms(1)]
    by (simp_all add: time_range_re_def time_cmp_re_def range_parts_def re_match_bol del: ms.simps)
  moreover have "re_match time_range_paren_re s = None"
    using assms(2) by (cases s) (auto simp: time_range_paren_re_def re_match_bol Lit_then simp del: ms.simps)
  ultimately show ?thesis by (simp add: tryParseTimeCondition_def)
qed

lemma string_literal_then [re_step]:
  assumes "list_all (\<lambda>c. c \<noteq> CHR 0x22 \<and> c \<noteq> CHR 0x5C) v"
  shows "ms (Seq (Grp n string_literal_re) r) (p, CHR 0x22 # v @ CHR 0x22 # s, c)
    = ms r (p @ CHR 0x22 # v @ [CHR 0x22], s, (n, CHR 0x22 # v @ [CHR 0x22]) # c)"
proof -
  let ?P = "\<lambda>c. c \<noteq> CHR 0x22 \<and> c \<noteq> CHR 0x5C"
  let ?q = "Alt (Cls ?P) (Seq (Lit [CHR 0x5C]) dot)"
  obtain rest where rest: "ms (Star ?q) (p @ [CHR 0x22], v @ CHR 0x22 # s, c)
      = ((p @ [CHR 0x22]) @ v, CHR 0x22 # s, c) # rest" "\<forall>st\<in>set rest. ahead ?P st"
    using Star_run [of ?P ?q "CHR 0x22 # s" v "p @ [CHR 0x22]" c] assms by auto
  have "stuck ?P (Seq (Lit [CHR 0x22]) Eps)" by (simp add: stuck_Lit)
  from first_only [OF this rest(2)]
  have "ms string_literal_re (p, CHR 0x22 # v @ CHR 0x22 # s, c)
      = ms (Seq (Lit [CHR 0x22]) Eps) ((p @ [CHR 0x22]) @ v, CHR 0x22 # s, c)"
    unfolding string_literal_re_def seqs.simps Lit_then [of "[CHR 0x22]" "Seq (Star ?q) _"]
    by (simp add: ms_Seq [of "Star ?q"] rest(1) del: ms.simps)
  then have "ms (Grp n string_literal_re) (p, CHR 0x22 # v @ CHR 0x22 # s, c)
      = [(p @ CHR 0x22 # v @ [CHR 0x22], s, (n, CHR 0x22 # v @ [CHR 0x22]) # c)]"
    by (simp add: capture_def)
  then show ?thesis by (simp add: ms_Seq [of "Grp n string_literal_re"] del: ms.simps)
qed

subsection \<open>Reading one condition\<close>

lemma not_time_prefix:
  "tryParseTimeCondition (CHR ''h'' # CHR ''e'' # s) = None"
  "tryParseTimeCondition (CHR ''h'' # CHR ''a'' # s) = None"
  "tryParseTimeCondition (CHR ''p'' # s) = None"
  by (simp_all add: not_time TIME_FUNCS_def)

lemmas condition_res = header_exists_re_def param_exists_re_def header_has_re_def param_has_re_def
  param_cmp_re_def eq_re_def

lemma parse_header_exists:
  assumes "list_all not_quote u" "u \<noteq> []"
  shows "tryParseRequestCondition (''header(\"'' @ u @ ''\") != \"\"'')
    = Inr (Some (ph_condition Header u MATCH_EXISTS []))"
proof -
  have "re_match header_exists_re (''header(\"'' @ u @ ''\") != \"\"'')
      = Some [(0, ''header(\"'' @ u @ ''\") != \"\"''), (1, u)]"
    by (simp add: condition_res re_match_bol re_step assms del: ms.simps)
  then show ?thesis
    by (simp add: tryParseRequestCondition_def not_time_prefix the_group_def)
qed

lemma parse_param_exists:
  assumes "list_all not_quote u" "u \<noteq> []"
  shows "tryParseRequestCondition (''param(\"'' @ u @ ''\") != nil'')
    = Inr (Some (ph_condition Param u MATCH_EXISTS []))"
proof -
  let ?t = "''param(\"'' @ u @ ''\") != nil''"
  have "re_match header_exists_re ?t = None" "re_match param_exists_re ?t = Some [(0, ?t), (1, u)]"
    by (simp_all add: condition_res re_match_bol re_step assms del: ms.simps)
  then show ?thesis
    by (simp add: tryParseRequestCondition_def not_time_prefix the_group_def)
qed

lemma parse_header_has:
  assumes "list_all not_quote u" "u \<noteq> []" "list_all (\<lambda>c. c \<noteq> CHR 0x22 \<and> c \<noteq> CHR 0x5C) v"
    and lit: "json_parse (CHR 0x22 # v @ [CHR 0x22]) = Some (JStr v)"
  shows "tryParseRequestCondition (''has(header(\"'' @ u @ ''\"), '' @ (CHR 0x22 # v @ [CHR 0x22]) @ '')'')
    = Inr (Some (ph_condition Header u MATCH_CONTAINS v))"
proof -
  let ?t = "''has(header(\"'' @ u @ ''\"), '' @ (CHR 0x22 # v @ [CHR 0x22]) @ '')''"
  have "re_match header_exists_re ?t = None" "re_match param_exists_re ?t = None"
    "re_match header_has_re ?t = Some [(0, ?t), (2, CHR 0x22 # v @ [CHR 0x22]), (1, u)]"
    by (simp_all add: condition_res re_match_bol re_step assms del: ms.simps)
  then show ?thesis
    by (simp add: tryParseRequestCondition_def not_time_prefix the_group_def contains_condition_def lit)
qed

lemma source_then:
  "ms (Seq (Grp n (words [''param'', ''header''])) r) (p, source_text src @ s, c)
     = ms r (p @ source_text src, s, (n, source_text src) # c)"
  by (rule words_then) (cases src; simp add: source_text_def)

lemma source_text_header [simp]: "source_text src = ''header'' \<longleftrightarrow> src = Header"
  by (cases src) (simp_all add: source_text_def)

lemma not_other_conditions:
  assumes "list_all not_quote u" "u \<noteq> []" and t: "t = source_text src @ ''(\"'' @ u @ ''\") == '' @ l"
  shows "re_match header_exists_re t = None" "re_match param_exists_re t = None"
    "re_match header_has_re t = None" "re_match param_has_re t = None"
    "re_match param_cmp_re t = None" "tryParseTimeCondition t = None"
  unfolding t
  by (cases src; simp add: source_text_def condition_res re_match_bol re_step assms(1,2) not_time_prefix
      del: ms.simps)+

lemma parse_eq:
  assumes u: "list_all not_quote u" "u \<noteq> []" and lit: "one_line l" "l \<noteq> []" "parseExprLiteral l = Some (JStr v)"
  shows "tryParseRequestCondition (source_text src @ ''(\"'' @ u @ ''\") == '' @ l)
    = Inr (Some (ph_condition src u MATCH_EQ v))"
proof -
  define t where "t = source_text src @ ''(\"'' @ u @ ''\") == '' @ l"
  have "\<exists>p. ms (seqs [Grp 1 (words [''param'', ''header'']), Lit ''(\"'', quoted_name 2, Lit ''\") == '',
           Grp 3 (plus_re dot), eol]) ([], t, [])
      = [(p, [], [(3, l), (2, u), (1, source_text src)])]"
    by (simp add: t_def source_then re_step u lit Grp_dots_eol del: ms.simps)
  then have "re_match eq_re t = Some [(0, t), (3, l), (2, u), (1, source_text src)]"
    unfolding eq_re_def seqs.simps by (metis re_match_first)
  moreover note not_other_conditions [OF u t_def]
  ultimately have "tryParseRequestCondition t = Inr (Some (ph_condition src u MATCH_EQ v))"
    by (cases src) (simp_all add: tryParseRequestCondition_def same_groups_def eq_condition_def the_group_def lit)
  then show ?thesis by (simp only: t_def)
qed

subsection \<open>Literals\<close>

text \<open>Characters that JSON and the splitting loops leave alone.\<close>

definition plain :: "char \<Rightarrow> bool" where
  "plain c \<longleftrightarrow> 32 \<le> (of_char c :: nat) \<and> c \<notin> {CHR 0x22, CHR 0x5C, CHR ''('', CHR '')'', CHR ''&'', CHR ''|''}"

definition plain_text :: "string \<Rightarrow> bool" where
  "plain_text s \<longleftrightarrow> list_all plain s \<and> one_line s \<and> trim s = s"

lemma plain_classes:
  "plain c \<Longrightarrow> not_quote c" "plain c \<Longrightarrow> c \<noteq> CHR 0x22 \<and> c \<noteq> CHR 0x5C" "plain c \<Longrightarrow> no_paren c"
  by (auto simp: plain_def not_quote_def no_paren_def)

lemma json_escape_plain:
  assumes "plain c"
  shows "json_escape c = [c]"
proof -
  have n: "32 \<le> (of_char c :: nat)" "c \<noteq> CHR 0x22" "c \<noteq> CHR 0x5C" using assms by (simp_all add: plain_def)
  then have "c \<noteq> d" if "(of_char d :: nat) < 32" for d using that by auto
  from this [of "CHR 0x08"] this [of "CHR 0x0C"] this [of "CHR 0x0A"] this [of "CHR 0x0D"] this [of "CHR 0x09"]
  have "c \<notin> {CHR 0x08, CHR 0x0C, CHR 0x0A, CHR 0x0D, CHR 0x09}" by simp
  with n show ?thesis by (simp add: json_escape_def)
qed

lemma json_quote_plain: "list_all plain s \<Longrightarrow> json_quote s = CHR 0x22 # s @ [CHR 0x22]"
  unfolding json_quote_def by (induction s) (simp_all add: json_escape_plain)

lemma line_terminator_quote: "s \<noteq> [] \<Longrightarrow> line_terminator (s @ [CHR 0x22]) = line_terminator s"
  by (cases s; cases "tl s"; cases "tl (tl s)") (auto simp: line_terminator_def)

lemma one_line_quote: "one_line s \<Longrightarrow> one_line (CHR 0x22 # s @ [CHR 0x22])"
proof (induction s)
  case (Cons x s)
  then show ?case using line_terminator_quote [of "x # s"] by (simp add: line_terminator_def)
qed (simp add: line_terminator_def)

lemma one_line_ascii: "list_all (\<lambda>c. c \<notin> {CHR 0x0A, CHR 0x0D, CHR 0xE2}) s \<Longrightarrow> one_line s"
  by (induction s) (auto simp: line_terminator_def)

lemma num_char_props:
  "num_char c \<Longrightarrow> graphic c" "num_char c \<Longrightarrow> plain c" "num_char c \<Longrightarrow> c \<notin> {CHR 0x0A, CHR 0x0D, CHR 0xE2}"
  by (auto simp: num_char_def graphic_def plain_def is_digit_def)

lemma numeric_props:
  assumes "numeric s"
  shows "list_all num_char s" "s \<noteq> []" "trim s = s" "list_all plain s" "one_line s"
proof -
  show s: "list_all num_char s" "s \<noteq> []" using numericD [OF assms] by auto
  then have "graphic (hd s)" "graphic (last s)" by (auto simp: list_all_iff num_char_props)
  with s show "trim s = s" by (intro trim_graphic) auto
  show "list_all plain s" using s(1) by (rule list.pred_mono_strong) (rule num_char_props(2))
  show "one_line s" by (rule one_line_ascii, rule list.pred_mono_strong [OF s(1)]) (rule num_char_props(3))
qed

lemma quoted_not_numeric: "\<not> numeric (CHR 0x22 # s)"
  using numericD [of "CHR 0x22 # s"] by auto

definition literal :: "string \<Rightarrow> string" where
  "literal v = (if v = ''true'' \<or> v = ''false'' \<or> numeric v then v else CHR 0x22 # v @ [CHR 0x22])"

lemma build_literal: "plain_text v \<Longrightarrow> buildExprLiteral MATCH_EQ v = literal v"
  by (simp add: buildExprLiteral_def literal_def numeric_def json_quote_plain plain_text_def match_defs)

lemma build_contains: "plain_text v \<Longrightarrow> buildExprLiteral MATCH_CONTAINS v = CHR 0x22 # v @ [CHR 0x22]"
  by (simp add: buildExprLiteral_def json_quote_plain plain_text_def)

lemma parse_quoted: "list_all plain v \<Longrightarrow> json_parse (CHR 0x22 # v @ [CHR 0x22]) = Some (JStr v)"
  using json_parse_text [of "JStr v"] json_quote_plain [of v] by simp

lemma trim_quoted: "trim (CHR 0x22 # v @ [CHR 0x22]) = CHR 0x22 # v @ [CHR 0x22]"
  by (rule trim_graphic) (simp_all add: graphic_def)

lemma literal_props:
  assumes "plain_text v"
  shows "one_line (literal v)" "literal v \<noteq> []" "parseExprLiteral (literal v) = Some (JStr v)"
    "list_all (\<lambda>c. c = CHR 0x22 \<or> plain c) (literal v)" "last (literal v) \<noteq> CHR '' ''"
proof -
  have v: "list_all plain v" "one_line v" "trim v = v" using assms by (simp_all add: plain_text_def)
  note n = numeric_props [of v]
  show "one_line (literal v)" "literal v \<noteq> []"
    using v one_line_quote n(2) by (auto simp: literal_def)
  show "parseExprLiteral (literal v) = Some (JStr v)"
    using v quoted_not_numeric [of "v @ [CHR 0x22]"]
    by (auto simp: literal_def parseExprLiteral_def trim_quoted parse_quoted numeric_def Let_def)
  show "list_all (\<lambda>c. c = CHR 0x22 \<or> plain c) (literal v)"
    using v by (auto simp: literal_def list_all_iff)
  have "num_char (last v)" if "numeric v"
    using n(1,2) [OF that] by (simp add: list_all_iff)
  then show "last (literal v) \<noteq> CHR '' ''" by (auto simp: literal_def)
qed

subsection \<open>The rules the editor can read back\<close>

fun wf_condition :: "request_condition \<Rightarrow> bool" where
  "wf_condition (Time_Condition t) \<longleftrightarrow>
     timeFunc t \<in> set TIME_FUNCS \<and> timezone t \<noteq> [] \<and> list_all plain (timezone t)
     \<and> (if t_mode t = MATCH_RANGE then t_value t = [] \<and> numeric (rangeStart t) \<and> numeric (rangeEnd t)
        else t_mode t \<in> {MATCH_EQ, MATCH_GTE, MATCH_LT} \<and> numeric (t_value t) \<and> rangeStart t = []
             \<and> rangeEnd t = [])"
| "wf_condition (Param_Header_Condition h) \<longleftrightarrow>
     path h \<noteq> [] \<and> list_all plain (path h) \<and> trim (path h) = path h
     \<and> (if ph_mode h = MATCH_EXISTS then ph_value h = []
        else plain_text (ph_value h)
             \<and> (ph_mode h = MATCH_EQ \<or> ph_mode h = MATCH_CONTAINS \<and> ph_source h = Header))"

definition wf_group :: "request_rule_group \<Rightarrow> bool" where
  "wf_group g \<longleftrightarrow> conditions g \<noteq> [] \<and> list_all wf_condition (conditions g) \<and> numeric (multiplier g)"

lemma normal_time:
  assumes "wf_condition (Time_Condition t)"
  shows "normalizeCondition (time_partial t) = Time_Condition t"
proof -
  have "t_mode t \<in> fst ` set (getRequestRuleMatchOptions ''time'')"
    using assms by (auto simp: getRequestRuleMatchOptions_def split: if_splits)
  then show ?thesis using assms
    by (simp add: normalizeCondition_def time_partial_def no_condition_def isTimeFunc_def text_of_def
        or_else_def option_mode_def)
qed

lemma normal_ph:
  assumes "wf_condition (Param_Header_Condition h)"
  shows "normalizeCondition (ph_partial h) = Param_Header_Condition h"
proof -
  have "ph_mode h \<in> fst ` set (getRequestRuleMatchOptions (source_text (ph_source h)))"
    using assms by (cases "ph_source h")
      (auto simp: getRequestRuleMatchOptions_def source_text_def Let_def split: if_splits)
  then show ?thesis using assms
    by (cases "ph_source h") (simp_all add: normalizeCondition_def ph_partial_def no_condition_def text_of_def
        or_else_def option_mode_def source_text_def)
qed

definition solid :: "string \<Rightarrow> bool" where
  "solid e \<longleftrightarrow> e \<noteq> [] \<and> graphic (hd e) \<and> graphic (last e) \<and> CHR ''&'' \<notin> set e \<and> balanced e"

lemma solid_trim: "solid e \<Longrightarrow> trim e = e"
  by (simp add: solid_def trim_graphic)

lemma solid_and_part: "solid e \<Longrightarrow> and_part e"
  by (auto simp: solid_def and_part_def graphic_def)

lemma deep_mono: "deep d s \<Longrightarrow> d \<le> d' \<Longrightarrow> deep d' s"
proof (induction s arbitrary: d d')
  case (Cons c s)
  have "paren_step c d \<le> paren_step c d'" using Cons.prems(2) by (simp add: paren_step_def)
  with Cons show ?case by fastforce
qed simp

lemma solid_wrapped: "solid e \<Longrightarrow> solid (''('' @ e @ '')'')"
  by (auto simp: solid_def balanced_def paren_step_def graphic_def depth_shift [of 1 1, simplified] intro: deep_mono)

lemma plain_free:
  assumes "list_all plain u"
  shows "CHR ''&'' \<notin> set u" "CHR ''|'' \<notin> set u" "depth d u = d" "1 \<le> d \<Longrightarrow> deep d u" "list_all not_quote u"
    "list_all (\<lambda>c. c \<noteq> CHR 0x22 \<and> c \<noteq> CHR 0x5C) u"
proof -
  have "list_all no_paren u" using assms by (rule list.pred_mono_strong) (rule plain_classes)
  then show "depth d u = d" "1 \<le> d \<Longrightarrow> deep d u" by (simp_all add: depth_no_paren deep_no_paren)
  show "CHR ''&'' \<notin> set u" "CHR ''|'' \<notin> set u" using assms by (auto simp: list_all_iff plain_def)
  show "list_all not_quote u" using assms by (rule list.pred_mono_strong) (rule plain_classes)
  show "list_all (\<lambda>c. c \<noteq> CHR 0x22 \<and> c \<noteq> CHR 0x5C) u"
    using assms by (rule list.pred_mono_strong) (rule plain_classes)
qed

lemma time_func_plain:
  assumes "f \<in> set TIME_FUNCS"
  shows "list_all plain f" "f \<noteq> []" "graphic (hd f)"
  using assms by (auto simp: TIME_FUNCS_def plain_def graphic_def)

lemma numeric_last: "numeric s \<Longrightarrow> graphic (last s)"
  using numeric_props [of s] by (auto simp: list_all_iff num_char_props)

lemma solid_range:
  assumes "f \<in> set TIME_FUNCS" "list_all plain tz" "numeric s" "numeric e"
  shows "solid (range_text f tz s e)"
  using time_func_plain [OF assms(1)] numeric_props [OF assms(3)] numeric_props [OF assms(4)]
    numeric_last [OF assms(4)] assms(2)
  by (simp add: solid_def range_text_def balanced_def plain_free paren_step_def)

lemma solid_cmp:
  assumes "f \<in> set TIME_FUNCS" "list_all plain tz" "numeric v" "oper \<in> set time_ops"
  shows "solid (f @ ''(\"'' @ tz @ ''\") '' @ oper @ '' '' @ v)"
proof -
  have "list_all plain oper" using assms(4) by (auto simp: time_ops_def plain_def)
  then show ?thesis
  using time_func_plain [OF assms(1)] numeric_props [OF assms(3)] numeric_last [OF assms(3)] assms(2)
  by (simp add: solid_def balanced_def plain_free paren_step_def)
qed

lemma solid_ph:
  assumes "list_all plain u"
  shows "solid (''header(\"'' @ u @ ''\") != \"\"'')" "solid (''param(\"'' @ u @ ''\") != nil'')"
    "list_all plain v \<Longrightarrow> solid (''has(header(\"'' @ u @ ''\"), '' @ (CHR 0x22 # v @ [CHR 0x22]) @ '')'')"
  using assms by (simp_all add: solid_def balanced_def plain_free paren_step_def graphic_def)

lemma literal_free:
  assumes "plain_text v"
  shows "CHR ''&'' \<notin> set (literal v)" "CHR ''|'' \<notin> set (literal v)" "depth d (literal v) = d"
    "1 \<le> d \<Longrightarrow> deep d (literal v)" "graphic (last (literal v))"
proof -
  have v: "list_all plain v" using assms by (simp add: plain_text_def)
  note p = plain_free [OF v]
  show "CHR ''&'' \<notin> set (literal v)" "CHR ''|'' \<notin> set (literal v)" "depth d (literal v) = d"
    "1 \<le> d \<Longrightarrow> deep d (literal v)"
    using p by (simp_all add: literal_def paren_step_def)
  show "graphic (last (literal v))"
    using numeric_last by (auto simp: literal_def graphic_def)
qed

lemma solid_eq:
  assumes "list_all plain u" "plain_text v"
  shows "solid (source_text src @ ''(\"'' @ u @ ''\") == '' @ literal v)"
  using assms(1) literal_free [OF assms(2)] literal_props(2) [OF assms(2)]
  by (cases src) (simp_all add: source_text_def solid_def balanced_def plain_free paren_step_def graphic_def)

definition wrapped :: "string \<Rightarrow> string" where
  "wrapped e = (if sublist '' || '' e then ''('' @ e @ '')'' else e)"

lemma solid_wrapped_text: "solid e \<Longrightarrow> solid (wrapped e)"
  using solid_wrapped by (simp add: wrapped_def del: append.simps)

lemma no_bar: "CHR ''|'' \<notin> set e \<Longrightarrow> wrapped e = e"
  by (auto simp: wrapped_def sublist_def)

lemma range_wrapped: "wrapped (range_text f tz s e) = ''('' @ range_text f tz s e @ '')''"
  using sublist_appendI [of "'' || ''" "f @ ''(\"'' @ tz @ ''\") >= '' @ s"
      "f @ ''(\"'' @ tz @ ''\") < '' @ e"]
  by (simp add: wrapped_def range_text_def)

text \<open>What the builder writes for a condition, and that the reader reads it back, alone and wrapped.\<close>

definition readable :: "request_condition \<Rightarrow> bool" where
  "readable c \<longleftrightarrow>
     (let e = buildRequestConditionExpr c
      in solid e \<and> tryParseRequestCondition e = Inr (Some c)
         \<and> tryParseRequestCondition (wrapped e) = Inr (Some c))"

lemma time_readable:
  assumes wf: "wf_condition (Time_Condition t)"
  shows "readable (Time_Condition t)"
proof -
  let ?f = "timeFunc t" and ?tz = "timezone t"
  have f: "?f \<in> set TIME_FUNCS" and tz: "list_all plain ?tz" "?tz \<noteq> []" using wf by simp_all
  note parse = plain_free(5) [OF tz(1)] tz(2)
  have e: "buildRequestConditionExpr (Time_Condition t) = time_expr t"
    by (simp add: buildRequestConditionExpr_def buildTimeConditionExpr_def normal_time [OF wf])
  show ?thesis
  proof (cases "t_mode t = MATCH_RANGE")
    case True
    then have n: "numeric (rangeStart t)" "numeric (rangeEnd t)" and v: "t_value t = []" using wf by simp_all
    note s = numeric_props [OF n(1)] and r = numeric_props [OF n(2)]
    let ?e = "range_text ?f ?tz (rangeStart t) (rangeEnd t)"
    have "time_expr t = ?e"
      using True n s(3) r(3) by (simp add: time_expr_def range_text_def json_quote_plain tz numeric_def Let_def)
    moreover have "wrapped ?e = ''('' @ ?e @ '')''" by (rule range_wrapped)
    moreover have t: "t = \<lparr>timeFunc = ?f, timezone = ?tz, t_mode = MATCH_RANGE, t_value = [],
                          rangeStart = rangeStart t, rangeEnd = rangeEnd t\<rparr>"
      using True v by (cases t) simp
    ultimately show ?thesis
      using parse_range [OF f parse s(1,2) r(1,2)] parse_range_paren [OF f parse s(1,2) r(1,2)]
        solid_range [OF f tz(1) n] e
      by (simp add: readable_def tryParseRequestCondition_def del: append.simps)
  next
    case False
    then have m: "t_mode t \<in> {MATCH_EQ, MATCH_GTE, MATCH_LT}" and n: "numeric (t_value t)"
      and v: "rangeStart t = []" "rangeEnd t = []" using wf by simp_all
    let ?o = "time_mode_op (t_mode t)"
    let ?e = "?f @ ''(\"'' @ ?tz @ ''\") '' @ ?o @ '' '' @ t_value t"
    have o: "?o \<in> set time_ops" "time_op_mode ?o = t_mode t" "list_all plain ?o"
      using m by (auto simp: time_mode_op_def time_op_mode_def time_ops_def match_defs plain_def)
    have "time_expr t = ?e"
      using False n numeric_props(3) [OF n] by (simp add: time_expr_def json_quote_plain tz numeric_def)
    moreover have "CHR ''|'' \<notin> set ?e"
      using plain_free(2) [OF tz(1)] plain_free(2) [OF time_func_plain(1) [OF f]] plain_free(2) [OF o(3)]
        plain_free(2) [OF numeric_props(4) [OF n]] by simp
    moreover have "t = \<lparr>timeFunc = ?f, timezone = ?tz, t_mode = t_mode t, t_value = t_value t,
                          rangeStart = [], rangeEnd = []\<rparr>"
      using v by (cases t) simp
    ultimately show ?thesis
      using parse_cmp [OF f parse numeric_props(1,2) [OF n] o(1)] solid_cmp [OF f tz(1) n o(1)] e no_bar o(2)
      by (simp add: readable_def tryParseRequestCondition_def del: append.simps)
  qed
qed

lemma ph_readable:
  assumes wf: "wf_condition (Param_Header_Condition h)"
  shows "readable (Param_Header_Condition h)"
proof -
  let ?u = "path h" and ?src = "source_text (ph_source h)"
  have u: "list_all plain ?u" "?u \<noteq> []" "trim ?u = ?u" using wf by simp_all
  note parse = plain_free(5) [OF u(1)] u(2) and bar = plain_free(2) [OF u(1)]
  have e: "buildRequestConditionExpr (Param_Header_Condition h) = ph_expr h"
    by (simp add: buildRequestConditionExpr_def normal_ph [OF wf])
  have h: "Param_Header_Condition h = ph_condition (ph_source h) ?u (ph_mode h) (ph_value h)"
    by (simp add: ph_condition_def)
  have *: "readable (Param_Header_Condition h)"
    if "ph_expr h = t" "solid t" "CHR ''|'' \<notin> set t"
      "tryParseRequestCondition t = Inr (Some (ph_condition (ph_source h) ?u (ph_mode h) (ph_value h)))" for t
    using that e no_bar [of t] by (simp add: readable_def h)
  consider "ph_mode h = MATCH_EXISTS" "ph_value h = []" "ph_source h = Header"
    | "ph_mode h = MATCH_EXISTS" "ph_value h = []" "ph_source h = Param"
    | "ph_mode h = MATCH_CONTAINS" "plain_text (ph_value h)" "ph_source h = Header"
    | "ph_mode h = MATCH_EQ" "plain_text (ph_value h)"
    using wf by (cases "ph_source h") (auto split: if_splits)
  then show ?thesis
  proof cases
    case 1
    show ?thesis
      by (rule * [OF _ solid_ph(1) [OF u(1)]])
        (use 1 u bar parse_header_exists [OF parse] in
          \<open>simp_all add: ph_expr_def json_quote_plain source_text_def\<close>)
  next
    case 2
    show ?thesis
      by (rule * [OF _ solid_ph(2) [OF u(1)]])
        (use 2 u bar parse_param_exists [OF parse] in
          \<open>simp_all add: ph_expr_def json_quote_plain source_text_def\<close>)
  next
    case 3
    then have v: "list_all plain (ph_value h)" by (simp add: plain_text_def)
    show ?thesis
      by (rule * [OF _ solid_ph(3) [OF u(1) v]])
        (use 3 u bar plain_free(2) [OF v] build_contains [OF 3(2)]
          parse_header_has [OF parse plain_free(6) [OF v] parse_quoted [OF v]] in
          \<open>simp_all add: ph_expr_def json_quote_plain source_text_def match_defs\<close>)
  next
    case 4
    have "ph_expr h = ?src @ ''(\"'' @ ?u @ ''\") == '' @ literal (ph_value h)"
      using 4 u build_literal [OF 4(2)] by (simp add: ph_expr_def json_quote_plain match_defs)
    moreover have "CHR ''|'' \<notin> set (?src @ ''(\"'' @ ?u @ ''\") == '' @ literal (ph_value h))"
      using bar literal_free(2) [OF 4(2)] by (cases "ph_source h") (simp_all add: source_text_def)
    ultimately show ?thesis
      using * [OF _ solid_eq [OF u(1) 4(2)]] parse_eq [OF parse literal_props(1-3) [OF 4(2)]] 4(1) by simp
  qed
qed

lemma wf_readable: "wf_condition c \<Longrightarrow> readable c"
  by (cases c) (simp_all only: time_readable ph_readable)

subsection \<open>Reading a group and a list of groups\<close>

lemma separator_last:
  assumes "0 < k" "CHR ''?'' \<notin> set v"
  shows "\<not> prefix '' ? '' (drop k ('' ? '' @ v))"
proof
  assume pre: "prefix '' ? '' (drop k ('' ? '' @ v))"
  from assms(1) obtain j where j: "k = Suc j" by (cases k) auto
  with pre have pre: "prefix '' ? '' (drop j (''? '' @ v))" by simp
  then obtain i where "j = Suc i" by (cases j) auto
  with pre have "prefix '' ? '' (drop i ('' '' @ v))" by simp
  then have "CHR ''?'' \<in> set (drop i ('' '' @ v))" by (auto simp: prefix_def)
  then have "CHR ''?'' \<in> set ('' '' @ v)" by (rule in_set_dropD)
  with assms(2) show False by simp
qed

lemma factor_match:
  assumes "u \<noteq> []" "numeric m"
  shows "re_match factor_re (''('' @ u @ '' ? '' @ m @ '' : 1)'')
    = Some [(0, ''('' @ u @ '' ? '' @ m @ '' : 1)''), (2, m), (1, u)]"
proof -
  let ?v = "m @ '' : 1)''" and ?t = "''('' @ u @ '' ? '' @ m @ '' : 1)''"
  let ?r = "Seq (Grp 2 num_re) (Seq (Lit '' : 1)'') (Seq eol Eps))"
  note m = numeric_props [OF assms(2)]
  have "CHR ''?'' \<notin> set ?v" using m(1) by (auto simp: list_all_iff)
  then have "\<not> prefix '' ? '' (drop k ('' ? '' @ ?v))" if "0 < k" for k
    by (rule separator_last [OF that])
  then obtain rest where "ms (Seq (Grp 1 (plus_re any)) (Seq (Lit '' ? '') ?r)) ([CHR ''(''], u @ '' ? '' @ ?v, [])
      = ms ?r ([CHR ''(''] @ u @ '' ? '', ?v, [(1, u)]) @ rest"
    using Grp_any_then [OF assms(1), of "'' ? ''" ?v 1 ?r "''(''" "[]"] by auto
  moreover have "\<exists>p. ms ?r ([CHR ''(''] @ u @ '' ? '', ?v, [(1, u)]) = [(p, [], [(2, m), (1, u)])]"
    by (simp add: re_step m del: ms.simps)
  ultimately show ?thesis
    by (auto simp: factor_re_def re_match_bol Lit_then simp del: ms.simps)
qed

lemma parse_each_map:
  "list_all (\<lambda>x. f (g x) = Inr (Some x)) xs \<Longrightarrow> parse_each f (map g xs) = Inr (Some xs)"
  by (induction xs) auto

lemma split_parts_join:
  assumes "split_top sep 0 [] t = es" "list_all (\<lambda>e. e \<noteq> [] \<and> trim e = e) es"
  shows "split_parts sep t = es"
proof -
  have "map trim es = es" using assms(2) by (simp add: list_all_iff map_idI)
  moreover have "filter (\<lambda>p. p \<noteq> []) es = es" using assms(2) by (simp add: list_all_iff)
  ultimately show ?thesis by (simp add: split_parts_def assms(1))
qed

lemma split_solids:
  assumes "list_all solid es" "es \<noteq> []"
  shows "splitTopLevelAnd (join '' && '' es) = es"
  unfolding splitTopLevelAnd_def
proof (rule split_parts_join)
  have "list_all and_part es" using assms(1) by (rule list.pred_mono_strong) (rule solid_and_part)
  then show "split_top '' && '' 0 [] (join '' && '' es) = es" using assms(2) by (rule split_and_join)
  show "list_all (\<lambda>e. e \<noteq> [] \<and> trim e = e) es"
    using assms(1) by (rule list.pred_mono_strong) (simp add: solid_trim, simp add: solid_def)
qed

text \<open>The condition of a group as one text, and its parts as the reader sees them.\<close>

definition cond_texts :: "request_condition list \<Rightarrow> string list" where
  "cond_texts cs =
     (let es = map buildRequestConditionExpr cs in if length es = 1 then es else map wrapped es)"

lemma cond_texts_props:
  assumes "list_all wf_condition cs"
  shows "list_all solid (cond_texts cs)"
    "parse_each (\<lambda>ap. tryParseRequestCondition (trim ap)) (cond_texts cs) = Inr (Some cs)"
proof -
  have r: "list_all readable cs" using assms by (rule list.pred_mono_strong) (rule wf_readable)
  show s: "list_all solid (cond_texts cs)"
    using r by (auto simp: cond_texts_def readable_def Let_def list_all_iff solid_wrapped_text)
  obtain g where g: "cond_texts cs = map g cs"
    and p: "readable c \<Longrightarrow> tryParseRequestCondition (g c) = Inr (Some c)" for c
  proof (cases "length cs = 1")
    case True
    then show ?thesis using that [of buildRequestConditionExpr] by (simp add: cond_texts_def readable_def Let_def)
  next
    case False
    then show ?thesis using that [of "wrapped \<circ> buildRequestConditionExpr"]
      by (simp add: cond_texts_def readable_def Let_def)
  qed
  have "list_all (\<lambda>c. tryParseRequestCondition (trim (g c)) = Inr (Some c)) cs"
    using r s p by (simp add: list_all_iff g solid_trim)
  then show "parse_each (\<lambda>ap. tryParseRequestCondition (trim ap)) (cond_texts cs) = Inr (Some cs)"
    unfolding g by (rule parse_each_map)
qed

lemma build_factor:
  assumes "wf_group g"
  shows "buildRuleGroupFactor g
    = ''('' @ join '' && '' (cond_texts (conditions g)) @ '' ? '' @ multiplier g @ '' : 1)''"
proof -
  let ?es = "map buildRequestConditionExpr (conditions g)"
  have cs: "conditions g \<noteq> []" "list_all wf_condition (conditions g)" and n: "numeric (multiplier g)"
    using assms by (simp_all add: wf_group_def)
  then have "list_all (\<lambda>e. e \<noteq> []) ?es"
    by (auto simp: list_all_iff readable_def Let_def solid_def dest!: wf_readable)
  then have nonempty: "filter (\<lambda>e. e \<noteq> []) ?es = ?es" by (simp add: list_all_iff)
  have combined: "(if length ?es = 1 then hd ?es
      else join '' && '' (map (\<lambda>e. if sublist '' || '' e then ''('' @ e @ '')'' else e) ?es))
      = join '' && '' (cond_texts (conditions g))"
  proof (cases "length ?es = 1")
    case True
    then obtain c where "conditions g = [c]" by (cases "conditions g") auto
    then show ?thesis by (simp add: cond_texts_def)
  next
    case False
    then show ?thesis by (simp add: cond_texts_def wrapped_def [abs_def] comp_def)
  qed
  show ?thesis
    unfolding buildRuleGroupFactor_def Let_def numeric_props(3) [OF n] nonempty combined
    using n cs(1) by (simp add: numeric_def)
qed

lemma join_ends:
  "list_all (\<lambda>f. f \<noteq> []) fs \<Longrightarrow> fs \<noteq> [] \<Longrightarrow>
   join sep fs \<noteq> [] \<and> hd (join sep fs) = hd (hd fs) \<and> last (join sep fs) = last (last fs)"
  by (induction sep fs rule: join.induct) auto

lemma trim_join:
  assumes "list_all (\<lambda>f. f \<noteq> [] \<and> graphic (hd f) \<and> graphic (last f)) fs" "fs \<noteq> []"
  shows "trim (join sep fs) = join sep fs" "join sep fs \<noteq> []"
proof -
  have "list_all (\<lambda>f. f \<noteq> []) fs" using assms(1) by (auto simp: list_all_iff)
  note e = join_ends [OF this assms(2), of sep]
  then show "join sep fs \<noteq> []" by simp
  moreover have "graphic (hd (hd fs))" "graphic (last (last fs))" using assms by (auto simp: list_all_iff)
  ultimately show "trim (join sep fs) = join sep fs" using e by (intro trim_graphic) auto
qed

lemma join_solid_balanced:
  assumes "list_all solid es"
  shows "deep 1 (join '' && '' es) \<and> depth 1 (join '' && '' es) = 1"
  using assms
proof (induction es rule: induct_list012)
  case (3 e f es)
  then have "balanced e" by (simp add: solid_def)
  moreover have "join '' && '' (e # f # es) = e @ '' && '' @ join '' && '' (f # es)" by simp
  ultimately show ?case using 3 by (simp add: balanced_def paren_step_def)
qed (simp_all add: solid_def balanced_def)

lemma factor_props:
  assumes "wf_group g"
  shows "mul_part (buildRuleGroupFactor g)" "tryParseRuleGroupFactor (buildRuleGroupFactor g) = Inr (Some g)"
    "buildRuleGroupFactor g \<noteq> []" "graphic (hd (buildRuleGroupFactor g))" "graphic (last (buildRuleGroupFactor g))"
proof -
  let ?j = "join '' && '' (cond_texts (conditions g))"
  have cs: "conditions g \<noteq> []" "list_all wf_condition (conditions g)" and n: "numeric (multiplier g)"
    using assms by (simp_all add: wf_group_def)
  note f = build_factor [OF assms] and t = cond_texts_props [OF cs(2)] and m = plain_free [OF numeric_props(4) [OF n]]
  have ne: "cond_texts (conditions g) \<noteq> []" using cs(1) by (simp add: cond_texts_def Let_def)
  have "list_all (\<lambda>e. e \<noteq> []) (cond_texts (conditions g))"
    using t(1) by (rule list.pred_mono_strong) (simp add: solid_def)
  then have j: "?j \<noteq> []" using join_ends ne by blast
  have "balanced (?j @ '' ? '' @ multiplier g @ '' : 1'')"
    using join_solid_balanced [OF t(1)] m by (simp add: balanced_def paren_step_def)
  moreover have "buildRuleGroupFactor g = ''('' @ (?j @ '' ? '' @ multiplier g @ '' : 1'') @ '')''"
    by (simp add: f)
  ultimately show "mul_part (buildRuleGroupFactor g)" by (auto simp only: mul_part_def)
  show "tryParseRuleGroupFactor (buildRuleGroupFactor g) = Inr (Some g)"
    unfolding f tryParseRuleGroupFactor_def factor_match [OF j n]
    using split_solids [OF t(1) ne] t(2) cs(1) by (simp add: the_group_def)
  show "buildRuleGroupFactor g \<noteq> []" "graphic (hd (buildRuleGroupFactor g))"
    "graphic (last (buildRuleGroupFactor g))" unfolding f by (simp_all add: graphic_def)
qed

lemma factors_props:
  assumes "list_all wf_group gs" "gs \<noteq> []"
  defines "fs \<equiv> map buildRuleGroupFactor gs"
  shows "buildRequestRuleExpr gs = join '' * '' fs" "list_all mul_part fs"
    "list_all (\<lambda>f. f \<noteq> [] \<and> graphic (hd f) \<and> graphic (last f)) fs" "fs \<noteq> []"
    "parse_each tryParseRuleGroupFactor fs = Inr (Some gs)"
proof -
  show "list_all (\<lambda>f. f \<noteq> [] \<and> graphic (hd f) \<and> graphic (last f)) fs" "list_all mul_part fs"
    using assms(1) by (auto simp: fs_def list_all_iff factor_props)
  then have "filter (\<lambda>f. f \<noteq> []) fs = fs" by (simp add: list_all_iff)
  then show "buildRequestRuleExpr gs = join '' * '' fs" by (simp add: buildRequestRuleExpr_def fs_def)
  show "fs \<noteq> []" using assms(2) by (simp add: fs_def)
  have "list_all (\<lambda>g. tryParseRuleGroupFactor (buildRuleGroupFactor g) = Inr (Some g)) gs"
    using assms(1) by (rule list.pred_mono_strong) (rule factor_props)
  then show "parse_each tryParseRuleGroupFactor fs = Inr (Some gs)"
    unfolding fs_def by (rule parse_each_map)
qed

lemma split_factors:
  assumes "list_all mul_part fs" "list_all (\<lambda>f. f \<noteq> [] \<and> graphic (hd f) \<and> graphic (last f)) fs" "fs \<noteq> []"
  shows "splitTopLevelMultiply (join '' * '' fs) = fs"
  unfolding splitTopLevelMultiply_def
proof (rule split_parts_join)
  show "split_top '' * '' 0 [] (join '' * '' fs) = fs" using assms(1,3) by (rule split_mul_join)
  show "list_all (\<lambda>e. e \<noteq> [] \<and> trim e = e) fs"
    using assms(2) by (rule list.pred_mono_strong) (auto intro: trim_graphic)
qed

lemma rules_read:
  assumes "list_all wf_group gs"
  shows "tryParseRequestRuleExpr (buildRequestRuleExpr gs) = Inr (Some gs)"
proof (cases "gs = []")
  case True
  then show ?thesis by (simp add: buildRequestRuleExpr_def tryParseRequestRuleExpr_def)
next
  case False
  note f = factors_props [OF assms False]
  show ?thesis
    unfolding tryParseRequestRuleExpr_def Let_def f(1) trim_join(1) [OF f(3,4)] split_factors [OF f(2-4)] f(5)
    using trim_join(2) [OF f(3,4)] by simp
qed

text \<open>C18. Request rules survive a round trip through the expression language: what the editor writes for
  groups of rules is read back as the same groups, with the same conditions and multipliers, in the
  same order.  It holds for every list of groups whose conditions are complete: a time condition with
  one of the five functions, a time zone of plain characters and numeric bounds; an existence test or
  an equality on a parameter or header; a containment test on a header; and a numeric multiplier.
  Plain characters exclude quotes, backslashes, parentheses, ampersands and bars.  Comparisons and
  containment tests on parameters are left out: they are not read back.\<close>

theorem rules_roundtrip:
  assumes "list_all wf_group gs"
  shows "tryParseRequestRuleExpr (buildRequestRuleExpr gs) = Inr (Some gs)"
  using assms by (rule rules_read)

definition sample_rules :: "request_rule_group list" where
  "sample_rules =
     [\<lparr>conditions =
         [Time_Condition \<lparr>timeFunc = ''hour'', timezone = ''Asia/Tokyo'', t_mode = MATCH_RANGE, t_value = [],
                          rangeStart = ''22'', rangeEnd = ''6''\<rparr>,
          Param_Header_Condition \<lparr>ph_source = Header, path = ''x-tier'', ph_mode = MATCH_CONTAINS,
                                  ph_value = ''night owl''\<rparr>,
          Param_Header_Condition \<lparr>ph_source = Param, path = ''stream'', ph_mode = MATCH_EQ, ph_value = ''true''\<rparr>],
       multiplier = ''0.5''\<rparr>,
      \<lparr>conditions = [Param_Header_Condition \<lparr>ph_source = Param, path = ''user'', ph_mode = MATCH_EXISTS,
                                            ph_value = []\<rparr>],
       multiplier = ''1e-1''\<rparr>]"

lemma sample_rules_wf: "list_all wf_group sample_rules"
  by code_simp

lemma rules_roundtrip_witness:
  "list_all wf_group sample_rules
   \<and> tryParseRequestRuleExpr (buildRequestRuleExpr sample_rules) = Inr (Some sample_rules)"
  using rules_roundtrip [OF sample_rules_wf] sample_rules_wf by simp

lemma bad_escape_throws:
  "tryParseRequestRuleExpr (''(has(header(\"a\"), '' @ [CHR 0x22, CHR 0x5C, CHR ''d'', CHR 0x22] @ '') ? 2 : 1)'')
     = Inl SyntaxError"
  by code_simp

subsection \<open>Taking a price and its rules apart\<close>

lemma outer_deep:
  "deep d u \<Longrightarrow> s \<noteq> [] \<Longrightarrow> outer_parens d (u @ s) = outer_parens (depth d u) s"
  by (induction u arbitrary: d) (auto simp: Let_def)

lemma unwrap_once:
  assumes "balanced b" "trim b = b" "\<not> hasFullOuterParens b"
  shows "unwrapOuterParens (''('' @ b @ '')'') = b"
proof -
  let ?e = "''('' @ b @ '')''"
  have "trim ?e = ?e" by (rule trim_graphic) (simp_all add: graphic_def)
  moreover have "suffix '')'' ?e" by (rule suffixI [of _ "''('' @ b"]) simp
  then have "hasFullOuterParens ?e"
    using outer_deep [of 1 b "'')''"] assms(1)
    by (simp add: hasFullOuterParens_def balanced_def paren_step_def Let_def)
  moreover have "inner ?e = b" by (simp add: inner_def)
  ultimately show ?thesis
    using assms(2,3) by (simp add: unwrapOuterParens_def unwrap_loop.simps [of ?e] unwrap_loop.simps [of b]
      del: append.simps)
qed

definition ends_with :: "string \<Rightarrow> re \<Rightarrow> bool" where
  "ends_with w r \<longleftrightarrow> (\<forall>p s c. ms r (p, s, c) \<noteq> [] \<longrightarrow> suffix w s)"

lemma ends_with_Lit: "ends_with w (Seq (Lit w) (Seq eol Eps))"
  by (auto simp: ends_with_def Lit_then eol_then prefix_def simp del: ms.simps split: if_splits)

lemma ends_with_Seq:
  assumes "ends_with w r" "over (\<lambda>_. True) q"
  shows "ends_with w (Seq q r)"
  unfolding ends_with_def
proof (intro allI impI)
  fix p s c
  assume "ms (Seq q r) (p, s, c) \<noteq> []"
  then obtain p' s' c' where m: "(p', s', c') \<in> set (ms q (p, s, c))" "ms r (p', s', c') \<noteq> []" by auto
  from ms_reads [OF assms(2) m(1)] obtain u where "s = u @ s'" by (auto simp: reads_def)
  moreover have "suffix w s'" using assms(1) m(2) by (auto simp: ends_with_def)
  ultimately show "suffix w s" by (simp add: suffix_appendI)
qed

lemma factor_suffix: "\<not> suffix '' : 1)'' t \<Longrightarrow> re_match factor_re t = None"
proof -
  let ?r = "seqs [Lit ''('', Grp 1 (plus_re any), Lit '' ? '', Grp 2 num_re, Lit '' : 1)'', eol]"
  have "ends_with '' : 1)'' ?r"
    unfolding seqs.simps
    by (intro ends_with_Seq ends_with_Lit) (simp_all add: plus_re_def any_def num_re_def)
  moreover assume "\<not> suffix '' : 1)'' t"
  ultimately have "ms ?r ([], t, []) = []" unfolding ends_with_def by blast
  then show ?thesis unfolding factor_re_def seqs.simps by (rule re_match_none)
qed

lemma base_not_rule:
  assumes "balanced b" "\<not> suffix '' : 1'' b"
  shows "is_rule_part (''('' @ b @ '')'') = Inr False"
proof -
  let ?e = "''('' @ b @ '')''"
  have "mul_part ?e" using assms(1) by (auto simp: mul_part_def)
  moreover have g: "graphic (hd ?e)" "graphic (last ?e)" by (simp_all add: graphic_def)
  ultimately have "splitTopLevelMultiply ?e = [?e]" using split_factors [of "[?e]"] by simp
  moreover have "trim ?e = ?e" using g by (intro trim_graphic) simp_all
  moreover have "\<not> suffix '' : 1)'' ?e" using assms(2) by (auto simp: suffix_def Cons_eq_append_conv)
  then have "tryParseRuleGroupFactor ?e = Inr None"
    using factor_suffix [of ?e] by (simp add: tryParseRuleGroupFactor_def del: append.simps)
  ultimately have "tryParseRequestRuleExpr ?e = Inr None"
    by (simp add: tryParseRequestRuleExpr_def Let_def del: append.simps)
  then show ?thesis by (simp add: is_rule_part_def)
qed

lemma factor_is_rule:
  assumes "wf_group g"
  shows "is_rule_part (buildRuleGroupFactor g) = Inr True"
proof -
  let ?f = "buildRuleGroupFactor g"
  note f = factor_props [OF assms]
  have "splitTopLevelMultiply ?f = [?f]" using split_factors [of "[?f]"] f by simp
  moreover have "trim ?f = ?f" using f by (intro trim_graphic)
  ultimately show ?thesis using f by (simp add: is_rule_part_def tryParseRequestRuleExpr_def)
qed

lemma sort_rules: "list_all (\<lambda>f. is_rule_part f = Inr True) fs \<Longrightarrow> sort_parts fs = Inr (fs, [])"
  by (induction fs) auto

lemma split_combined:
  assumes base: "b \<noteq> []" "trim b = b" "balanced b" "\<not> hasFullOuterParens b" "\<not> suffix '' : 1'' b"
    and rules: "list_all wf_group gs" "gs \<noteq> []"
  shows "splitBillingExprAndRequestRules (combineBillingExpr b (buildRequestRuleExpr gs))
    = Inr \<lparr>billingExpr = b, requestRuleExpr = buildRequestRuleExpr gs\<rparr>"
proof -
  define fs where "fs = map buildRuleGroupFactor gs"
  note f = factors_props [OF rules, folded fs_def]
  let ?e = "''('' @ b @ '')''"
  have combine: "combineBillingExpr b (buildRequestRuleExpr gs) = join '' * '' (?e # fs)"
    using base(1,2) trim_join [OF f(3,4)] f(1,4) by (simp add: combineBillingExpr_def join_Cons)
  have all: "list_all mul_part (?e # fs)"
    "list_all (\<lambda>f. f \<noteq> [] \<and> graphic (hd f) \<and> graphic (last f)) (?e # fs)"
    using f(2,3) base(3) by (auto simp: mul_part_def graphic_def)
  have "list_all (\<lambda>f. is_rule_part f = Inr True) fs"
    using rules(1) factor_is_rule by (auto simp: fs_def list_all_iff)
  then have "sort_parts (?e # fs) = Inr (fs, [?e])"
    using base_not_rule [OF base(3,5)] by (simp add: sort_rules del: append.simps)
  moreover have "\<not> length (?e # fs) \<le> 1" using f(4) by (cases fs) auto
  ultimately show ?thesis
    unfolding splitBillingExprAndRequestRules_def Let_def combine trim_join(1) [OF all(2) list.distinct(2)]
      split_factors [OF all list.distinct(2)]
    using trim_join(2) [OF all(2)] f(1,4) unwrap_once [OF base(3,2,4)] by (simp del: append.simps)
qed

text \<open>Combining a base price with request rules and splitting the combined expression again gives
  both parts back, character by character.  The base has matching parentheses and no space around it,
  is not itself enclosed in one pair of parentheses, and does not end like a rule.\<close>

theorem split_combine:
  assumes base: "b \<noteq> []" "trim b = b" "balanced b" "\<not> hasFullOuterParens b" "\<not> suffix '' : 1'' b"
    and rules: "list_all wf_group gs" "gs \<noteq> []"
  shows "splitBillingExprAndRequestRules (combineBillingExpr b (buildRequestRuleExpr gs))
    = Inr \<lparr>billingExpr = b, requestRuleExpr = buildRequestRuleExpr gs\<rparr>"
  using assms by (rule split_combined)

lemma split_combine_witness:
  "splitBillingExprAndRequestRules
     (combineBillingExpr ''tier(\"a\", p * 2 + c * 8)'' (buildRequestRuleExpr sample_rules))
   = Inr \<lparr>billingExpr = ''tier(\"a\", p * 2 + c * 8)'', requestRuleExpr = buildRequestRuleExpr sample_rules\<rparr>"
  by (rule split_combine [OF _ _ _ _ _ sample_rules_wf]) (code_simp+)

subsection \<open>Conditions that are not read back\<close>

text \<open>A group with one condition whose text is a guard and a test, each unreadable or readable alone.\<close>

lemma guarded_factor:
  assumes e: "buildRequestConditionExpr c = join '' && '' [x, y]" "solid x" "solid y"
    and p: "tryParseRequestCondition x = Inr (Some d)" "tryParseRequestCondition y = Inr None"
    and n: "numeric m"
  shows "tryParseRequestRuleExpr (buildRequestRuleExpr [\<lparr>conditions = [c], multiplier = m\<rparr>]) = Inr None"
proof -
  let ?e = "join '' && '' [x, y]" and ?g = "\<lparr>conditions = [c], multiplier = m\<rparr>"
  define f where "f = ''('' @ ?e @ '' ? '' @ m @ '' : 1)''"
  have ne: "?e \<noteq> []" using e(2) by (simp add: solid_def)
  then have build: "buildRequestRuleExpr [?g] = f"
    using n numeric_props(3) [OF n]
    by (simp add: buildRequestRuleExpr_def buildRuleGroupFactor_def e(1) numeric_def f_def Let_def)
  have "balanced (?e @ '' ? '' @ m @ '' : 1'')"
    using join_solid_balanced [of "[x, y]"] e(2,3) plain_free [OF numeric_props(4) [OF n]]
    by (simp add: balanced_def paren_step_def)
  moreover have "f = ''('' @ (?e @ '' ? '' @ m @ '' : 1'') @ '')''" by (simp add: f_def)
  ultimately have "mul_part f" by (auto simp only: mul_part_def)
  moreover have g: "f \<noteq> []" "graphic (hd f)" "graphic (last f)" by (simp_all add: f_def graphic_def)
  ultimately have "splitTopLevelMultiply f = [f]" using split_factors [of "[f]"] by simp
  moreover have "trim f = f" using g by (intro trim_graphic)
  moreover have "tryParseRuleGroupFactor f = Inr None"
    unfolding tryParseRuleGroupFactor_def f_def factor_match [OF ne n]
    using split_solids [of "[x, y]"] e(2,3) p by (simp add: the_group_def solid_trim)
  ultimately show ?thesis using g(1) by (simp add: build tryParseRequestRuleExpr_def)
qed

lemma no_condition_read:
  assumes "tryParseTimeCondition t = None" "re_match header_exists_re t = None" "re_match param_exists_re t = None"
    "re_match header_has_re t = None" "re_match param_has_re t = None" "re_match param_cmp_re t = None"
    "re_match eq_re t = None"
  shows "tryParseRequestCondition t = Inr None"
  by (simp add: tryParseRequestCondition_def same_groups_def assms)

lemma source_word_then [re_step]:
  "ms (Seq (Grp n (words [''param'', ''header''])) r) (p, CHR ''p'' # CHR ''a'' # CHR ''r'' # CHR ''a'' # CHR ''m'' # s, c)
     = ms r (p @ ''param'', s, (n, ''param'') # c)"
  "ms (Seq (Grp n (words [''param'', ''header''])) r) (p, CHR ''h'' # CHR ''a'' # s, c) = []"
  using source_then [of n r p Param s c] by (simp_all add: source_text_def ms_words)

lemma param_compare_none:
  assumes "list_all not_quote u" "u \<noteq> []" "oper \<in> {''>'', ''>='', ''<'', ''<=''}"
  shows "tryParseRequestCondition (''param(\"'' @ u @ ''\") '' @ oper @ '' '' @ v) = Inr None"
proof -
  from assms(3) consider "oper = ''>''" | "oper = ''>=''" | "oper = ''<''" | "oper = ''<=''" by auto
  then show ?thesis
    by cases (rule no_condition_read;
      simp add: not_time_prefix condition_res re_match_bol re_step assms(1,2) del: ms.simps)+
qed

lemma param_has_none: "tryParseRequestCondition (''has(param(\"'' @ t) = Inr None"
  by (rule no_condition_read) (simp_all add: not_time_prefix condition_res re_match_bol re_step del: ms.simps)

text \<open>C27. Two kinds of condition the editor offers for a parameter, a comparison and a containment test,
  are not read back: what the builder writes for a group with such a condition is refused by the reader,
  because the reader splits the guard \<open>param(...) != nil\<close> from the test it protects.\<close>

theorem guarded_not_read:
  assumes u: "u \<noteq> []" "list_all plain u" "trim u = u" and m: "numeric m"
    and mode: "md \<in> {MATCH_GT, MATCH_GTE, MATCH_LT, MATCH_LTE} \<and> numeric v \<or> md = MATCH_CONTAINS \<and> plain_text v"
  shows "tryParseRequestRuleExpr (buildRequestRuleExpr
      [\<lparr>conditions = [ph_condition Param u md v], multiplier = m\<rparr>]) = Inr None"
proof -
  let ?x = "''param(\"'' @ u @ ''\") != nil''"
  let ?c = "\<lparr>ph_source = Param, path = u, ph_mode = md, ph_value = v\<rparr>"
  note q = plain_free(5) [OF u(2)] u(1)
  have "md \<in> fst ` set (getRequestRuleMatchOptions ''param'')"
    using mode by (auto simp: getRequestRuleMatchOptions_def)
  then have "normalizeCondition (ph_partial ?c) = Param_Header_Condition ?c"
    using u(1) by (simp add: normalizeCondition_def ph_partial_def no_condition_def text_of_def or_else_def
        option_mode_def source_text_def)
  then have build: "buildRequestConditionExpr (ph_condition Param u md v) = ph_expr ?c"
    by (simp add: buildRequestConditionExpr_def ph_condition_def)
  note x = solid_ph(2) [OF u(2)] and px = parse_param_exists [OF q]
  show ?thesis
  proof (cases "md = MATCH_CONTAINS")
    case True
    then have v: "plain_text v" "list_all plain v" using mode by (auto simp: match_defs plain_text_def)
    let ?y = "''has(param(\"'' @ u @ ''\"), '' @ (CHR 0x22 # v @ [CHR 0x22]) @ '')''"
    have "ph_expr ?c = join '' && '' [?x, ?y]"
      using True u build_contains [OF v(1)]
      by (simp add: ph_expr_def source_text_def json_quote_plain match_defs)
    moreover have "solid ?y"
      using u(2) v(2) by (simp add: solid_def balanced_def plain_free paren_step_def graphic_def)
    ultimately show ?thesis
      using guarded_factor [OF _ x _ px _ m] build param_has_none by (metis append.assoc)
  next
    case False
    then have md: "md \<in> {MATCH_GT, MATCH_GTE, MATCH_LT, MATCH_LTE}" and v: "numeric v" using mode by auto
    let ?o = "param_mode_op md"
    let ?y = "''param(\"'' @ u @ ''\") '' @ ?o @ '' '' @ v"
    have o: "?o \<in> {''>'', ''>='', ''<'', ''<=''}" by (simp add: param_mode_op_def)
    then have "list_all plain ?o" by (auto simp: plain_def)
    then have "solid ?y"
      using u(2) numeric_props [OF v] numeric_last [OF v]
      by (simp add: solid_def balanced_def plain_free paren_step_def graphic_def)
    moreover have "ph_expr ?c = join '' && '' [?x, ?y]"
      using md v u numeric_props(3) [OF v]
      by (auto simp: ph_expr_def source_text_def json_quote_plain match_defs numeric_def)
    ultimately show ?thesis
      using guarded_factor [OF _ x _ px _ m] build param_compare_none [OF q o] by metis
  qed
qed

lemma guarded_not_read_witness:
  "tryParseRequestRuleExpr (buildRequestRuleExpr
     [\<lparr>conditions = [ph_condition Param ''max_tokens'' MATCH_GT ''4096''], multiplier = ''2''\<rparr>]) = Inr None"
  by (rule guarded_not_read) (code_simp+)

end
