(* ===== verification/Tier_Expr.thy ===== *)
theory Tier_Expr
  imports Billing_Expr
begin

section \<open>Tiers in the visual editor\<close>

text \<open>
  The visual editor of tiered prices (\<open>features/pricing/lib/tier-expr.ts\<close>): normal form of a tier,
  the expression written for a configuration, and the reader that turns an expression back into a
  configuration.  A partial tier holds the properties that are present.  \<open>evalExprLocally\<close> is left out:
  it compiles the expression as program text.
\<close>

datatype cache_mode = Timed | Generic

datatype cond_value = CNum jsnum | CText string

record tier_condition_input =
  ci_var :: string
  ci_op :: string
  ci_value :: "cond_value option"

record visual_tier =
  vt_label :: string
  vt_conditions :: "tier_condition_input list"
  input_unit_cost :: jsnum
  output_unit_cost :: jsnum
  cache_mode :: cache_mode
  cache_read_unit_cost :: jsnum
  cache_create_unit_cost :: jsnum
  cache_create_1h_unit_cost :: jsnum
  image_unit_cost :: jsnum
  image_output_unit_cost :: jsnum
  audio_input_unit_cost :: jsnum
  audio_output_unit_cost :: jsnum

record partial_tier =
  pt_label :: "string option"
  pt_conditions :: "tier_condition_input list option"
  pt_input :: "jsnum option"
  pt_output :: "jsnum option"
  pt_cache_mode :: "cache_mode option"
  pt_extra :: "(string \<times> jsnum) list"

text \<open>\<open>Number(x) > 0\<close> for a property that may be missing.\<close>

definition positive :: "jsnum option \<Rightarrow> bool" where
  "positive n = (case n of Some (Fin r) \<Rightarrow> 0 < r | Some Infinity \<Rightarrow> True | _ \<Rightarrow> False)"

definition getTierCacheMode :: "partial_tier \<Rightarrow> cache_mode" where
  "getTierCacheMode tier =
     (case pt_cache_mode tier of
        Some m \<Rightarrow> m
      | None \<Rightarrow> if positive (map_of (pt_extra tier) ''cache_create_1h_unit_cost'') then Timed else Generic)"

text \<open>A property that is present replaces the default through the spread of the argument; the seven
  extra prices are set after it.\<close>

definition given :: "'a option \<Rightarrow> 'a \<Rightarrow> 'a" where
  "given v d = (case v of None \<Rightarrow> d | Some x \<Rightarrow> x)"

definition normalizeVisualTier :: "partial_tier \<Rightarrow> visual_tier" where
  "normalizeVisualTier tier =
     (let extra = (\<lambda>f. num_or_0 (map_of (pt_extra tier) f))
      in \<lparr>vt_label = given (pt_label tier) [],
          vt_conditions = given (pt_conditions tier) [],
          input_unit_cost = given (pt_input tier) (Fin 0),
          output_unit_cost = given (pt_output tier) (Fin 0),
          cache_mode = getTierCacheMode tier,
          cache_read_unit_cost = extra ''cache_read_unit_cost'',
          cache_create_unit_cost = extra ''cache_create_unit_cost'',
          cache_create_1h_unit_cost = extra ''cache_create_1h_unit_cost'',
          image_unit_cost = extra ''image_unit_cost'',
          image_output_unit_cost = extra ''image_output_unit_cost'',
          audio_input_unit_cost = extra ''audio_input_unit_cost'',
          audio_output_unit_cost = extra ''audio_output_unit_cost''\<rparr>)"

text \<open>The extra prices of a tier by the name of their property, in the order of
  \<^const>\<open>BILLING_CACHE_VAR_MAP\<close>.\<close>

definition tier_costs :: "visual_tier \<Rightarrow> (string \<times> jsnum) list" where
  "tier_costs t =
     [(''cache_read_unit_cost'', cache_read_unit_cost t),
      (''cache_create_unit_cost'', cache_create_unit_cost t),
      (''cache_create_1h_unit_cost'', cache_create_1h_unit_cost t),
      (''image_unit_cost'', image_unit_cost t),
      (''image_output_unit_cost'', image_output_unit_cost t),
      (''audio_input_unit_cost'', audio_input_unit_cost t),
      (''audio_output_unit_cost'', audio_output_unit_cost t)]"

definition full_tier :: "visual_tier \<Rightarrow> partial_tier" where
  "full_tier t =
     \<lparr>pt_label = Some (vt_label t), pt_conditions = Some (vt_conditions t), pt_input = Some (input_unit_cost t),
      pt_output = Some (output_unit_cost t), pt_cache_mode = Some (cache_mode t), pt_extra = tier_costs t\<rparr>"

definition createDefaultVisualConfig :: "visual_tier list" where
  "createDefaultVisualConfig =
     [normalizeVisualTier
        \<lparr>pt_label = Some ''base'', pt_conditions = Some [], pt_input = Some (Fin 0), pt_output = Some (Fin 0),
         pt_cache_mode = Some Generic, pt_extra = []\<rparr>]"

text \<open>A configuration is the list of its tiers; null and undefined are the empty list, which the code
  treats alike.\<close>

definition normalizeVisualConfig :: "visual_tier list \<Rightarrow> visual_tier list" where
  "normalizeVisualConfig tiers =
     (if tiers = [] then createDefaultVisualConfig else map (\<lambda>t. normalizeVisualTier (full_tier t)) tiers)"

definition value_text :: "cond_value \<Rightarrow> string" where
  "value_text v = (case v of CNum n \<Rightarrow> num_text n | CText s \<Rightarrow> s)"

definition complete_condition :: "tier_condition_input \<Rightarrow> bool" where
  "complete_condition c \<longleftrightarrow>
     ci_var c \<noteq> [] \<and> ci_op c \<noteq> [] \<and> ci_value c \<noteq> None \<and> ci_value c \<noteq> Some (CText [])"

definition condition_text :: "tier_condition_input \<Rightarrow> string" where
  "condition_text c = ci_var c @ '' '' @ ci_op c @ '' '' @ value_text (the (ci_value c))"

definition buildConditionStr :: "tier_condition_input list \<Rightarrow> string" where
  "buildConditionStr conditions = join '' && '' (map condition_text (filter complete_condition conditions))"

definition term_text :: "string \<Rightarrow> jsnum \<Rightarrow> string" where
  "term_text v n = v @ '' * '' @ num_text n"

definition buildTierBodyExpr :: "visual_tier \<Rightarrow> string" where
  "buildTierBodyExpr tier =
     join '' + ''
       (term_text ''p'' (num_or_0 (Some (input_unit_cost tier)))
        # term_text ''c'' (num_or_0 (Some (output_unit_cost tier)))
        # List.map_filter
            (\<lambda>(field, exprVar).
               let v = num_or_0 (map_of (tier_costs tier) field)
               in if v \<noteq> Fin 0 then Some (term_text exprVar v) else None)
            BILLING_CACHE_VAR_MAP)"

definition tier_call :: "string \<Rightarrow> visual_tier \<Rightarrow> string" where
  "tier_call default_label tier =
     ''tier(\"'' @ (if vt_label tier = [] then default_label else vt_label tier) @ ''\", ''
     @ buildTierBodyExpr tier @ '')''"

text \<open>The loop over two or more tiers, from the tier with index \<open>i\<close> on.\<close>

fun tier_parts :: "nat \<Rightarrow> visual_tier list \<Rightarrow> string list" where
  "tier_parts i [] = []"
| "tier_parts i (tier # tiers) =
     (let body = tier_call (''tier_'' @ digits_of_nat (i + 1)) tier;
          cond = buildConditionStr (vt_conditions tier)
      in (if tiers \<noteq> [] \<and> cond \<noteq> [] then cond @ '' ? '' @ body else body) # tier_parts (i + 1) tiers)"

definition generateExprFromVisualConfig :: "visual_tier list \<Rightarrow> string" where
  "generateExprFromVisualConfig tiers =
     (case tiers of
        [] \<Rightarrow> ''p * 0 + c * 0''
      | [tier] \<Rightarrow>
          (let body = tier_call ''default'' tier; cond = buildConditionStr (vt_conditions tier)
           in if cond \<noteq> [] then cond @ '' ? '' @ body @ '' : p * 0 + c * 0'' else body)
      | _ \<Rightarrow> join '' : '' (tier_parts 0 tiers))"

subsection \<open>Reader\<close>

text \<open>\<open>/^v\d+:([\s\S]*)$/\<close>.\<close>

definition version_body_re :: re where
  "version_body_re = seqs [bol, Lit ''v'', plus_re (Cls is_digit), Lit '':'', Grp 1 (Star any), eol]"

text \<open>\<open>v\s*\*\s*([\d.eE+-]+)\<close>.\<close>

definition term_re :: "string \<Rightarrow> nat \<Rightarrow> re list" where
  "term_re v n = [Lit v, Star ws, Lit ''*'', Star ws, Grp n num_re]"

definition plus_sign :: "re list" where
  "plus_sign = [Star ws, Lit ''+'', Star ws]"

fun opt_terms :: "nat \<Rightarrow> string list \<Rightarrow> re list" where
  "opt_terms n [] = []"
| "opt_terms n (v # vs) = opt (seqs (plus_sign @ term_re v n)) # opt_terms (n + 1) vs"

text \<open>The body of a tier, its first group numbered \<open>n\<close>.\<close>

definition bodyPat :: "nat \<Rightarrow> re list" where
  "bodyPat n =
     term_re ''p'' n @ plus_sign @ term_re ''c'' (n + 1) @ opt_terms (n + 2) (map snd BILLING_CACHE_VAR_MAP)"

definition call_re :: "nat \<Rightarrow> re list" where
  "call_re n =
     [Lit ''tier(\"'', Grp n (Star (Cls not_quote)), Lit ''\",'', Star ws] @ bodyPat (n + 1) @ [Lit '')'']"

definition singleRe :: re where
  "singleRe = seqs (bol # call_re 1 @ [eol])"

definition visualTierRe :: re where
  "visualTierRe = seqs (opt (seqs [cond_group, Star ws, Lit ''?'', Star ws]) # call_re 2)"

text \<open>The extra prices that the groups from number \<open>n\<close> on have captured.\<close>

fun captured_costs :: "nat \<Rightarrow> string list \<Rightarrow> caps \<Rightarrow> (string \<times> jsnum) list" where
  "captured_costs n [] m = []"
| "captured_costs n (f # fs) m =
     (case group n m of None \<Rightarrow> captured_costs (n + 1) fs m
      | Some v \<Rightarrow> (f, number_of_string v) # captured_costs (n + 1) fs m)"

definition parsed_visual_tier :: "nat \<Rightarrow> tier_condition_input list \<Rightarrow> caps \<Rightarrow> visual_tier" where
  "parsed_visual_tier n cs m =
     normalizeVisualTier
       \<lparr>pt_label = Some (the_group n m), pt_conditions = Some cs,
        pt_input = Some (number_of_string (the_group (n + 1) m)),
        pt_output = Some (number_of_string (the_group (n + 2) m)),
        pt_cache_mode = None, pt_extra = captured_costs (n + 3) (map fst BILLING_CACHE_VAR_MAP) m\<rparr>"

definition condition_input :: "tier_condition \<Rightarrow> tier_condition_input" where
  "condition_input c = \<lparr>ci_var = tc_var c, ci_op = tc_op c, ci_value = Some (CNum (tc_value c))\<rparr>"

definition parse_visual_tier :: "caps \<Rightarrow> visual_tier" where
  "parse_visual_tier m = parsed_visual_tier 2 (map condition_input (parse_conditions (the_group 1 m))) m"

definition tryParseVisualConfig :: "string \<Rightarrow> visual_tier list option" where
  "tryParseVisualConfig exprStr =
     (if exprStr = [] then None
      else
        (let body = (case re_match version_body_re exprStr of None \<Rightarrow> exprStr | Some m \<Rightarrow> the_group 1 m)
         in case re_match singleRe body of
              Some simple \<Rightarrow> Some (normalizeVisualConfig [parsed_visual_tier 1 [] simple])
            | None \<Rightarrow>
                (let tiers = map parse_visual_tier (re_matches visualTierRe body)
                 in if tiers = [] then None
                    else
                      (let cfg = normalizeVisualConfig tiers
                       in if strip_ws (generateExprFromVisualConfig cfg) \<noteq> strip_ws body then None
                          else Some cfg))))"

subsection \<open>Estimator\<close>

definition ESTIMATOR_VARS :: "(string \<times> string) list" where
  "ESTIMATOR_VARS =
     [(''cr'', ''cacheReadTokens''), (''cc'', ''cacheCreateTokens''), (''cc1h'', ''cacheCreate1hTokens''),
      (''img'', ''imageTokens''), (''img_o'', ''imageOutputTokens''), (''ai'', ''audioInputTokens''),
      (''ao'', ''audioOutputTokens'')]"

definition exprUsesExtraVars :: "string \<Rightarrow> bool" where
  "exprUsesExtraVars exprStr \<longleftrightarrow>
     exprStr \<noteq> [] \<and> re_test (seqs [word_boundary, Grp 1 (words (map fst ESTIMATOR_VARS)), word_boundary]) exprStr"

end
