(* ===== verification/Tier_Roundtrip.thy ===== *)
theory Tier_Roundtrip
  imports Tier_Expr
begin

section \<open>Visual tiers are read back\<close>

text \<open>
  \<open>tryParseVisualConfig\<close> reads what \<open>generateExprFromVisualConfig\<close> writes.  The lemmas follow the
  first result of each part of the regular expression (\<open>eats\<close> of \<open>Js_Regex\<close>): a term, the optional
  extra terms, a condition, a tier, and the scan over all tiers.
\<close>

subsection \<open>Numbers\<close>

definition price :: "jsnum \<Rightarrow> bool" where
  "price n = (case n of Fin r \<Rightarrow> dec_rat r | _ \<Rightarrow> False)"

lemma decimal_text_chars: "wf_decimal d \<Longrightarrow> list_all num_char (decimal_text d)"
proof -
  assume wf: "wf_decimal d"
  obtain i f e where d: "d = (i, f, e)" by (cases d)
  have digit: "list_all num_char ds" if "list_all is_digit ds" for ds
    using that by (rule list.pred_mono_strong) (simp add: num_char_def)
  have "list_all num_char (exponent_text e)"
    using digit [OF digits_of_nat_digits] by (auto simp: exponent_text_def num_char_def)
  with wf digit show ?thesis by (auto simp: decimal_text_def d wf_decimal_def num_char_def)
qed

lemma price_text:
  assumes "price n"
  shows "list_all num_char (num_text n)" "num_text n \<noteq> []" "number_of_string (num_text n) = n"
    "num_or_0 (Some n) = n" "graphic (hd (num_text n))"
proof -
  obtain r where n: "n = Fin r" "dec_rat r" using assms by (cases n) (auto simp: price_def)
  have wf: "wf_decimal (num_parts \<bar>r\<bar>)" using wf_decimal_num_parts [of "\<bar>r\<bar>"] n(2) by (simp add: abs_if)
  then show c: "list_all num_char (num_text n)"
    using decimal_text_chars [OF wf] by (simp add: n(1) rat_text_def num_char_def abs_if split: if_splits)
  show ne: "num_text n \<noteq> []" using rat_text_hd [OF n(2)] by (simp add: n(1))
  show "number_of_string (num_text n) = n" by (simp add: n number_of_rat_text)
  show "num_or_0 (Some n) = n" by (simp add: num_or_0_def n(1))
  show "graphic (hd (num_text n))" using c ne by (auto simp: list_all_iff intro: num_char_graphic)
qed

lemma num_start:
  assumes "price n"
  obtains x t where "num_text n = x # t" "graphic x"
  using price_text(2,5) [OF assms] by (cases "num_text n") auto

subsection \<open>Terms\<close>

definition ends_number :: "string \<Rightarrow> bool" where
  "ends_number s \<longleftrightarrow> s = [] \<or> \<not> num_char (hd s)"

lemma eats_num: "price n \<Longrightarrow> ends_number s \<Longrightarrow> eats (Grp k num_re) (num_text n) s c ((k, num_text n) # c)"
  unfolding num_re_def ends_number_def by (intro eats_Grp eats_plus_Cls price_text)

lemma eats_term:
  assumes n: "price n" and s: "ends_number s"
  shows "eats (seqs (term_re v k)) (term_text v n) s c ((k, num_text n) # c)"
proof -
  have "eats (seqs [Star ws, Lit ''*'', Star ws, Grp k num_re]) (CHR '' '' # ''*'' @ CHR '' '' # num_text n) s c
      ((k, num_text n) # c)"
    using price_text(2,5) [OF n]
    by (intro eats_seqs_blank eats_seqs_Lit eats_seqs_last eats_num [OF n s])
      (simp_all add: starts_graphic_def graphic_def)
  from eats_seqs_Lit [OF this, of v] show ?thesis by (simp add: term_re_def term_text_def)
qed

lemma eats_plus_sign: "starts_graphic s \<Longrightarrow> eats (seqs plus_sign) '' + '' s c c"
  using eats_seqs_blank [OF eats_seqs_Lit [OF eats_seqs_blank [OF eats_seqs_Nil, of s], of "''+''"]]
  by (simp add: plus_sign_def graphic_def)

text \<open>A term of another variable is refused.\<close>

lemma word_graphic: "is_word c \<Longrightarrow> graphic c"
  by (auto simp: is_word_def graphic_def Let_def)

lemma refuses_other_term:
  assumes "v \<noteq> v'" "list_all is_word v" "list_all is_word v'"
  shows "refuses (seqs (term_re v k)) (v' @ CHR '' '' # t) c"
proof (cases "prefix v (v' @ CHR '' '' # t)")
  case False
  then show ?thesis by (simp add: term_re_def refuses_Seq refuses_Lit)
next
  case True
  then obtain w where w: "v' @ CHR '' '' # t = v @ w" by (auto simp: prefix_def)
  have blank: "\<not> is_word CHR '' ''" by code_simp
  from w obtain us where us: "v' = v @ us \<and> us @ CHR '' '' # t = w \<or> v' @ us = v \<and> CHR '' '' # t = us @ w"
    unfolding append_eq_append_conv2 by blast
  obtain y ys where y: "v' = v @ y # ys" "w = y # ys @ CHR '' '' # t"
  proof (cases us)
    case Nil
    with us assms(1) show ?thesis by simp
  next
    case (Cons y ys)
    with us assms(2) blank show ?thesis using that by auto
  qed
  then have "is_word y" using assms(3) by simp
  then have "graphic y" "y \<noteq> CHR ''*''" by (auto simp: word_graphic is_word_def)
  then have "refuses (seqs [Star ws, Lit ''*'', Star ws, Grp k num_re]) w c"
    by (intro refuses_seqs_none refuses_not_Lit) (simp_all add: y)
  then show ?thesis unfolding w term_re_def by (rule refuses_seqs_Lit)
qed

subsection \<open>Optional terms\<close>

fun extra_text :: "(string \<times> jsnum) list \<Rightarrow> string" where
  "extra_text [] = []"
| "extra_text ((v, n) # xs) = (if n = Fin 0 then [] else '' + '' @ term_text v n) @ extra_text xs"

fun opt_caps :: "nat \<Rightarrow> (string \<times> jsnum) list \<Rightarrow> caps \<Rightarrow> caps" where
  "opt_caps k [] c = c"
| "opt_caps k ((v, n) # xs) c = opt_caps (k + 1) xs (if n = Fin 0 then c else (k, num_text n) # c)"

definition var_name :: "string \<Rightarrow> bool" where
  "var_name v \<longleftrightarrow> v \<noteq> [] \<and> list_all is_word v"

lemma var_name_starts: "var_name v \<Longrightarrow> starts_graphic (v @ s)"
  by (cases v) (auto simp: var_name_def word_graphic)

lemma extra_start:
  "extra_text xs = [] \<or> (\<exists>v t. v \<in> fst ` set xs \<and> extra_text xs = '' + '' @ v @ CHR '' '' # t)"
proof (induction xs rule: extra_text.induct)
  case (2 v n xs)
  then show ?case
  proof (cases "n = Fin 0")
    case False
    then have "extra_text ((v, n) # xs) = '' + '' @ v @ CHR '' '' # (''* '' @ num_text n @ extra_text xs)"
      by (simp add: term_text_def)
    moreover have "v \<in> fst ` set ((v, n) # xs)" by simp
    ultimately show ?thesis by blast
  qed auto
qed simp

lemma ends_number_extra: "ends_number (extra_text xs @ CHR '')'' # s)"
  using extra_start [of xs] by (auto simp: ends_number_def)

lemma refuses_absent:
  assumes v: "var_name v" "v \<notin> fst ` set xs" and xs: "\<forall>x\<in>set xs. var_name (fst x)"
  shows "refuses (seqs (plus_sign @ term_re v k)) (extra_text xs @ CHR '')'' # s) c"
proof -
  consider "extra_text xs = []" | v' t where "v' \<in> fst ` set xs" "extra_text xs = '' + '' @ v' @ CHR '' '' # t"
    using extra_start [of xs] by auto
  then show ?thesis
  proof cases
    case 1
    then show ?thesis
      by (simp add: plus_sign_def del: seqs.simps)
        (intro refuses_seqs_none refuses_not_Lit, simp_all add: graphic_def)
  next
    case 2
    then have v': "var_name v'" "v \<noteq> v'" using xs v(2) by auto
    let ?t = "v' @ CHR '' '' # t @ CHR '')'' # s"
    have other: "refuses (seqs (term_re v k)) ?t c"
      using refuses_other_term [OF v'(2)] v(1) v'(1) by (simp add: var_name_def)
    have blank: "refuses (seqs (term_re v k)) (CHR '' '' # ?t) c"
      unfolding term_re_def
    proof (rule refuses_not_Lit)
      show "\<not> prefix v (CHR '' '' # ?t)" using var_name_starts [OF v(1), of "[]"] by (cases v) (auto simp: graphic_def)
    qed
    have "refuses (seqs (Star ws # Lit ''+'' # Star ws # term_re v k)) (CHR '' '' # ''+'' @ CHR '' '' # ?t) c"
    proof (rule refuses_seqs_blank)
      show "refuses (seqs (Lit ''+'' # Star ws # term_re v k)) (''+'' @ CHR '' '' # ?t) c"
        by (intro refuses_seqs_Lit refuses_seqs_blank other blank var_name_starts [OF v'(1)])
      show "refuses (seqs (Lit ''+'' # Star ws # term_re v k)) (CHR '' '' # ''+'' @ CHR '' '' # ?t) c"
        by (rule refuses_not_Lit) simp
    qed (simp add: graphic_def)
    then show ?thesis by (simp add: plus_sign_def 2 del: seqs.simps)
  qed
qed

lemma eats_opt_terms:
  assumes "distinct (map fst xs)" "\<forall>x\<in>set xs. var_name (fst x) \<and> price (snd x)"
  shows "eats (seqs (opt_terms k (map fst xs))) (extra_text xs) (CHR '')'' # s) c (opt_caps k xs c)"
  using assms
proof (induction k xs c rule: opt_caps.induct)
  case (1 k c)
  show ?case by (simp add: eats_def)
next
  case (2 k v n xs c)
  then have v: "var_name v" "price n" "v \<notin> fst ` set xs" and xs: "\<forall>x\<in>set xs. var_name (fst x)" by auto
  let ?c = "if n = Fin 0 then c else (k, num_text n) # c"
  let ?q = "opt (seqs (plus_sign @ term_re v k))"
  have rest: "eats (seqs (opt_terms (k + 1) (map fst xs))) (extra_text xs) (CHR '')'' # s) ?c (opt_caps (k + 1) xs ?c)"
    using 2 by auto
  have "eats ?q (if n = Fin 0 then [] else '' + '' @ term_text v n) (extra_text xs @ CHR '')'' # s) c ?c"
  proof (cases "n = Fin 0")
    case True
    then show ?thesis using eats_opt_skip [OF refuses_absent [OF v(1,3) xs]] by simp
  next
    case False
    have "starts_graphic (term_text v n @ extra_text xs @ CHR '')'' # s)"
      using var_name_starts [OF v(1)] by (simp add: term_text_def del: starts_graphic_simps)
    from eats_opt [OF eats_append [OF eats_plus_sign [OF this] eats_term [OF v(2) ends_number_extra]]]
    show ?thesis using False by simp
  qed
  from eats_Cons [OF this rest] show ?case by simp
qed

subsection \<open>The call of one tier\<close>

definition tier_vars :: "visual_tier \<Rightarrow> (string \<times> jsnum) list" where
  "tier_vars t = map (\<lambda>(f, v). (v, num_or_0 (map_of (tier_costs t) f))) BILLING_CACHE_VAR_MAP"

definition priced :: "visual_tier \<Rightarrow> bool" where
  "priced t \<longleftrightarrow> price (input_unit_cost t) \<and> price (output_unit_cost t) \<and> list_all (price \<circ> snd) (tier_costs t)"

lemma var_map:
  "BILLING_CACHE_VAR_MAP =
     [(''cache_read_unit_cost'', ''cr''), (''cache_create_unit_cost'', ''cc''),
      (''cache_create_1h_unit_cost'', ''cc1h''), (''image_unit_cost'', ''img''),
      (''image_output_unit_cost'', ''img_o''), (''audio_input_unit_cost'', ''ai''),
      (''audio_output_unit_cost'', ''ao'')]"
  by (simp add: BILLING_CACHE_VAR_MAP_def BILLING_EXTRA_VARS_def BILLING_VARS_def price_var_def)

lemma tier_vars_names:
  "map fst (tier_vars t) = map snd BILLING_CACHE_VAR_MAP" "distinct (map fst (tier_vars t))"
  "\<forall>x\<in>set (tier_vars t). var_name (fst x)"
proof -
  show n: "map fst (tier_vars t) = map snd BILLING_CACHE_VAR_MAP" by (auto simp: tier_vars_def)
  show "distinct (map fst (tier_vars t))" unfolding n by (simp add: var_map)
  have "list_all var_name (map snd BILLING_CACHE_VAR_MAP)" by code_simp
  then show "\<forall>x\<in>set (tier_vars t). var_name (fst x)" unfolding n [symmetric] by (simp add: list_all_iff)
qed

lemma tier_vars_price: "priced t \<Longrightarrow> \<forall>x\<in>set (tier_vars t). price (snd x)"
  by (simp add: priced_def tier_vars_def var_map tier_costs_def price_text)

lemma join_extra:
  "join '' + '' (a # List.map_filter (\<lambda>(f, v). let n = g f in if n \<noteq> Fin 0 then Some (term_text v n) else None) m)
     = a @ extra_text (map (\<lambda>(f, v). (v, g f)) m)"
proof (induction m arbitrary: a)
  case (Cons x m)
  obtain f v where x: "x = (f, v)" by (cases x)
  show ?case
  proof (cases "g f = Fin 0")
    case True
    with Cons [of a] show ?thesis by (simp add: x List.map_filter_simps)
  next
    case False
    with Cons [of "term_text v (g f)"] show ?thesis by (simp add: x List.map_filter_simps join_Cons)
  qed
qed (simp add: List.map_filter_simps)

lemma body_text:
  assumes "priced t"
  shows "buildTierBodyExpr t = term_text ''p'' (input_unit_cost t) @ '' + '' @ term_text ''c'' (output_unit_cost t)
    @ extra_text (tier_vars t)"
  using assms join_extra [of "term_text ''c'' (output_unit_cost t)" "\<lambda>f. num_or_0 (map_of (tier_costs t) f)"
      BILLING_CACHE_VAR_MAP]
  by (simp add: buildTierBodyExpr_def tier_vars_def price_text priced_def join_Cons)

lemma eats_body:
  assumes "priced t"
  shows "eats (seqs (bodyPat k)) (buildTierBodyExpr t) (CHR '')'' # s) c
    (opt_caps (k + 2) (tier_vars t)
      ((k + 1, num_text (output_unit_cost t)) # (k, num_text (input_unit_cost t)) # c))"
proof -
  let ?i = "input_unit_cost t" and ?o = "output_unit_cost t" and ?x = "extra_text (tier_vars t)"
  have p: "price ?i" "price ?o" "\<forall>x\<in>set (tier_vars t). var_name (fst x) \<and> price (snd x)"
    using assms tier_vars_names(3) tier_vars_price by (auto simp: priced_def)
  note e = eats_opt_terms [OF tier_vars_names(2) p(3), unfolded tier_vars_names(1)]
  have "starts_graphic (term_text ''c'' ?o @ ?x @ CHR '')'' # s)" by (simp add: term_text_def graphic_def)
  note plus = eats_plus_sign [OF this]
  have "ends_number (('' + '' @ term_text ''c'' ?o @ ?x) @ CHR '')'' # s)" by (simp add: ends_number_def)
  from eats_append [OF eats_term [OF p(1) this] eats_append [OF _ eats_append [OF eats_term [OF p(2) ends_number_extra] e]]]
  show ?thesis unfolding bodyPat_def body_text [OF assms] using plus by simp
qed

definition call_caps :: "nat \<Rightarrow> string \<Rightarrow> visual_tier \<Rightarrow> caps \<Rightarrow> caps" where
  "call_caps k l t c =
     opt_caps (k + 3) (tier_vars t)
       ((k + 2, num_text (output_unit_cost t)) # (k + 1, num_text (input_unit_cost t)) # (k, l) # c)"

lemma eats_call:
  assumes "priced t" "list_all not_quote l"
  shows "eats (seqs (call_re k)) (''tier(\"'' @ l @ ''\", '' @ buildTierBodyExpr t @ '')'') s c (call_caps k l t c)"
proof -
  have body: "starts_graphic (buildTierBodyExpr t)"
    using assms(1) by (simp add: body_text term_text_def graphic_def)
  have lab: "eats (Grp k (Star (Cls not_quote))) l ((''\",'' @ CHR '' '' # buildTierBodyExpr t @ '')'') @ s) c
      ((k, l) # c)"
    using assms(2) by (intro eats_Grp eats_Star_Cls) (simp_all add: not_quote_def)
  have "eats (seqs (bodyPat (k + 1))) (buildTierBodyExpr t) ('')'' @ s) ((k, l) # c) (call_caps k l t c)"
    using eats_body [OF assms(1), of "k + 1" s "(k, l) # c"] by (simp add: call_caps_def eval_nat_numeral)
  from eats_append [OF this eats_seqs_last [OF eats_Lit]]
  have "eats (seqs (Lit ''\",'' # Star ws # bodyPat (k + 1) @ [Lit '')'']))
      (''\",'' @ CHR '' '' # buildTierBodyExpr t @ '')'') s ((k, l) # c) (call_caps k l t c)"
    using body by (intro eats_seqs_Lit eats_seqs_blank) (simp_all add: starts_graphic_def)
  from eats_seqs_Lit [OF eats_Cons [OF lab this], of "''tier(\"''"] show ?thesis
    by (simp add: call_re_def)
qed

subsection \<open>What the groups hold\<close>

lemma opt_caps_below: "j < k \<Longrightarrow> map_of (opt_caps k xs c) j = map_of c j"
  by (induction k xs c rule: opt_caps.induct) auto

definition nonzero :: "(string \<times> jsnum) list \<Rightarrow> (string \<times> jsnum) list" where
  "nonzero xs = filter (\<lambda>x. snd x \<noteq> Fin 0) xs"

lemma captured_nonzero:
  assumes "length fs = length xs" "\<forall>x\<in>set xs. price (snd x)" "\<forall>j\<ge>k. map_of c j = None"
  shows "captured_costs k fs (opt_caps k xs c) = nonzero (zip fs (map snd xs))"
  using assms
proof (induction k xs c arbitrary: fs rule: opt_caps.induct)
  case (1 k c)
  then show ?case by (simp add: nonzero_def)
next
  case (2 k v n xs c)
  then obtain f gs where fs: "fs = f # gs" "length gs = length xs" by (cases fs) auto
  let ?c = "if n = Fin 0 then c else (k, num_text n) # c"
  have IH: "captured_costs (k + 1) gs (opt_caps (k + 1) xs ?c) = nonzero (zip gs (map snd xs))"
    using 2 fs by auto
  have "map_of (opt_caps (k + 1) xs ?c) k = (if n = Fin 0 then None else Some (num_text n))"
    using 2(4) opt_caps_below [of k "k + 1" xs ?c] by simp
  then show ?case
    using IH 2(3) price_text(3) [of n] by (cases "n = Fin 0") (simp_all add: fs group_def nonzero_def)
qed

lemma captured_group_0: "0 < k \<Longrightarrow> captured_costs k fs ((0, w) # m) = captured_costs k fs m"
  by (induction k fs m rule: captured_costs.induct) (auto simp: group_def split: option.splits)

lemma map_of_nonzero:
  "distinct (map fst xs) \<Longrightarrow> map_of xs f = Some n \<Longrightarrow> map_of (nonzero xs) f = (if n = Fin 0 then None else Some n)"
  unfolding nonzero_def
proof (induction xs)
  case (Cons x xs)
  have "map_of (filter (\<lambda>x. snd x \<noteq> Fin 0) xs) f = None" if "f \<notin> fst ` set xs"
    using that by (auto simp: map_of_eq_None_iff)
  with Cons show ?case by (auto split: if_splits)
qed simp

definition mode_derived :: "visual_tier \<Rightarrow> bool" where
  "mode_derived t \<longleftrightarrow>
     cache_mode t = (if positive (Some (cache_create_1h_unit_cost t)) then Timed else Generic)"

lemma costs_zip: "zip (map fst BILLING_CACHE_VAR_MAP) (map snd (tier_vars t)) = map (\<lambda>(f, n). (f, num_or_0 (Some n))) (tier_costs t)"
  by (simp add: tier_vars_def var_map tier_costs_def)

lemma priced_costs: "priced t \<Longrightarrow> map (\<lambda>(f, n). (f, num_or_0 (Some n))) (tier_costs t) = tier_costs t"
  by (simp add: priced_def tier_costs_def price_text)

lemma map_of_costs:
  "map_of (tier_costs t) ''cache_read_unit_cost'' = Some (cache_read_unit_cost t)"
  "map_of (tier_costs t) ''cache_create_unit_cost'' = Some (cache_create_unit_cost t)"
  "map_of (tier_costs t) ''cache_create_1h_unit_cost'' = Some (cache_create_1h_unit_cost t)"
  "map_of (tier_costs t) ''image_unit_cost'' = Some (image_unit_cost t)"
  "map_of (tier_costs t) ''image_output_unit_cost'' = Some (image_output_unit_cost t)"
  "map_of (tier_costs t) ''audio_input_unit_cost'' = Some (audio_input_unit_cost t)"
  "map_of (tier_costs t) ''audio_output_unit_cost'' = Some (audio_output_unit_cost t)"
  by (simp_all add: tier_costs_def)

lemma costs_distinct: "distinct (map fst (tier_costs t))"
  by (simp add: tier_costs_def)

lemma nonzero_cost:
  assumes "priced t" "map_of (tier_costs t) f = Some n"
  shows "num_or_0 (map_of (nonzero (tier_costs t)) f) = n"
    "positive (map_of (nonzero (tier_costs t)) f) = positive (Some n)"
proof -
  have "price n" using assms by (auto simp: priced_def list_all_iff dest!: map_of_SomeD)
  with map_of_nonzero [OF costs_distinct assms(2)]
  show "num_or_0 (map_of (nonzero (tier_costs t)) f) = n"
    "positive (map_of (nonzero (tier_costs t)) f) = positive (Some n)"
    using price_text(4) [of n] by (auto simp: num_or_0_def positive_def)
qed

lemma parsed_tier_same:
  assumes t: "priced t" "mode_derived t" and c: "\<forall>j\<ge>k. map_of c j = None" and k: "0 < k"
  shows "parsed_visual_tier k cs ((0, w) # call_caps k l t c) = t\<lparr>vt_label := l, vt_conditions := cs\<rparr>"
proof -
  let ?m = "(0, w) # call_caps k l t c"
  let ?c = "(k + 2, num_text (output_unit_cost t)) # (k + 1, num_text (input_unit_cost t)) # (k, l) # c"
  have below: "the_group j ?m = (case map_of ?c j of None \<Rightarrow> [] | Some u \<Rightarrow> u)" if "j \<in> {k, k + 1, k + 2}" for j
    using that k opt_caps_below [of j "k + 3" "tier_vars t" ?c] by (auto simp: the_group_def call_caps_def)
  have "captured_costs (k + 3) fs ?m = captured_costs (k + 3) fs (call_caps k l t c)" for fs
    by (simp add: captured_group_0)
  moreover have "captured_costs (k + 3) (map fst BILLING_CACHE_VAR_MAP) (call_caps k l t c) = nonzero (tier_costs t)"
    unfolding call_caps_def
    using captured_nonzero [of "map fst BILLING_CACHE_VAR_MAP" "tier_vars t" "k + 3" ?c] c tier_vars_price [OF t(1)]
    by (simp add: costs_zip priced_costs [OF t(1)]) (simp add: tier_vars_def)
  ultimately have costs: "captured_costs (k + 3) (map fst BILLING_CACHE_VAR_MAP) ?m = nonzero (tier_costs t)" by simp
  have p: "price (input_unit_cost t)" "price (output_unit_cost t)" using t(1) by (simp_all add: priced_def)
  note cost = nonzero_cost [OF t(1)]
  show ?thesis
    unfolding parsed_visual_tier_def normalizeVisualTier_def Let_def getTierCacheMode_def costs
    using t(2) p by (simp add: below given_def price_text cost [OF map_of_costs(1)] cost [OF map_of_costs(2)]
      cost [OF map_of_costs(3)] cost [OF map_of_costs(4)] cost [OF map_of_costs(5)] cost [OF map_of_costs(6)]
      cost [OF map_of_costs(7)] mode_derived_def)
qed

lemma normal_config:
  assumes "list_all priced ts" "ts \<noteq> []"
  shows "normalizeVisualConfig ts = ts"
proof -
  have "normalizeVisualTier (full_tier t) = t" if "priced t" for t
    using that by (simp add: normalizeVisualTier_def full_tier_def getTierCacheMode_def given_def priced_def
        map_of_costs price_text) (simp add: tier_costs_def price_text)
  then show ?thesis using assms by (simp add: normalizeVisualConfig_def list_all_iff map_idI)
qed

subsection \<open>Conditions\<close>

definition wf_input :: "tier_condition_input \<Rightarrow> bool" where
  "wf_input c \<longleftrightarrow>
     ci_var c \<in> {''p'', ''c'', ''len''} \<and> ci_op c \<in> {''<'', ''<='', ''>'', ''>=''}
     \<and> (case ci_value c of Some (CNum n) \<Rightarrow> price n \<and> list_all pos_char (num_text n) | _ \<Rightarrow> False)"

definition ends_cond :: "string \<Rightarrow> bool" where
  "ends_cond s \<longleftrightarrow> s = [] \<or> \<not> pos_char (hd s)"

lemma op_then:
  assumes "oper \<in> {''<'', ''<='', ''>'', ''>=''}" "refuses r (CHR ''='' # CHR '' '' # t) c"
  shows "ms (Seq cond_op r) (p, oper @ CHR '' '' # t, c) = ms r (p @ oper, CHR '' '' # t, c)"
  using assms by (auto simp: cond_op_def ms_words refuses_def)

lemma op_then_Grp:
  assumes "oper \<in> {''<'', ''<='', ''>'', ''>=''}" "\<And>w. refuses r (CHR ''='' # CHR '' '' # t) ((n, w) # c)"
  shows "ms (Seq (Grp n cond_op) r) (p, oper @ CHR '' '' # t, c) = ms r (p @ oper, CHR '' '' # t, (n, oper) # c)"
  using assms by (auto simp: cond_op_def ms_words refuses_def capture_def)

lemma eatsD: "eats r u s c c' \<Longrightarrow> \<exists>rest. ms r (p, u @ s, c) = (p @ u, s, c') # rest"
  by (simp add: eats_def)

lemma eats_op:
  assumes oper: "oper \<in> {''<'', ''<='', ''>'', ''>=''}" and e: "eats (seqs rs) (CHR '' '' # v) s c c'"
    and r: "refuses (seqs rs) (CHR ''='' # CHR '' '' # v @ s) c"
  shows "eats (seqs (cond_op # rs)) (oper @ CHR '' '' # v) s c c'"
  unfolding eats_def seqs.simps
proof
  fix p
  from e obtain rest where "ms (seqs rs) (p @ oper, CHR '' '' # v @ s, c) = ((p @ oper) @ CHR '' '' # v, s, c') # rest"
    using eatsD [OF e, of "p @ oper"] by auto
  with op_then [OF oper r, of p]
  show "\<exists>rest. ms (Seq cond_op (seqs rs)) (p, (oper @ CHR '' '' # v) @ s, c) = (p @ oper @ CHR '' '' # v, s, c') # rest"
    by simp
qed

lemma eats_op_Grp:
  assumes oper: "oper \<in> {''<'', ''<='', ''>'', ''>=''}" and e: "eats (seqs rs) (CHR '' '' # v) s ((n, oper) # c) c'"
    and r: "\<And>w. refuses (seqs rs) (CHR ''='' # CHR '' '' # v @ s) ((n, w) # c)"
  shows "eats (seqs (Grp n cond_op # rs)) (oper @ CHR '' '' # v) s c c'"
  unfolding eats_def seqs.simps
proof
  fix p
  from e obtain rest where
    "ms (seqs rs) (p @ oper, CHR '' '' # v @ s, (n, oper) # c) = ((p @ oper) @ CHR '' '' # v, s, c') # rest"
    using eatsD [OF e, of "p @ oper"] by auto
  with op_then_Grp [OF oper r, of p]
  show "\<exists>rest. ms (Seq (Grp n cond_op) (seqs rs)) (p, (oper @ CHR '' '' # v) @ s, c)
      = (p @ oper @ CHR '' '' # v, s, c') # rest" by simp
qed

lemma eats_var:
  "v \<in> {''p'', ''c'', ''len''} \<Longrightarrow> eats cond_var v (CHR '' '' # s) c c"
  by (auto simp: cond_var_def eats_def ms_words)

lemma refuses_equals:
  "ms (plus_re (Cls pos_char)) (p, CHR ''='' # s, c) = []"
  by (simp add: plus_re_def pos_char_def is_digit_def)

lemma value_parts:
  assumes "wf_input c"
  obtains n where "ci_value c = Some (CNum n)" "price n" "list_all pos_char (num_text n)"
    "condition_text c = ci_var c @ CHR '' '' # ci_op c @ CHR '' '' # num_text n"
  using assms that by (auto simp: wf_input_def condition_text_def value_text_def split: option.splits cond_value.splits)

lemma op_starts: "oper \<in> {''<'', ''<='', ''>'', ''>=''} \<Longrightarrow> starts_graphic (oper @ s)"
  by (auto simp: graphic_def)

lemma eats_cond:
  assumes wf: "wf_input d" and s: "ends_cond s"
  shows "eats cond_re (condition_text d) s c c"
proof -
  obtain n where n: "price n" "list_all pos_char (num_text n)"
    "condition_text d = ci_var d @ CHR '' '' # ci_op d @ CHR '' '' # num_text n"
    using value_parts [OF wf] by metis
  have v: "ci_var d \<in> {''p'', ''c'', ''len''}" and oper: "ci_op d \<in> {''<'', ''<='', ''>'', ''>=''}"
    using wf by (simp_all add: wf_input_def)
  let ?rs = "[Star ws, plus_re (Cls pos_char)]"
  have "eats (seqs ?rs) (CHR '' '' # num_text n) s c c"
    using price_text(2,5) [OF n(1)] n(2) s
    by (intro eats_seqs_blank eats_seqs_last eats_plus_Cls) (simp_all add: starts_graphic_def ends_cond_def)
  moreover have "refuses (seqs ?rs) (CHR ''='' # CHR '' '' # num_text n @ s) c"
    by (rule refuses_seqs_none) (simp_all add: refuses_def refuses_equals graphic_def)
  ultimately have "eats (seqs (cond_op # ?rs)) (ci_op d @ CHR '' '' # num_text n) s c c"
    by (rule eats_op [OF oper])
  then have "eats (seqs (Star ws # cond_op # ?rs)) (CHR '' '' # ci_op d @ CHR '' '' # num_text n) s c c"
    by (rule eats_seqs_blank) (simp only: append_assoc op_starts [OF oper])
  with eats_var [OF v] have "eats (seqs (cond_var # Star ws # cond_op # ?rs)) (condition_text d) s c c"
    unfolding n(3) by (intro eats_Cons) simp_all
  then show ?thesis by (simp add: cond_re_def)
qed

lemma match_cond_part:
  assumes wf: "wf_input d"
  shows "parse_condition_part (condition_text d)
    = Some \<lparr>tc_var = ci_var d, tc_op = ci_op d, tc_value = (case ci_value d of Some (CNum n) \<Rightarrow> n | _ \<Rightarrow> NaN)\<rparr>"
proof -
  obtain n where n: "ci_value d = Some (CNum n)" "price n" "list_all pos_char (num_text n)"
    "condition_text d = ci_var d @ CHR '' '' # ci_op d @ CHR '' '' # num_text n"
    using value_parts [OF wf] by metis
  have v: "ci_var d \<in> {''p'', ''c'', ''len''}" and oper: "ci_op d \<in> {''<'', ''<='', ''>'', ''>=''}"
    using wf by (simp_all add: wf_input_def)
  let ?rs = "[Star ws, Grp 3 (plus_re (Cls pos_char)), eol]"
  let ?c = "(2, ci_op d) # [(1, ci_var d)]"
  have "eats (Grp 3 (plus_re (Cls pos_char))) (num_text n) ([] @ []) ?c ((3, num_text n) # ?c)"
    using price_text(2) [OF n(2)] n(3) by (intro eats_Grp eats_plus_Cls) simp_all
  from eats_Cons [OF this eats_seqs_last [OF eats_eol]]
  have "eats (seqs [Grp 3 (plus_re (Cls pos_char)), eol]) (num_text n @ []) [] ?c ((3, num_text n) # ?c)" .
  then have "eats (seqs ?rs) (CHR '' '' # num_text n) [] ?c ((3, num_text n) # ?c)"
    using price_text(2,5) [OF n(2)] by (intro eats_seqs_blank) (simp_all add: starts_graphic_def)
  moreover have "refuses (seqs ?rs) (CHR ''='' # CHR '' '' # num_text n @ []) ((2, w) # [(1, ci_var d)])" for w
    by (rule refuses_seqs_none) (simp_all add: refuses_def refuses_equals graphic_def)
  ultimately have "eats (seqs (Grp 2 cond_op # ?rs)) (ci_op d @ CHR '' '' # num_text n) [] [(1, ci_var d)]
      ((3, num_text n) # ?c)"
    by (rule eats_op_Grp [OF oper])
  then have "eats (seqs (Star ws # Grp 2 cond_op # ?rs)) (CHR '' '' # ci_op d @ CHR '' '' # num_text n) []
      [(1, ci_var d)] ((3, num_text n) # ?c)"
    by (rule eats_seqs_blank) (simp only: append_assoc op_starts [OF oper])
  with eats_Grp [OF eats_var [OF v]]
  have e: "eats (seqs (Grp 1 cond_var # Star ws # Grp 2 cond_op # ?rs)) (condition_text d) [] []
      ((3, num_text n) # ?c)"
    unfolding n(4) by (intro eats_Cons) simp_all
  have "num_char (last (num_text n))"
    using price_text(1,2) [OF n(2)] by (simp add: list_all_iff)
  then have "graphic (last (condition_text d))" using price_text(2) [OF n(2)] by (simp add: n(4) num_char_graphic)
  moreover have "condition_text d \<noteq> []" "graphic (hd (condition_text d))" using v by (auto simp: n(4) graphic_def)
  ultimately have "trim (condition_text d) = condition_text d" by (intro trim_graphic)
  with re_match_eats [OF e] show ?thesis
    by (simp add: parse_condition_part_def cond_part_re_def the_group_def n(1) price_text(3) [OF n(2)])
qed

definition blank_and :: re where
  "blank_and = seqs [Star ws, Lit ''&&'', Star ws, cond_re]"

lemma eats_more_conds:
  assumes "list_all wf_input ds" "starts_graphic t" "hd t \<noteq> CHR ''&''"
  shows "eats (Star blank_and) (concat (map (\<lambda>d. '' && '' @ condition_text d) ds)) (CHR '' '' # t) c c"
  using assms(1)
proof (induction ds)
  case Nil
  have "refuses blank_and (CHR '' '' # t) c"
    unfolding blank_and_def using assms(2,3)
    by (intro refuses_seqs_blank refuses_not_Lit) (auto simp: starts_graphic_def prefix_def)
  then show ?case using eats_Star_end by simp
next
  case (Cons d ds)
  let ?more = "concat (map (\<lambda>d. '' && '' @ condition_text d) ds)"
  have d: "wf_input d" using Cons.prems by simp
  have "ends_cond (?more @ CHR '' '' # t)"
    by (cases ds) (auto simp: ends_cond_def pos_char_def is_digit_def)
  note e = eats_cond [OF d this]
  have "starts_graphic (condition_text d)"
    using d by (auto simp: wf_input_def condition_text_def graphic_def)
  then have "eats blank_and (CHR '' '' # ''&&'' @ CHR '' '' # condition_text d) (?more @ CHR '' '' # t) c c"
    unfolding blank_and_def
    by (intro eats_seqs_blank eats_seqs_Lit eats_seqs_last e) (auto simp: starts_graphic_def graphic_def)
  then have "eats blank_and ('' && '' @ condition_text d) (?more @ CHR '' '' # t) c c" by simp
  from eats_Star_step [OF this _ Cons.IH] Cons.prems show ?case by simp
qed

definition cond_text :: "tier_condition_input list \<Rightarrow> string" where
  "cond_text ds = join '' && '' (map condition_text ds)"

lemma join_concat: "join sep (x # xs) = x @ concat (map (\<lambda>y. sep @ y) xs)"
  by (induction xs arbitrary: x) (auto simp: join_Cons)

lemma build_cond_text:
  assumes "list_all wf_input ds"
  shows "buildConditionStr ds = cond_text ds"
proof -
  have "complete_condition d" if "wf_input d" for d
    using that by (auto simp: wf_input_def complete_condition_def split: option.splits cond_value.splits)
  then have "filter complete_condition ds = ds" using assms by (simp add: list_all_iff)
  then show ?thesis by (simp add: buildConditionStr_def cond_text_def)
qed

lemma condition_starts: "wf_input d \<Longrightarrow> starts_graphic (condition_text d @ s)"
  by (auto simp: wf_input_def condition_text_def graphic_def)

lemma eats_cond_group:
  assumes "list_all wf_input ds" "ds \<noteq> []" "starts_graphic t" "hd t \<noteq> CHR ''&''"
  shows "eats cond_group (cond_text ds) (CHR '' '' # t) c ((1, cond_text ds) # c)"
proof -
  obtain d es where ds: "ds = d # es" using assms(2) by (cases ds) auto
  let ?more = "concat (map (\<lambda>d. '' && '' @ condition_text d) es)"
  have "ends_cond (?more @ CHR '' '' # t)" by (cases es) (auto simp: ends_cond_def pos_char_def is_digit_def)
  with assms(1) have "eats cond_re (condition_text d) (?more @ CHR '' '' # t) c c" by (intro eats_cond) (auto simp: ds)
  moreover have "eats (Star blank_and) ?more (CHR '' '' # t) c c"
    using assms by (intro eats_more_conds) (auto simp: ds)
  ultimately have "eats (seqs [cond_re, Star blank_and]) (condition_text d @ ?more) (CHR '' '' # t) c c"
    by (intro eats_Cons eats_seqs_last)
  moreover have "condition_text d @ ?more = cond_text ds" by (simp add: cond_text_def ds join_concat comp_def)
  ultimately show ?thesis by (simp only: cond_group_def blank_and_def [symmetric] eats_Grp)
qed

text \<open>The white-space tolerant split of the conditions.\<close>

fun calm :: "string \<Rightarrow> bool" where
  "calm [] = True"
| "calm (x # s) \<longleftrightarrow>
     (graphic x \<and> x \<noteq> CHR ''&'' \<or> x = CHR '' '' \<and> starts_graphic s \<and> hd s \<noteq> CHR ''&'') \<and> calm s"

lemma calm_graphic: "\<forall>x\<in>set u. graphic x \<and> x \<noteq> CHR ''&'' \<Longrightarrow> calm u"
  by (induction u) auto

lemma calm_append: "calm u \<Longrightarrow> calm v \<Longrightarrow> calm (u @ v)"
proof (induction u)
  case (Cons x u)
  then show ?case by (cases u) auto
qed simp

lemma calm_refuses: "calm (x # u) \<Longrightarrow> match_here and_re p (x # u @ s) = None"
proof -
  assume calm: "calm (x # u)"
  have "refuses and_re (x # u @ s) []"
  proof (cases "x = CHR '' ''")
    case True
    with calm have u: "starts_graphic (u @ s)" "hd (u @ s) \<noteq> CHR ''&''" by (auto simp: starts_graphic_def graphic_def)
    then have "\<not> prefix ''&&'' (u @ s)" by (auto simp: prefix_def)
    with u True show ?thesis
      unfolding and_re_def by (simp only:) (intro refuses_seqs_blank refuses_not_Lit, auto)
  next
    case False
    with calm show ?thesis unfolding and_re_def by (intro refuses_seqs_none refuses_not_Lit) auto
  qed
  then show ?thesis by (simp add: refuses_def match_here_def)
qed

lemma scan_calm: "calm u \<Longrightarrow> scan_from and_re p (u @ s) = scan_from and_re (p @ u) s"
proof (induction u arbitrary: p)
  case (Cons x u)
  then show ?case using calm_refuses [OF Cons.prems, of p s] by simp
qed simp

lemma calm_condition: "wf_input d \<Longrightarrow> calm (condition_text d)"
proof -
  assume wf: "wf_input d"
  obtain n where n: "price n" "condition_text d = ci_var d @ CHR '' '' # ci_op d @ CHR '' '' # num_text n"
    using value_parts [OF wf] by metis
  have "graphic x \<and> x \<noteq> CHR ''&''" if "x \<in> set (num_text n)" for x
    using that price_text(1) [OF n(1)] by (auto simp: list_all_iff num_char_graphic)
  then have "calm (num_text n)" "starts_graphic (num_text n)" "hd (num_text n) \<noteq> CHR ''&''"
    using price_text(2,5) [OF n(1)] by (auto intro!: calm_graphic simp: starts_graphic_def)
  then have "calm (ci_op d @ CHR '' '' # num_text n)"
    using wf by (intro calm_append) (auto simp: wf_input_def graphic_def)
  then show ?thesis using wf unfolding n(2)
    by (intro calm_append) (auto simp: wf_input_def graphic_def)
qed

lemma split_conditions:
  assumes "list_all wf_input ds" "ds \<noteq> []" "length ds \<le> n"
  shows "re_split_from n and_re p (cond_text ds) = map condition_text ds"
  using assms
proof (induction ds arbitrary: n p rule: induct_list012)
  case (2 d)
  then obtain m where n: "n = Suc m" by (cases n) auto
  have "match_here and_re q [] = None" for q by (simp add: match_here_def and_re_def ms.simps(7) ms_ws js_ws_def)
  with 2 show ?case using scan_calm [OF calm_condition, of d p "[]"] by (simp add: cond_text_def n)
next
  case (3 d e ds)
  then obtain m where n: "n = Suc m" "length (e # ds) \<le> m" by (cases n) auto
  let ?t = "cond_text (e # ds)"
  have t: "starts_graphic ?t"
    using 3 condition_starts [of e] by (simp add: cond_text_def join_concat)
  then have e: "eats and_re (CHR '' '' # ''&&'' @ CHR '' '' # []) ?t [] []"
    unfolding and_re_def by (intro eats_seqs_blank eats_seqs_Lit eats_seqs_Nil) (simp_all add: graphic_def)
  have text_eq: "cond_text (d # e # ds) = condition_text d @ '' && '' @ ?t" by (simp add: cond_text_def)
  have "scan_from and_re q ('' && '' @ ?t) = Some ('' && '' @ ?t, (q @ '' && '', ?t, []))" for q
    using eatsD [OF e, of q] by (auto simp: match_here_def)
  then have "re_split_from n and_re p (cond_text (d # e # ds))
      = condition_text d # re_split_from m and_re ((p @ condition_text d) @ '' && '') ?t"
    using scan_calm [OF calm_condition, of d p "'' && '' @ ?t"] 3 unfolding text_eq n(1) by simp
  then show ?case using 3 n(2) by simp
qed simp

lemma condition_nonempty: "wf_input d \<Longrightarrow> condition_text d \<noteq> []"
  using condition_starts [of d "[]"] by auto

lemma cond_text_length: "list_all wf_input ds \<Longrightarrow> length ds \<le> length (cond_text ds)"
proof (induction ds rule: induct_list012)
  case (2 d)
  then show ?case using condition_nonempty [of d] by (cases "condition_text d") (auto simp: cond_text_def)
next
  case (3 d e ds)
  then have "length (e # ds) \<le> length (cond_text (e # ds))" by simp
  then show ?case by (simp add: cond_text_def)
qed simp

lemma parse_conditions_same:
  assumes "list_all wf_input ds"
  shows "map condition_input (parse_conditions (cond_text ds)) = ds"
proof (cases "ds = []")
  case True
  then show ?thesis by (simp add: parse_conditions_def cond_text_def)
next
  case False
  have len: "length ds \<le> length (cond_text ds)" using assms by (rule cond_text_length)
  have "cond_text ds \<noteq> []" using len False by auto
  moreover have "map condition_input (List.map_filter parse_condition_part (map condition_text ds)) = ds"
    using assms
  proof (induction ds)
    case (Cons d ds)
    obtain n where "ci_value d = Some (CNum n)" using value_parts [of d] Cons.prems by auto
    then have "condition_input \<lparr>tc_var = ci_var d, tc_op = ci_op d,
        tc_value = (case ci_value d of Some (CNum n) \<Rightarrow> n | _ \<Rightarrow> NaN)\<rparr> = d"
      by (simp add: condition_input_def)
    with Cons match_cond_part [of d] show ?case by (simp add: List.map_filter_simps)
  qed (simp add: List.map_filter_simps)
  moreover have "re_split and_re (cond_text ds) = map condition_text ds"
    unfolding re_split_def by (rule split_conditions [OF assms False]) (use len in simp)
  ultimately show ?thesis by (simp add: parse_conditions_def)
qed

subsection \<open>One tier with its condition\<close>

definition wf_tier :: "visual_tier \<Rightarrow> bool" where
  "wf_tier t \<longleftrightarrow>
     vt_label t \<noteq> [] \<and> list_all not_quote (vt_label t) \<and> priced t \<and> mode_derived t
     \<and> list_all wf_input (vt_conditions t)"

definition part_text :: "visual_tier \<Rightarrow> string" where
  "part_text t =
     (if vt_conditions t = [] then [] else cond_text (vt_conditions t) @ '' ? '') @ tier_call [] t"

definition cond_caps :: "visual_tier \<Rightarrow> caps" where
  "cond_caps t = (if vt_conditions t = [] then [] else [(1, cond_text (vt_conditions t))])"

definition part_caps :: "visual_tier \<Rightarrow> caps" where
  "part_caps t = call_caps 2 (vt_label t) t (cond_caps t)"

lemma call_text:
  "vt_label t \<noteq> [] \<Longrightarrow> tier_call l t = ''tier(\"'' @ vt_label t @ ''\", '' @ buildTierBodyExpr t @ '')''"
  by (simp add: tier_call_def)

lemma refuses_cond_group:
  assumes "x \<notin> {CHR ''p'', CHR ''c'', CHR ''l''}"
  shows "refuses cond_group (x # s) c"
proof -
  have "refuses cond_var (x # s) c" using assms by (auto simp: refuses_def cond_var_def ms_words)
  then show ?thesis by (simp add: refuses_def cond_group_def cond_re_def)
qed

lemma eats_part:
  assumes "wf_tier t"
  shows "eats visualTierRe (part_text t) s [] (part_caps t)"
proof -
  let ?call = "''tier(\"'' @ vt_label t @ ''\", '' @ buildTierBodyExpr t @ '')''"
  let ?g = "seqs [cond_group, Star ws, Lit ''?'', Star ws]"
  have wf: "list_all wf_input (vt_conditions t)" "priced t" "list_all not_quote (vt_label t)" "vt_label t \<noteq> []"
    using assms by (simp_all add: wf_tier_def)
  have "eats (opt ?g) (if vt_conditions t = [] then [] else cond_text (vt_conditions t) @ '' ? '') (?call @ s) []
      (cond_caps t)"
  proof (cases "vt_conditions t = []")
    case True
    have "refuses ?g (?call @ s) []" using refuses_Seq [OF refuses_cond_group] by simp
    then show ?thesis using True by (simp add: cond_caps_def eats_opt_skip)
  next
    case False
    have "eats (seqs [Star ws, Lit ''?'', Star ws]) (CHR '' '' # ''?'' @ CHR '' '' # []) (?call @ s) c c" for c
      by (intro eats_seqs_blank eats_seqs_Lit eats_seqs_Nil) (simp_all add: graphic_def)
    then have q: "eats (seqs [Star ws, Lit ''?'', Star ws]) '' ? '' (?call @ s) c c" for c by simp
    have "eats cond_group (cond_text (vt_conditions t)) ('' ? '' @ ?call @ s) [] (cond_caps t)"
      using eats_cond_group [OF wf(1) False, of "''? '' @ ?call @ s" "[]"] False
      by (simp add: cond_caps_def graphic_def)
    from eats_opt [OF eats_Cons [OF this q]] show ?thesis using False by simp
  qed
  from eats_Cons [OF this eats_call [OF wf(2,3)]]
  show ?thesis
    by (simp only: visualTierRe_def part_text_def part_caps_def call_text [OF wf(4)])
qed

lemma part_parsed:
  assumes "wf_tier t"
  shows "parse_visual_tier ((0, w) # part_caps t) = t"
proof -
  have wf: "list_all wf_input (vt_conditions t)" "priced t" "mode_derived t" using assms by (simp_all add: wf_tier_def)
  have c: "\<forall>j\<ge>2. map_of (cond_caps t) j = None" by (simp add: cond_caps_def)
  have "the_group 1 ((0, w) # part_caps t) = cond_text (vt_conditions t)"
    using opt_caps_below [of 1 5 "tier_vars t"]
    by (simp add: the_group_def part_caps_def call_caps_def cond_caps_def cond_text_def)
  then show ?thesis
    using parsed_tier_same [OF wf(2,3) c] parse_conditions_same [OF wf(1)]
    by (simp add: parse_visual_tier_def part_caps_def)
qed

subsection \<open>All tiers\<close>

lemma refuses_tier_start:
  assumes "x \<notin> {CHR ''p'', CHR ''c'', CHR ''l'', CHR ''t''}"
  shows "refuses visualTierRe (x # s) c"
proof -
  have "refuses cond_group (x # s) c" using assms by (intro refuses_cond_group) auto
  then show ?thesis using assms
    by (auto simp: refuses_def visualTierRe_def call_re_def opt_def)
qed

lemma scan_separator:
  "scan_from visualTierRe p ('' : '' @ s) = scan_from visualTierRe (p @ '' : '') s"
proof -
  have "match_here visualTierRe q (x # u) = None" if "x = CHR '' '' \<or> x = CHR '':''" for q x u
    using that refuses_tier_start [of x u "[]"] by (auto simp: refuses_def match_here_def)
  then show ?thesis by simp
qed

lemma scan_part:
  assumes "wf_tier t"
  shows "scan_from visualTierRe p (part_text t @ s) = Some (part_text t @ s, (p @ part_text t, s, part_caps t))"
proof -
  have "match_here visualTierRe p (part_text t @ s) = Some (p @ part_text t, s, part_caps t)"
    using eatsD [OF eats_part [OF assms], of p s] by (auto simp: match_here_def)
  then show ?thesis by (cases "part_text t @ s") auto
qed

lemma needs_t: "CHR ''t'' \<notin> set s \<Longrightarrow> refuses visualTierRe s c"
  unfolding refuses_def
proof (intro allI, rule ccontr)
  fix p
  let ?o = "opt (seqs [cond_group, Star ws, Lit ''?'', Star ws])"
  obtain r where r: "visualTierRe = Seq ?o (Seq (Lit ''tier(\"'') r)" by (simp add: visualTierRe_def call_re_def)
  have "over (\<lambda>_. True) ?o"
    by (simp add: opt_def cond_group_def cond_re_def cond_var_def cond_op_def ws_def words_def plus_re_def js_ws_def)
  moreover assume "ms visualTierRe (p, s, c) \<noteq> []"
  ultimately have "sublist ''tier(\"'' s" unfolding r by (rule Seq_Lit_sublist)
  then show "CHR ''t'' \<notin> set s \<Longrightarrow> False" by (auto simp: sublist_def)
qed

lemma scan_no_t: "CHR ''t'' \<notin> set s \<Longrightarrow> scan_from visualTierRe p s = None"
proof (induction s arbitrary: p)
  case Nil
  then show ?case using needs_t [of "[]" "[]"] by (simp add: refuses_def match_here_def)
next
  case (Cons x s)
  then show ?case using needs_t [of "x # s" "[]"] by (simp add: refuses_def match_here_def)
qed

lemma exec_parts:
  assumes "list_all wf_tier ts" "length ts < n" "CHR ''t'' \<notin> set s"
  shows "map parse_visual_tier (exec_all n visualTierRe p (join '' : '' (map part_text ts) @ s)) = ts"
  using assms
proof (induction ts arbitrary: n p rule: induct_list012)
  case 1
  then obtain m where "n = Suc m" by (cases n) auto
  then show ?case using 1 scan_no_t by simp
next
  case (2 t)
  then obtain m where n: "n = Suc (Suc m)" by (cases n; cases "n - 1") auto
  then show ?case using 2 scan_part [of t p s] part_parsed [of t] scan_no_t by simp
next
  case (3 t u ts)
  then obtain m where n: "n = Suc m" "length (u # ts) < m" by (cases n) auto
  let ?s = "join '' : '' (map part_text (u # ts)) @ s"
  have "exec_all m visualTierRe q ('' : '' @ ?s) = exec_all m visualTierRe (q @ '' : '') ?s" for q
    using n(2) scan_separator [of q ?s] by (cases m) (simp_all)
  moreover have "map parse_visual_tier (exec_all m visualTierRe q ?s) = u # ts" for q
    using 3 n(2) by simp
  ultimately show ?case
    using scan_part [of t p "'' : '' @ ?s"] part_parsed [of t] 3(3) n(1) by simp
qed

subsection \<open>Configurations\<close>

definition wf_config :: "visual_tier list \<Rightarrow> bool" where
  "wf_config ts \<longleftrightarrow>
     ts \<noteq> [] \<and> list_all wf_tier ts
     \<and> (1 < length ts \<longrightarrow> list_all (\<lambda>t. vt_conditions t \<noteq> []) (butlast ts) \<and> vt_conditions (last ts) = [])"

lemma tier_parts_text:
  "list_all wf_tier ts \<Longrightarrow> list_all (\<lambda>t. vt_conditions t \<noteq> []) (butlast ts) \<Longrightarrow> ts \<noteq> [] \<Longrightarrow>
   vt_conditions (last ts) = [] \<Longrightarrow> tier_parts i ts = map part_text ts"
proof (induction ts arbitrary: i)
  case (Cons t ts)
  have t: "vt_label t \<noteq> []" "list_all wf_input (vt_conditions t)" using Cons.prems by (simp_all add: wf_tier_def)
  have "cond_text (vt_conditions t) \<noteq> []" if "vt_conditions t \<noteq> []"
    using that cond_text_length [OF t(2)] by auto
  with Cons t show ?case
    by (cases ts) (simp_all add: Let_def part_text_def build_cond_text cond_text_def tier_call_def)
qed simp

lemma cond_first:
  assumes "wf_tier t" "vt_conditions t \<noteq> []"
  shows "\<exists>x s. part_text t = x # s \<and> x \<in> {CHR ''p'', CHR ''c'', CHR ''l''}"
proof -
  obtain d ds where d: "vt_conditions t = d # ds" using assms(2) by (cases "vt_conditions t") auto
  with assms have "ci_var d \<in> {''p'', ''c'', ''len''}" by (auto simp: wf_tier_def wf_input_def)
  then show ?thesis by (auto simp: part_text_def d cond_text_def join_concat condition_text_def)
qed

lemma part_first: "wf_tier t \<Longrightarrow> \<exists>x s. part_text t = x # s \<and> x \<in> {CHR ''p'', CHR ''c'', CHR ''l'', CHR ''t''}"
  using cond_first [of t] by (cases "vt_conditions t = []") (auto simp: part_text_def tier_call_def)

lemma no_version: "x \<noteq> CHR ''v'' \<Longrightarrow> re_match version_body_re (x # s) = None"
  by (auto simp: version_body_re_def re_match_bol)

lemma not_single: "x \<noteq> CHR ''t'' \<Longrightarrow> re_match singleRe (x # s) = None"
  by (auto simp: singleRe_def call_re_def re_match_bol)

lemma single_read:
  assumes "wf_tier t" "vt_conditions t = []"
  shows "tryParseVisualConfig (part_text t) = Some [t]"
proof -
  have wf: "priced t" "mode_derived t" "list_all not_quote (vt_label t)" "vt_label t \<noteq> []"
    using assms(1) by (simp_all add: wf_tier_def)
  have p: "part_text t = ''tier(\"'' @ vt_label t @ ''\", '' @ buildTierBodyExpr t @ '')''"
    using assms(2) wf(4) by (simp add: part_text_def tier_call_def)
  from eats_append [OF eats_call [OF wf(1,3)] eats_seqs_last [OF eats_eol]]
  have "eats (seqs (call_re 1 @ [eol])) (part_text t) [] [] (call_caps 1 (vt_label t) t [])" by (simp add: p)
  from re_match_eats [OF this]
  have m: "re_match singleRe (part_text t) = Some ((0, part_text t) # call_caps 1 (vt_label t) t [])"
    by (simp add: singleRe_def)
  have v: "part_text t \<noteq> []" "re_match version_body_re (part_text t) = None" by (simp_all add: p no_version)
  have "parsed_visual_tier 1 [] ((0, part_text t) # call_caps 1 (vt_label t) t []) = t"
    using parsed_tier_same [OF wf(1,2), of 1 "[]"] assms(2) by simp
  with m v wf(1) show ?thesis by (simp add: tryParseVisualConfig_def normal_config)
qed

lemma scanned_read:
  assumes body: "body = join '' : '' (map part_text ts) @ s" "CHR ''t'' \<notin> set s"
    and ts: "list_all wf_tier ts" "ts \<noteq> []" "vt_conditions (hd ts) \<noteq> []"
    and gen: "generateExprFromVisualConfig ts = body"
  shows "tryParseVisualConfig body = Some ts"
proof -
  obtain t us where t: "ts = t # us" using ts(2) by (cases ts) auto
  with ts obtain x r where x: "part_text t = x # r" "x \<in> {CHR ''p'', CHR ''c'', CHR ''l''}"
    using cond_first [of t] by auto
  have b: "body = x # r @ concat (map (\<lambda>y. '' : '' @ y) (map part_text us)) @ s"
    unfolding body(1) t list.map join_concat x(1) by (simp add: comp_def)
  then have "re_match version_body_re body = None" "re_match singleRe body = None"
    using x(2) by (auto intro!: no_version not_single)
  moreover have "length ts < length body + 1"
  proof -
    have ne: "part_text u \<noteq> []" if "u \<in> set ts" for u using part_first [of u] ts(1) that by (auto simp: list_all_iff)
    then have "length us \<le> length (concat (map (\<lambda>y. '' : '' @ y) (map part_text us)))" by (induction us) auto
    then show ?thesis by (simp add: b t)
  qed
  then have "map parse_visual_tier (re_matches visualTierRe body) = ts"
    unfolding re_matches_def body(1) by (rule exec_parts [OF ts(1) _ body(2)])
  moreover have "normalizeVisualConfig ts = ts"
    using ts(1,2) by (intro normal_config) (auto simp: list_all_iff wf_tier_def)
  ultimately show ?thesis using gen ts(2) b by (simp add: tryParseVisualConfig_def)
qed

text \<open>The text of a configuration: its parts, and for a single conditional tier the price of the other case.\<close>

lemma config_text:
  assumes "wf_config ts"
  shows "generateExprFromVisualConfig ts = join '' : '' (map part_text ts)
    @ (if length ts = 1 \<and> vt_conditions (hd ts) \<noteq> [] then '' : p * 0 + c * 0'' else [])"
proof -
  have ts: "list_all wf_tier ts" "ts \<noteq> []" using assms by (simp_all add: wf_config_def)
  consider t where "ts = [t]" | t u us where "ts = t # u # us"
    using ts(2) by (cases ts rule: remdups_adj.cases) auto
  then show ?thesis
  proof cases
    case 1
    then have wf: "list_all wf_input (vt_conditions t)" "vt_label t \<noteq> []" using ts(1) by (simp_all add: wf_tier_def)
    have "cond_text (vt_conditions t) \<noteq> []" if "vt_conditions t \<noteq> []"
      using that cond_text_length [OF wf(1)] by auto
    with 1 wf show ?thesis
      by (auto simp: generateExprFromVisualConfig_def part_text_def build_cond_text tier_call_def cond_text_def)
  next
    case 2
    then have "list_all (\<lambda>t. vt_conditions t \<noteq> []) (butlast ts)" "vt_conditions (last ts) = []"
      using assms by (simp_all add: wf_config_def)
    from tier_parts_text [OF ts(1) this(1) ts(2) this(2), of 0] 2 show ?thesis
      by (simp add: generateExprFromVisualConfig_def)
  qed
qed

lemma config_read:
  assumes "wf_config ts"
  shows "tryParseVisualConfig (generateExprFromVisualConfig ts) = Some ts"
proof -
  have ts: "list_all wf_tier ts" "ts \<noteq> []" using assms by (simp_all add: wf_config_def)
  show ?thesis
  proof (cases "vt_conditions (hd ts) = []")
    case True
    then have "length ts = 1" using assms by (cases ts rule: remdups_adj.cases) (auto simp: wf_config_def)
    then obtain t where "ts = [t]" by (cases ts) auto
    with True ts(1) config_text [OF assms] single_read [of t] show ?thesis by simp
  next
    case False
    show ?thesis by (rule scanned_read [OF config_text [OF assms] _ ts False refl]) simp
  qed
qed

text \<open>C17. A tier configuration of the visual editor survives a round trip through the billing
  expression: what is generated for it is read back as the same tiers, in the same order, with the same
  labels, conditions and all nine prices.  It holds for one tier with or without conditions, and for
  any number of tiers where every tier but the last has conditions and the last has none; labels are
  not empty and contain no double quote, prices are finite numbers, condition bounds print without a
  minus sign, and the cache mode is the one derived from the one-hour cache price.  Outside of that it
  fails: conditions of the last of several tiers are not written, and an empty label is read as a
  generated one.\<close>

theorem visual_roundtrip:
  assumes "wf_config ts"
  shows "tryParseVisualConfig (generateExprFromVisualConfig ts) = Some ts"
  using assms by (rule config_read)

definition sample_tiers :: "visual_tier list" where
  "sample_tiers =
     [(hd createDefaultVisualConfig)\<lparr>vt_label := ''standard'',
        vt_conditions := [\<lparr>ci_var = ''len'', ci_op = ''<='', ci_value = Some (CNum (Fin 200000))\<rparr>],
        input_unit_cost := Fin 3, output_unit_cost := Fin 15, cache_read_unit_cost := Fin (3 / 10)\<rparr>,
      (hd createDefaultVisualConfig)\<lparr>vt_label := ''long context'', input_unit_cost := Fin 6,
        output_unit_cost := Fin (45 / 2)\<rparr>]"

lemma sample_tiers_wf: "wf_config sample_tiers"
  by code_simp

lemma visual_roundtrip_witness:
  "wf_config sample_tiers
   \<and> tryParseVisualConfig (generateExprFromVisualConfig sample_tiers) = Some sample_tiers"
  using visual_roundtrip [OF sample_tiers_wf] sample_tiers_wf by simp

end
