(* ===== verification/Billing_Editor.thy ===== *)
theory Billing_Editor
  imports Rule_Roundtrip Tier_Roundtrip
begin

section \<open>The billing editor\<close>

text \<open>
  The tiers (\<open>tier-expr.ts\<close>) and the request rules (\<open>billing-expr.ts\<close>) of a model meet in one
  expression.  The expression generated for well-formed tiers satisfies the conditions under which
  \<open>splitBillingExprAndRequestRules\<close> undoes \<open>combineBillingExpr\<close>.
\<close>

lemma no_paren_chars [simp]:
  "no_paren CHR '' ''" "no_paren CHR ''+''" "no_paren CHR ''*''" "no_paren CHR ''&''" "no_paren CHR ''p''" "no_paren CHR ''c''"
  "no_paren CHR ''l''" "no_paren CHR ''e''" "no_paren CHR ''n''" "no_paren CHR ''<''" "no_paren CHR ''>''" "no_paren CHR ''=''"
  "no_paren CHR '':''" "no_paren CHR ''0''"
  by code_simp+

lemma num_no_paren: "price n \<Longrightarrow> list_all no_paren (num_text n)"
  by (rule list.pred_mono_strong [OF price_text(1)]) (auto simp: no_paren_def)

lemma word_no_paren: "list_all is_word v \<Longrightarrow> list_all no_paren v"
  unfolding list_all_iff by (auto simp: no_paren_def is_word_def)

lemma extra_no_paren:
  "\<forall>x\<in>set xs. var_name (fst x) \<and> price (snd x) \<Longrightarrow> list_all no_paren (extra_text xs)"
proof (induction xs rule: extra_text.induct)
  case (2 v n xs)
  then show ?case
    using word_no_paren [of v] num_no_paren [of n] by (simp add: term_text_def var_name_def)
qed simp

lemma body_no_paren:
  assumes "priced t"
  shows "list_all no_paren (buildTierBodyExpr t)"
proof -
  have "\<forall>x\<in>set (tier_vars t). var_name (fst x) \<and> price (snd x)"
    using assms tier_vars_names(3) tier_vars_price by blast
  then show ?thesis
    using assms by (simp add: body_text term_text_def num_no_paren extra_no_paren priced_def)
qed

lemma condition_no_paren: "wf_input d \<Longrightarrow> list_all no_paren (condition_text d)"
proof -
  assume wf: "wf_input d"
  obtain n where "price n" "condition_text d = ci_var d @ CHR '' '' # ci_op d @ CHR '' '' # num_text n"
    using value_parts [OF wf] by metis
  with wf num_no_paren [of n] show ?thesis by (auto simp: wf_input_def)
qed

lemma join_no_paren: "list_all no_paren sep \<Longrightarrow> list_all (list_all no_paren) xs \<Longrightarrow> list_all no_paren (join sep xs)"
  by (induction sep xs rule: join.induct) auto

lemma part_balanced:
  assumes "wf_tier t" "list_all no_paren (vt_label t)"
  shows "balanced (part_text t)"
proof -
  have "list_all no_paren (cond_text (vt_conditions t))"
    using assms(1) condition_no_paren unfolding cond_text_def
    by (intro join_no_paren) (auto simp: wf_tier_def list_all_iff)
  moreover have "list_all no_paren (buildTierBodyExpr t)" using assms(1) body_no_paren by (simp add: wf_tier_def)
  ultimately show ?thesis
    using assms by (simp add: balanced_def part_text_def tier_call_def wf_tier_def deep_no_paren depth_no_paren paren_step_def)
qed

lemma balanced_join: "list_all balanced xs \<Longrightarrow> balanced (join '' : '' xs)"
proof (induction xs rule: induct_list012)
  case (3 x y xs)
  then show ?case by (simp add: balanced_def paren_step_def)
qed (simp_all add: balanced_def)

lemma balanced_tail: "balanced u \<Longrightarrow> list_all no_paren v \<Longrightarrow> balanced (u @ v)"
  by (simp add: balanced_def deep_no_paren depth_no_paren)

lemma part_ends: "wf_tier t \<Longrightarrow> part_text t \<noteq> [] \<and> last (part_text t) = CHR '')''"
  by (simp add: part_text_def tier_call_def)

lemma config_props:
  assumes "wf_config ts" "list_all (\<lambda>t. list_all no_paren (vt_label t)) ts"
  defines "b \<equiv> generateExprFromVisualConfig ts"
  shows "b \<noteq> []" "trim b = b" "balanced b" "\<not> hasFullOuterParens b" "\<not> suffix '' : 1'' b"
proof -
  have ts: "list_all wf_tier ts" "ts \<noteq> []" using assms(1) by (simp_all add: wf_config_def)
  let ?ps = "map part_text ts"
  obtain s where s: "b = join '' : '' ?ps @ s" "s = [] \<or> s = '' : p * 0 + c * 0''"
    unfolding b_def config_text [OF assms(1)] by auto
  have ne: "list_all (\<lambda>p. p \<noteq> []) ?ps" "?ps \<noteq> []" using ts part_ends by (auto simp: list_all_iff)
  note j = join_ends [OF ne, of "'' : ''"]
  have "last (last ?ps) = CHR '')''" using ts part_ends by (simp add: list_all_iff last_map)
  with j s have l: "last b = CHR '')'' \<or> last b = CHR ''0''" by auto
  obtain x r where "part_text (hd ts) = x # r" "x \<in> {CHR ''p'', CHR ''c'', CHR ''l'', CHR ''t''}"
    using part_first [of "hd ts"] ts by (cases ts) auto
  then have h: "hd b \<in> {CHR ''p'', CHR ''c'', CHR ''l'', CHR ''t''}" using j s ts(2) by (simp add: hd_map)
  show n: "b \<noteq> []" using j s by simp
  from n h l show "trim b = b" by (intro trim_graphic) (auto simp: graphic_def)
  have "list_all balanced ?ps" using ts(1) assms(2) part_balanced by (simp add: list_all_iff)
  then show "balanced b" using s balanced_join [of ?ps] by (auto intro: balanced_tail)
  show "\<not> hasFullOuterParens b" using n h by (cases b) (auto simp: hasFullOuterParens_def)
  show "\<not> suffix '' : 1'' b" using l by (auto simp: suffix_def)
qed

text \<open>C1. The billing editor as a whole: tiers and request rules that the expression language can carry are
  written as one expression, and splitting that expression and reading both parts gives the same tiers
  and the same rules.  The tiers are those of \<open>wf_config\<close>: every tier but the last has conditions, the
  last of several has none, labels are not empty and have no quote, and here also no parenthesis,
  prices are finite decimals and bounds not negative.  There is a rule group, and the groups are those
  of \<open>wf_group\<close>: complete conditions over plain characters, without comparisons and containment tests
  on parameters, which are not read back.\<close>

theorem editor_roundtrip:
  assumes "wf_config ts" "list_all (\<lambda>t. list_all no_paren (vt_label t)) ts" "list_all wf_group gs" "gs \<noteq> []"
  shows "\<exists>e. splitBillingExprAndRequestRules
        (combineBillingExpr (generateExprFromVisualConfig ts) (buildRequestRuleExpr gs)) = Inr e
      \<and> tryParseVisualConfig (billingExpr e) = Some ts
      \<and> tryParseRequestRuleExpr (requestRuleExpr e) = Inr (Some gs)"
  using split_combined [OF config_props [OF assms(1,2)] assms(3,4)] rules_read [OF assms(3)]
    config_read [OF assms(1)] by simp

lemma editor_roundtrip_witness:
  "\<exists>e. splitBillingExprAndRequestRules
      (combineBillingExpr (generateExprFromVisualConfig sample_tiers) (buildRequestRuleExpr sample_rules)) = Inr e
    \<and> tryParseVisualConfig (billingExpr e) = Some sample_tiers
    \<and> tryParseRequestRuleExpr (requestRuleExpr e) = Inr (Some sample_rules)"
  by (rule editor_roundtrip [OF sample_tiers_wf _ sample_rules_wf]) (code_simp+)

end
