(* ===== verification/Transitions.thy ===== *)
theory Transitions
  imports Main
begin

section \<open>Event-driven components\<close>

text \<open>
  The hooks of the console are state machines: a browser event, a timer, a resolved promise
  or a rejected one runs one uninterrupted piece of JavaScript.  A component is modelled by a
  step relation labelled with those events.  This theory holds what the components share:
  reachability, the inevitability of a goal (on every path of a relation, and never stuck
  before), and two contracts: \<open>inductive_invariant\<close>, whose laws make a predicate hold in
  every reachable state, and \<open>ranked_progress\<close>, whose laws make a goal inevitable.
\<close>

inductive reach :: "('s \<Rightarrow> 'e \<Rightarrow> 's \<Rightarrow> bool) \<Rightarrow> 's \<Rightarrow> 's \<Rightarrow> bool"
  for step :: "'s \<Rightarrow> 'e \<Rightarrow> 's \<Rightarrow> bool" and init :: 's where
  reach_init: "reach step init init"
| reach_step: "reach step init s \<Longrightarrow> step s e t \<Longrightarrow> reach step init t"

text \<open>The state after a list of events, for a step given as a partial function.\<close>

fun run :: "('e \<Rightarrow> 's \<Rightarrow> 's option) \<Rightarrow> 'e list \<Rightarrow> 's \<Rightarrow> 's option" where
  "run f [] s = Some s"
| "run f (e # es) s = (case f e s of None \<Rightarrow> None | Some t \<Rightarrow> run f es t)"

inductive inevitably :: "('s \<Rightarrow> 's \<Rightarrow> bool) \<Rightarrow> ('s \<Rightarrow> bool) \<Rightarrow> 's \<Rightarrow> bool"
  for prog :: "'s \<Rightarrow> 's \<Rightarrow> bool" and goal :: "'s \<Rightarrow> bool" where
  inevitably_now: "goal s \<Longrightarrow> inevitably prog goal s"
| inevitably_next: "prog s t \<Longrightarrow> (\<And>u. prog s u \<Longrightarrow> inevitably prog goal u) \<Longrightarrow> inevitably prog goal s"

lemma reach_run:
  assumes "\<And>e s t. f e s = Some t \<Longrightarrow> step s e t" and "reach step init s" and "run f es s = Some t"
  shows "reach step init t"
  using assms(2,3)
proof (induction es arbitrary: s)
  case (Cons e es)
  then obtain u where u: "f e s = Some u" "run f es u = Some t" by (auto split: option.splits)
  from Cons.IH [OF reach_step [OF Cons.prems(1) assms(1) [OF u(1)]] u(2)] show ?case .
qed simp

lemma reach_trans:
  assumes "reach step s t" and "reach step init s"
  shows "reach step init t"
  using assms by induction (auto intro: reach_step)

locale inductive_invariant =
  fixes step :: "'s \<Rightarrow> 'e \<Rightarrow> 's \<Rightarrow> bool"
    and init :: 's
    and inv :: "'s \<Rightarrow> bool"
  assumes inv_init: "inv init"
    and inv_step: "inv s \<Longrightarrow> step s e t \<Longrightarrow> inv t"
begin

lemma inv_reach: "reach step init s \<Longrightarrow> inv s"
  by (induction rule: reach.induct) (auto intro: inv_init inv_step)

lemma step_back: "\<not> inv t \<Longrightarrow> step s e t \<Longrightarrow> \<not> reach step init s"
  using inv_reach inv_step by blast

end

locale ranked_progress =
  fixes prog :: "'s \<Rightarrow> 's \<Rightarrow> bool"
    and safe :: "'s \<Rightarrow> bool"
    and goal :: "'s \<Rightarrow> bool"
    and rank :: "'s \<Rightarrow> nat"
  assumes not_stuck: "safe s \<Longrightarrow> \<not> goal s \<Longrightarrow> \<exists>t. prog s t"
    and safe_kept: "safe s \<Longrightarrow> \<not> goal s \<Longrightarrow> prog s t \<Longrightarrow> safe t"
    and rank_falls: "safe s \<Longrightarrow> \<not> goal s \<Longrightarrow> prog s t \<Longrightarrow> rank t < rank s"
begin

lemma goal_inevitable: "safe s \<Longrightarrow> inevitably prog goal s"
proof (induction "rank s" arbitrary: s rule: less_induct)
  case less
  show ?case
  proof (cases "goal s")
    case False
    with less.prems obtain t where "prog s t" using not_stuck by blast
    then show ?thesis
      using less False by (auto intro: inevitably_next safe_kept rank_falls)
  qed (rule inevitably_now)
qed

end

end
