(* ===== verification/Qr_Payment.thy ===== *)
theory Qr_Payment
  imports Js_Number Transitions
begin

section \<open>Payment by QR code: sessions and status polling\<close>

text \<open>
  The session of a QR-code payment (\<open>features/wallet/qr-payment-session.ts\<close>) and the hook
  that polls its status (\<open>features/wallet/hooks/use-qr-payment-status-polling.ts\<close>).

  The hook's React state and its refs are one record \<open>qr_state\<close>.  An asynchronous
  \<open>refreshStatus\<close> is cut at its awaits: \<open>refreshStatus\<close> is the code up to the first await,
  the calls that wait are kept in \<open>requests\<close> with the values their closure captured, and
  \<open>poll_settled\<close>, \<open>success_settled\<close> and \<open>resumed\<close> are the code between the following awaits.
  What the backend (\<open>pollStatus\<close>) and the caller's \<open>onSuccess\<close> answer are inputs of these
  steps.  A call may end as undefined, null or a status: \<open>refresh_result\<close>.  \<open>notified\<close> logs
  the calls of \<open>notifySuccess\<close>, newest first.
\<close>

subsection \<open>Sessions\<close>

datatype QrPaymentStatus = Pending | Success | Failed | Expired

datatype qr_purpose = Topup | Vvip_Activation

record QrPaymentResult =
  trade_no :: "string option"
  order_id :: "string option"
  code_url :: string
  expires_at :: "(jsnum + string) option"
  purpose :: qr_purpose
  amount :: "jsnum option"

record QrPaymentSession =
  sessionId :: nat
  sopen :: bool
  tradeNo :: string

record QrPaymentSessionRequest =
  rq_sessionId :: nat
  rq_tradeNo :: string

definition initialQrPaymentSession :: QrPaymentSession where
  "initialQrPaymentSession = \<lparr>sessionId = 0, sopen = False, tradeNo = []\<rparr>"

definition getQrPaymentPrimaryTradeNo :: "QrPaymentResult option \<Rightarrow> string" where
  "getQrPaymentPrimaryTradeNo payment =
     trim (case payment of None \<Rightarrow> [] | Some p \<Rightarrow> (case trade_no p of None \<Rightarrow> [] | Some s \<Rightarrow> s))"

definition getQrPaymentTradeNo :: "QrPaymentResult option \<Rightarrow> string" where
  "getQrPaymentTradeNo payment =
     (if getQrPaymentPrimaryTradeNo payment \<noteq> [] then getQrPaymentPrimaryTradeNo payment
      else trim (case payment of None \<Rightarrow> [] | Some p \<Rightarrow> (case order_id p of None \<Rightarrow> [] | Some s \<Rightarrow> s)))"

definition createQrPaymentSession :: "nat \<Rightarrow> QrPaymentResult option \<Rightarrow> QrPaymentSession" where
  "createQrPaymentSession previousSessionId payment =
     \<lparr>sessionId = previousSessionId + 1, sopen = True, tradeNo = getQrPaymentTradeNo payment\<rparr>"

definition closeQrPaymentSession :: "QrPaymentSession \<Rightarrow> QrPaymentSession" where
  "closeQrPaymentSession session = \<lparr>sessionId = sessionId session + 1, sopen = False, tradeNo = []\<rparr>"

definition isCurrentQrPaymentSession :: "QrPaymentSession \<Rightarrow> QrPaymentSessionRequest \<Rightarrow> bool" where
  "isCurrentQrPaymentSession session request =
     (sopen session \<and> rq_tradeNo request \<noteq> [] \<and> sessionId session = rq_sessionId request \<and>
      tradeNo session = rq_tradeNo request)"

text \<open>
  \<open>handleQrPaymentSuccessOnce\<close> up to its await: the value it returns at once, or None when it
  calls \<open>onSuccess\<close> and waits.
\<close>

definition handle_once_begin :: "string \<Rightarrow> string option \<Rightarrow> bool option" where
  "handle_once_begin tn handledRef =
     (if tn = [] then Some False else if handledRef = Some tn then Some True else None)"

text \<open>
  The rest of it, on what \<open>onSuccess\<close> returned (None is undefined): the value returned, the
  new content of the ref and whether \<open>notifySuccess\<close> is called.
\<close>

definition handle_once_resume :: "string \<Rightarrow> string option \<Rightarrow> bool option \<Rightarrow> bool \<times> string option \<times> bool" where
  "handle_once_resume tn handledRef successResult =
     (if successResult = Some False then (False, handledRef, False) else (True, Some tn, True))"

text \<open>\<open>resolveQrPaymentPolledStatus\<close> after \<open>handleSuccess\<close> has returned.\<close>

definition resolve_handled :: "bool \<Rightarrow> QrPaymentStatus" where
  "resolve_handled handled = (if handled then Success else Pending)"

subsection \<open>The hook's state\<close>

datatype request_phase =
    Polling                       \<comment> \<open>awaits \<open>pollStatus\<close>\<close>
  | Handling                      \<comment> \<open>awaits \<open>onSuccess\<close>\<close>
  | Resolved QrPaymentStatus      \<comment> \<open>\<open>resolveQrPaymentPolledStatus\<close> has fulfilled\<close>
  | Rejected                      \<comment> \<open>\<open>resolveQrPaymentPolledStatus\<close> has rejected\<close>

record poll_request =
  req_id :: nat
  req_session :: QrPaymentSessionRequest
  req_phase :: request_phase

record qr_state =
  status :: QrPaymentStatus
  refreshing :: bool
  pollingInFlight :: bool
  pollingRequestId :: nat
  handledTradeNo :: "string option"
  session :: QrPaymentSession
  requests :: "poll_request list"
  notified :: "QrPaymentSessionRequest list"

datatype refresh_result = Undefined | Null | Status QrPaymentStatus

definition qr_init :: qr_state where
  "qr_init = \<lparr>status = Pending, refreshing = False, pollingInFlight = False, pollingRequestId = 0,
     handledTradeNo = None, session = initialQrPaymentSession, requests = [], notified = []\<rparr>"

subsection \<open>The hook's operations\<close>

text \<open>
  \<open>tn\<close> is the trade number \<open>getPollingTradeNo\<close> reads off the payment, None for a payment
  that is null.
\<close>

definition activatePayment :: "string \<Rightarrow> qr_state \<Rightarrow> qr_state" where
  "activatePayment tn s = s\<lparr>
     session := \<lparr>sessionId = sessionId (session s) + 1, sopen = True, tradeNo = tn\<rparr>,
     pollingRequestId := pollingRequestId s + 1,
     pollingInFlight := False,
     handledTradeNo := None,
     status := Pending,
     refreshing := False\<rparr>"

definition closeSession :: "qr_state \<Rightarrow> qr_state" where
  "closeSession s = s\<lparr>
     session := closeQrPaymentSession (session s),
     pollingRequestId := pollingRequestId s + 1,
     handledTradeNo := None,
     pollingInFlight := False,
     refreshing := False,
     status := Pending\<rparr>"

definition session_effect :: "bool \<Rightarrow> bool \<Rightarrow> string option \<Rightarrow> qr_state \<Rightarrow> qr_state" where
  "session_effect isOpen enabled tn s =
     (if \<not> isOpen then (if sopen (session s) then closeSession s else s)
      else case tn of
        None \<Rightarrow> s
      | Some n \<Rightarrow>
          if \<not> enabled \<or> n = [] then s
          else if \<not> sopen (session s) \<or> tradeNo (session s) \<noteq> n then activatePayment n s
          else s)"

datatype refresh_start = Fallback | Skipped | Started

definition refreshStatus :: "bool \<Rightarrow> string option \<Rightarrow> qr_state \<Rightarrow> refresh_start \<times> qr_state" where
  "refreshStatus enabled tn s =
     (case tn of
        None \<Rightarrow> (Fallback, s)
      | Some n \<Rightarrow>
          if \<not> enabled \<or> n = [] then (Fallback, s)
          else if pollingInFlight s then (Skipped, s)
          else let requestSession = \<lparr>rq_sessionId = sessionId (session s), rq_tradeNo = n\<rparr> in
            if \<not> isCurrentQrPaymentSession (session s) requestSession then (Skipped, s)
            else let requestId = pollingRequestId s + 1 in
              (Started, s\<lparr>
                 pollingRequestId := requestId,
                 pollingInFlight := True,
                 refreshing := True,
                 requests := requests s @ [\<lparr>req_id = requestId, req_session = requestSession, req_phase = Polling\<rparr>]\<rparr>))"

text \<open>The \<open>finally\<close> block; the call leaves the list of waiting ones.\<close>

definition refresh_finally :: "poll_request \<Rightarrow> qr_state \<Rightarrow> qr_state" where
  "refresh_finally r s0 =
     (let s = s0\<lparr>requests := filter (\<lambda>q. req_id q \<noteq> req_id r) (requests s0)\<rparr> in
      if pollingRequestId s = req_id r then
        s\<lparr>pollingInFlight := False,
          refreshing := (if isCurrentQrPaymentSession (session s) (req_session r) then False else refreshing s)\<rparr>
      else s)"

definition refresh_catch :: "poll_request \<Rightarrow> qr_state \<Rightarrow> refresh_result option \<times> qr_state" where
  "refresh_catch r s =
     (if \<not> isCurrentQrPaymentSession (session s) (req_session r) then (Some Undefined, refresh_finally r s)
      else (Some Null, refresh_finally r s))"

definition set_phase :: "poll_request \<Rightarrow> request_phase \<Rightarrow> qr_state \<Rightarrow> qr_state" where
  "set_phase r p s = s\<lparr>requests := map (\<lambda>q. if req_id q = req_id r then q\<lparr>req_phase := p\<rparr> else q) (requests s)\<rparr>"

text \<open>
  The promise of \<open>pollStatus\<close> settles: None when it rejects, else the status or null.  The
  first component is the value \<open>refreshStatus\<close> returns, None while it still waits.
\<close>

definition poll_settled ::
  "poll_request \<Rightarrow> QrPaymentStatus option option \<Rightarrow> qr_state \<Rightarrow> refresh_result option \<times> qr_state" where
  "poll_settled r answer s =
     (case answer of
        None \<Rightarrow> refresh_catch r s
      | Some nextStatus \<Rightarrow>
          if \<not> isCurrentQrPaymentSession (session s) (req_session r) then (Some Undefined, refresh_finally r s)
          else case nextStatus of
            None \<Rightarrow> (Some Null, refresh_finally r s)
          | Some st \<Rightarrow>
              if st \<noteq> Success then (None, set_phase r (Resolved st) s)
              else case handle_once_begin (rq_tradeNo (req_session r)) (handledTradeNo s) of
                Some b \<Rightarrow> (None, set_phase r (Resolved (resolve_handled b)) s)
              | None \<Rightarrow> (None, set_phase r Handling s))"

text \<open>\<open>onSuccess\<close> settles: None when it throws or rejects.\<close>

definition success_settled :: "poll_request \<Rightarrow> bool option option \<Rightarrow> qr_state \<Rightarrow> qr_state" where
  "success_settled r answer s =
     (case answer of
        None \<Rightarrow> set_phase r Rejected s
      | Some successResult \<Rightarrow>
          let (b, ref, notify) =
            handle_once_resume (rq_tradeNo (req_session r)) (handledTradeNo s) successResult in
          set_phase r (Resolved (resolve_handled b))
            (s\<lparr>handledTradeNo := ref,
               notified := (if notify then req_session r # notified s else notified s)\<rparr>))"

text \<open>\<open>refreshStatus\<close> continues behind \<open>await resolveQrPaymentPolledStatus\<close>.\<close>

definition resumed :: "poll_request \<Rightarrow> qr_state \<Rightarrow> refresh_result option \<times> qr_state" where
  "resumed r s =
     (case req_phase r of
        Resolved st \<Rightarrow> (Some (Status st), refresh_finally r (s\<lparr>status := st\<rparr>))
      | Rejected \<Rightarrow> refresh_catch r s
      | _ \<Rightarrow> (None, s))"

text \<open>\<open>refresh\<close> runs \<open>onFallbackRefresh\<close> behind \<open>refreshStatus\<close> when that gave null.\<close>

definition refresh_falls_back :: "refresh_result \<Rightarrow> bool" where
  "refresh_falls_back r = (r = Null)"

text \<open>Whether the polling effect has its timer running.\<close>

definition polling_active :: "bool \<Rightarrow> bool \<Rightarrow> string option \<Rightarrow> qr_state \<Rightarrow> bool" where
  "polling_active isOpen enabled tn s =
     (isOpen \<and> enabled \<and> status s = Pending \<and> (case tn of None \<Rightarrow> False | Some n \<Rightarrow> n \<noteq> []))"

subsection \<open>The machine\<close>

text \<open>
  The component's events.  \<open>Render\<close> is a render with the given \<open>open\<close>, \<open>enabled\<close> and payment,
  which runs the session effect; \<open>Tick\<close> is a call of \<open>refreshStatus\<close>, by the timer, by the
  polling effect or by the refresh button, with the \<open>enabled\<close> and the payment its closure
  captured.  The three settling events name the waiting call by its request id.
\<close>

datatype qr_event =
    Activate string
  | Close
  | Render bool bool "string option"
  | Tick bool "string option"
  | Poll_Settles nat "QrPaymentStatus option option"
  | Success_Settles nat "bool option option"
  | Resume nat

definition request :: "nat \<Rightarrow> qr_state \<Rightarrow> poll_request option" where
  "request i s = find (\<lambda>r. req_id r = i) (requests s)"

fun qr_exec :: "qr_event \<Rightarrow> qr_state \<Rightarrow> qr_state option" where
  "qr_exec (Activate tn) s = Some (activatePayment tn s)"
| "qr_exec Close s = Some (closeSession s)"
| "qr_exec (Render isOpen enabled tn) s = Some (session_effect isOpen enabled tn s)"
| "qr_exec (Tick enabled tn) s = Some (snd (refreshStatus enabled tn s))"
| "qr_exec (Poll_Settles i answer) s =
     (case request i s of
        Some r \<Rightarrow> if req_phase r = Polling then Some (snd (poll_settled r answer s)) else None
      | None \<Rightarrow> None)"
| "qr_exec (Success_Settles i answer) s =
     (case request i s of
        Some r \<Rightarrow> if req_phase r = Handling then Some (success_settled r answer s) else None
      | None \<Rightarrow> None)"
| "qr_exec (Resume i) s =
     (case request i s of
        Some r \<Rightarrow> if req_phase r \<noteq> Polling \<and> req_phase r \<noteq> Handling then Some (snd (resumed r s)) else None
      | None \<Rightarrow> None)"

inductive qr_step :: "qr_state \<Rightarrow> qr_event \<Rightarrow> qr_state \<Rightarrow> bool" where
  qr_activate: "qr_step s (Activate tn) (activatePayment tn s)"
| qr_close: "qr_step s Close (closeSession s)"
| qr_render: "qr_step s (Render isOpen enabled tn) (session_effect isOpen enabled tn s)"
| qr_tick: "qr_step s (Tick enabled tn) (snd (refreshStatus enabled tn s))"
| qr_poll: "r \<in> set (requests s) \<Longrightarrow> req_phase r = Polling \<Longrightarrow>
    qr_step s (Poll_Settles (req_id r) answer) (snd (poll_settled r answer s))"
| qr_success: "r \<in> set (requests s) \<Longrightarrow> req_phase r = Handling \<Longrightarrow>
    qr_step s (Success_Settles (req_id r) answer) (success_settled r answer s)"
| qr_resolved: "r \<in> set (requests s) \<Longrightarrow> req_phase r = Resolved st \<Longrightarrow>
    qr_step s (Resume (req_id r)) (snd (resumed r s))"
| qr_rejected: "r \<in> set (requests s) \<Longrightarrow> req_phase r = Rejected \<Longrightarrow>
    qr_step s (Resume (req_id r)) (snd (resumed r s))"

inductive_cases qr_stepE: "qr_step s e t"


subsection \<open>The invariant of the request bookkeeping\<close>

text \<open>A waiting call that belongs to the session on screen.\<close>

definition own :: "qr_state \<Rightarrow> poll_request \<Rightarrow> bool" where
  "own s r = isCurrentQrPaymentSession (session s) (req_session r)"

definition req_sid :: "poll_request \<Rightarrow> nat" where
  "req_sid r = rq_sessionId (req_session r)"

definition bound_request :: "qr_state \<Rightarrow> poll_request \<Rightarrow> bool" where
  "bound_request s r =
     (req_id r \<le> pollingRequestId s \<and> req_sid r \<le> sessionId (session s) \<and>
      rq_tradeNo (req_session r) \<noteq> [] \<and>
      (req_sid r = sessionId (session s) \<longrightarrow> req_id r = pollingRequestId s \<and> own s r))"

definition qr_inv :: "qr_state \<Rightarrow> bool" where
  "qr_inv s =
     (distinct (map req_id (requests s)) \<and> distinct (map req_sid (requests s)) \<and>
      list_all (bound_request s) (requests s) \<and>
      pollingInFlight s = list_ex (own s) (requests s) \<and>
      refreshing s = pollingInFlight s)"

lemma own_sid: "own s r \<Longrightarrow> req_sid r = sessionId (session s)"
  by (simp add: own_def req_sid_def isCurrentQrPaymentSession_def)

lemma inv_own_id:
  assumes "qr_inv s" and "r \<in> set (requests s)"
  shows "own s r = (req_id r = pollingRequestId s \<and> pollingInFlight s)"
proof
  assume o: "own s r"
  with assms show "req_id r = pollingRequestId s \<and> pollingInFlight s"
    by (auto simp: qr_inv_def list_all_iff list_ex_iff bound_request_def own_sid)
next
  assume a: "req_id r = pollingRequestId s \<and> pollingInFlight s"
  with assms obtain q where q: "q \<in> set (requests s)" "own s q"
    by (auto simp: qr_inv_def list_ex_iff)
  with assms have "req_id q = pollingRequestId s"
    by (auto simp: qr_inv_def list_all_iff bound_request_def own_sid)
  with a q assms have "q = r" by (auto simp: qr_inv_def distinct_map inj_on_def)
  with q show "own s r" by simp
qed

lemma inv_fresh_session:
  assumes "qr_inv s" and "requests t = requests s" and "\<not> pollingInFlight t" and "\<not> refreshing t"
    and "sessionId (session t) = Suc (sessionId (session s))" and "pollingRequestId s \<le> pollingRequestId t"
  shows "qr_inv t"
proof -
  have lt: "req_sid r < sessionId (session t) \<and> req_id r \<le> pollingRequestId t \<and> rq_tradeNo (req_session r) \<noteq> []"
    if "r \<in> set (requests s)" for r
    using assms that by (fastforce simp: qr_inv_def list_all_iff bound_request_def)
  then have "\<not> own t r" if "r \<in> set (requests s)" for r
    using that own_sid [of t r] by force
  with lt assms show ?thesis
    by (fastforce simp: qr_inv_def list_all_iff list_ex_iff bound_request_def)
qed

lemma inv_activate: "qr_inv s \<Longrightarrow> qr_inv (activatePayment tn s)"
  by (rule inv_fresh_session) (auto simp: activatePayment_def)

lemma inv_close: "qr_inv s \<Longrightarrow> qr_inv (closeSession s)"
  by (rule inv_fresh_session) (auto simp: closeSession_def closeQrPaymentSession_def)

lemma inv_effect: "qr_inv s \<Longrightarrow> qr_inv (session_effect isOpen enabled tn s)"
  by (auto simp: session_effect_def inv_activate inv_close split: option.splits)

lemma own_update [simp]: "own (s\<lparr>requests := x\<rparr>) = own s" "own (s\<lparr>notified := y\<rparr>) = own s"
  "own (s\<lparr>handledTradeNo := h\<rparr>) = own s" "own (s\<lparr>status := st\<rparr>) = own s"
  "own (s\<lparr>pollingInFlight := b\<rparr>) = own s" "own (s\<lparr>refreshing := b\<rparr>) = own s"
  "own (s\<lparr>pollingRequestId := n\<rparr>) = own s" "own s (r\<lparr>req_phase := p\<rparr>) = own s r"
  by (simp_all add: own_def fun_eq_iff)

lemma sid_update [simp]: "req_sid (r\<lparr>req_phase := p\<rparr>) = req_sid r"
  by (simp add: req_sid_def)

lemma bound_update [simp]: "bound_request s (r\<lparr>req_phase := p\<rparr>) = bound_request s r"
  "bound_request (s\<lparr>requests := x\<rparr>) = bound_request s"
  by (simp_all add: bound_request_def fun_eq_iff)

lemma inv_fields [simp]:
  "qr_inv (s\<lparr>handledTradeNo := h, notified := y\<rparr>) = qr_inv s"
  "qr_inv (s\<lparr>status := st\<rparr>) = qr_inv s"
  by (simp_all add: qr_inv_def bound_request_def cong: list.pred_cong list_ex_cong)


lemma inv_refreshStatus:
  assumes "qr_inv s"
  shows "qr_inv (snd (refreshStatus enabled tn s))"
proof -
  have "qr_inv (s\<lparr>pollingRequestId := Suc (pollingRequestId s), pollingInFlight := True, refreshing := True,
      requests := requests s @ [\<lparr>req_id = Suc (pollingRequestId s),
        req_session = \<lparr>rq_sessionId = sessionId (session s), rq_tradeNo = n\<rparr>, req_phase = Polling\<rparr>]\<rparr>)"
    if "\<not> pollingInFlight s"
      and "isCurrentQrPaymentSession (session s) \<lparr>rq_sessionId = sessionId (session s), rq_tradeNo = n\<rparr>" for n
  proof -
    have "req_sid r < sessionId (session s) \<and> req_id r \<le> pollingRequestId s \<and> \<not> own s r"
      if "r \<in> set (requests s)" for r
      using assms that \<open>\<not> pollingInFlight s\<close>
      by (fastforce simp: qr_inv_def list_all_iff list_ex_iff bound_request_def)
    then show ?thesis
      using assms that
      by (fastforce simp: qr_inv_def list_all_iff bound_request_def req_sid_def own_def
          isCurrentQrPaymentSession_def)
  qed
  then show ?thesis
    using assms by (auto simp: refreshStatus_def Let_def split: option.splits)
qed

lemma inv_set_phase:
  assumes "qr_inv s"
  shows "qr_inv (set_phase r p s)"
proof -
  let ?f = "\<lambda>q :: poll_request. if req_id q = req_id r then q\<lparr>req_phase := p\<rparr> else q"
  have "req_id \<circ> ?f = req_id" "req_sid \<circ> ?f = req_sid" by (simp_all add: fun_eq_iff)
  moreover have "list_ex (own s) (map ?f qs) = list_ex (own s) qs" for qs
    by (induction qs) auto
  moreover have "list_all (bound_request s) (map ?f qs) = list_all (bound_request s) qs" for qs
    by (induction qs) auto
  ultimately show ?thesis
    using assms by (simp add: set_phase_def qr_inv_def)
qed

lemma inv_finally:
  assumes "qr_inv s" and "r \<in> set (requests s)"
  shows "qr_inv (refresh_finally r s)"
proof (cases "own s r")
  case True
  with assms have "req_id r = pollingRequestId s" by (simp add: inv_own_id)
  moreover have "\<not> own s q" if "q \<in> set (requests s)" "req_id q \<noteq> req_id r" for q
    using assms that True by (simp add: inv_own_id)
  ultimately show ?thesis
    using assms True
    by (auto simp: refresh_finally_def Let_def qr_inv_def bound_request_def list_all_iff list_ex_iff
        own_def [symmetric] distinct_map_filter)
next
  case False
  have "list_ex (own s) (filter (\<lambda>q. req_id q \<noteq> req_id r) (requests s)) = list_ex (own s) (requests s)"
    using assms False by (auto simp: list_ex_iff inv_own_id)
  moreover have "\<not> pollingInFlight s" if "req_id r = pollingRequestId s"
    using that False assms by (simp add: inv_own_id)
  ultimately show ?thesis
    using assms False
    by (auto simp: refresh_finally_def Let_def qr_inv_def bound_request_def list_all_iff
        own_def [symmetric] distinct_map_filter)
qed


lemma inv_step:
  assumes "qr_inv s" and "qr_step s e t"
  shows "qr_inv t"
  using assms(2,1)
proof cases
  case (qr_poll r answer)
  then show ?thesis
    using assms(1)
    by (auto simp: poll_settled_def refresh_catch_def inv_finally inv_set_phase split: option.splits)
next
  case (qr_success r answer)
  then show ?thesis
    using assms(1) by (auto simp: success_settled_def inv_set_phase split: option.splits prod.splits)
next
  case (qr_resolved r st)
  then show ?thesis
    using assms(1) inv_finally [of "s\<lparr>status := st\<rparr>" r] by (simp add: resumed_def)
next
  case (qr_rejected r)
  then show ?thesis
    using assms(1) by (simp add: resumed_def refresh_catch_def inv_finally)
qed (simp_all add: inv_activate inv_close inv_effect inv_refreshStatus)

interpretation qr: inductive_invariant qr_step qr_init qr_inv
proof
  show "qr_inv qr_init" by (simp add: qr_init_def qr_inv_def)
qed (rule inv_step)


subsection \<open>Handling a payment once\<close>

text \<open>
  No call is behind its poll while the session on screen is not its own: nobody closed or
  replaced the session between a poll's answer and the end of its call.
\<close>

definition calm :: "qr_state \<Rightarrow> bool" where
  "calm s = list_all (\<lambda>r. req_phase r \<noteq> Polling \<longrightarrow> own s r) (requests s)"

definition qr_calm_step :: "qr_state \<Rightarrow> qr_event \<Rightarrow> qr_state \<Rightarrow> bool" where
  "qr_calm_step s e t = (qr_step s e t \<and> calm t)"

definition shown :: "qr_state \<Rightarrow> QrPaymentSessionRequest" where
  "shown s = \<lparr>rq_sessionId = sessionId (session s), rq_tradeNo = tradeNo (session s)\<rparr>"

definition phase_ok :: "qr_state \<Rightarrow> poll_request \<Rightarrow> bool" where
  "phase_ok s r = ((req_phase r = Handling \<longrightarrow> handledTradeNo s = None) \<and>
                   (req_phase r = Resolved Success \<longrightarrow> handledTradeNo s \<noteq> None))"

definition once :: "qr_state \<Rightarrow> bool" where
  "once s =
     ((handledTradeNo s \<noteq> None \<longrightarrow> handledTradeNo s = Some (tradeNo (session s)) \<and> shown s \<in> set (notified s)) \<and>
      (handledTradeNo s = None \<longrightarrow> sessionId (session s) \<notin> rq_sessionId ` set (notified s)) \<and>
      distinct (map rq_sessionId (notified s)) \<and>
      list_all (\<lambda>n. rq_sessionId n \<le> sessionId (session s)) (notified s) \<and>
      list_all (phase_ok s) (requests s) \<and>
      (status s = Success \<longrightarrow> handledTradeNo s \<noteq> None))"

definition calm_inv :: "qr_state \<Rightarrow> bool" where
  "calm_inv s = (qr_inv s \<and> calm s \<and> once s)"

lemma phase_ok_status [simp]: "phase_ok (s\<lparr>status := st\<rparr>) = phase_ok s"
  by (simp add: fun_eq_iff phase_ok_def)

lemma own_shown: "own s r \<Longrightarrow> req_session r = shown s"
  by (simp add: own_def shown_def isCurrentQrPaymentSession_def)

lemma once_fresh:
  assumes "qr_inv s" and "once s" and "calm t" and "requests t = requests s" and "notified t = notified s"
    and "sessionId (session t) = Suc (sessionId (session s))"
    and "handledTradeNo t = None" and "status t = Pending"
  shows "once t"
proof -
  have "req_phase r = Polling" if r: "r \<in> set (requests s)" for r
  proof (rule ccontr)
    assume "req_phase r \<noteq> Polling"
    with r assms(3,4) have "own t r" by (simp add: calm_def list_all_iff)
    then have "req_sid r = Suc (sessionId (session s))" using assms(6) own_sid by simp
    moreover have "req_sid r \<le> sessionId (session s)"
      using r assms(1) by (simp add: qr_inv_def list_all_iff bound_request_def)
    ultimately show False by simp
  qed
  then have "list_all (phase_ok t) (requests t)"
    using assms(4) by (simp add: list_all_iff phase_ok_def)
  moreover have lt: "rq_sessionId n < sessionId (session t)" if "n \<in> set (notified t)" for n
    using assms(2,5,6) that by (simp add: once_def list_all_iff less_Suc_eq_le)
  then have "sessionId (session t) \<notin> rq_sessionId ` set (notified t)"
    by (metis imageE less_irrefl)
  moreover have "list_all (\<lambda>n. rq_sessionId n \<le> sessionId (session t)) (notified t)"
    using lt by (simp add: list_all_iff less_imp_le)
  moreover have "distinct (map rq_sessionId (notified t))"
    using assms(2,5) by (simp add: once_def)
  ultimately show ?thesis
    using assms(7,8) by (simp add: once_def)
qed

lemma once_requests:
  assumes "once s" and "list_all (phase_ok s) (requests t)" and "session t = session s"
    and "handledTradeNo t = handledTradeNo s" and "notified t = notified s" and "status t = status s"
  shows "once t"
proof -
  have "phase_ok t = phase_ok s" "shown t = shown s"
    using assms by (simp_all add: fun_eq_iff phase_ok_def shown_def)
  with assms show ?thesis by (simp add: once_def)
qed

lemma once_phases: "once s \<Longrightarrow> r \<in> set (requests s) \<Longrightarrow> phase_ok s r"
  by (simp add: once_def list_all_iff)

lemma once_refreshStatus:
  assumes "once s"
  shows "once (snd (refreshStatus enabled tn s))"
proof (rule once_requests [OF assms])
  show "list_all (phase_ok s) (requests (snd (refreshStatus enabled tn s)))"
    using assms by (simp add: refreshStatus_def Let_def once_def phase_ok_def split: option.split)
qed (simp_all add: refreshStatus_def Let_def split: option.split)

lemma once_set_phase:
  assumes "once s" and "p = Handling \<Longrightarrow> handledTradeNo s = None"
    and "p = Resolved Success \<Longrightarrow> handledTradeNo s \<noteq> None"
  shows "once (set_phase r p s)"
proof (rule once_requests [OF assms(1)])
  show "list_all (phase_ok s) (requests (set_phase r p s))"
    using once_phases [OF assms(1)] assms(2,3)
    by (simp add: set_phase_def list.pred_map list_all_iff [of "phase_ok s \<circ> _"]) (simp add: phase_ok_def)
qed (simp_all add: set_phase_def)

lemma once_finally:
  assumes "once s"
  shows "once (refresh_finally r s)"
proof (rule once_requests [OF assms])
  show "list_all (phase_ok s) (requests (refresh_finally r s))"
    using once_phases [OF assms] by (simp add: refresh_finally_def Let_def list_all_iff)
qed (simp_all add: refresh_finally_def Let_def)


lemma once_success:
  assumes "once s" and "calm s" and "qr_inv s" and "r \<in> set (requests s)" and "req_phase r = Handling"
  shows "once (success_settled r answer s)"
proof -
  have own: "own s r" using assms(2,4,5) by (simp add: calm_def list_all_iff)
  have none: "handledTradeNo s = None" using once_phases [OF assms(1,4)] assms(5) by (simp add: phase_ok_def)
  let ?s = "s\<lparr>handledTradeNo := Some (rq_tradeNo (req_session r)), notified := req_session r # notified s\<rparr>"
  have only: "q = r" if "q \<in> set (requests s)" "req_phase q \<noteq> Polling" for q
  proof -
    have "own s q" using that assms(2) by (simp add: calm_def list_all_iff)
    with own have "req_id q = req_id r" using that(1) assms(3,4) by (simp add: inv_own_id)
    then show ?thesis using that(1) assms(3,4) by (auto simp: qr_inv_def distinct_map inj_on_def)
  qed
  have "once (set_phase r (Resolved Success) ?s)"
  proof -
    have "phase_ok (set_phase r (Resolved Success) ?s) q" if "q \<in> set (requests (set_phase r (Resolved Success) ?s))" for q
    proof -
      have "req_phase q \<noteq> Handling"
        using that only by (auto simp: set_phase_def split: if_splits)
      then show ?thesis by (simp add: phase_ok_def set_phase_def)
    qed
    then show ?thesis
      using assms(1) none own_shown [OF own]
      by (simp add: once_def list_all_iff set_phase_def shown_def)
  qed
  moreover have "once (set_phase r (Resolved Pending) s)" "once (set_phase r Rejected s)"
    by (rule once_set_phase [OF assms(1)]; simp)+
  moreover have same: "s\<lparr>handledTradeNo := None\<rparr> = s" using none by simp
  ultimately show ?thesis
    by (simp add: same success_settled_def handle_once_resume_def resolve_handled_def none
        split: option.split)
qed

lemma once_step:
  assumes "calm_inv s" and "qr_calm_step s e t"
  shows "calm_inv t"
proof -
  have s: "qr_inv s" "calm s" "once s" and t: "calm t" "qr_step s e t"
    using assms by (simp_all add: calm_inv_def qr_calm_step_def)
  have act: "once (activatePayment tn s)" if "calm (activatePayment tn s)" for tn
    by (rule once_fresh [OF s(1,3) that]) (simp_all add: activatePayment_def)
  have cls: "once (closeSession s)" if "calm (closeSession s)"
    by (rule once_fresh [OF s(1,3) that]) (simp_all add: closeSession_def closeQrPaymentSession_def)
  have "once t"
    using t(2)
  proof cases
    case (qr_render isOpen enabled tn)
    then show ?thesis
      using s t(1) act cls by (auto simp: session_effect_def split: option.splits if_splits)
  next
    case (qr_poll r answer)
    have "handle_once_begin (rq_tradeNo (req_session r)) (handledTradeNo s) = Some True" if
      "handle_once_begin (rq_tradeNo (req_session r)) (handledTradeNo s) = Some b" "own s r" for b
      using that by (auto simp: handle_once_begin_def own_def isCurrentQrPaymentSession_def split: if_splits)
    moreover have "handledTradeNo s = None" if
      "handle_once_begin (rq_tradeNo (req_session r)) (handledTradeNo s) = None" "own s r"
      using that s(3) own_shown [OF that(2)]
      by (auto simp: handle_once_begin_def once_def shown_def split: if_splits)
    moreover have "handledTradeNo s \<noteq> None" if
      "handle_once_begin (rq_tradeNo (req_session r)) (handledTradeNo s) = Some True"
      using that by (auto simp: handle_once_begin_def split: if_splits)
    ultimately show ?thesis
      using s qr_poll
      by (auto simp: poll_settled_def refresh_catch_def once_finally own_def [symmetric] resolve_handled_def
          intro!: once_set_phase split: option.split)
  next
    case (qr_resolved r st)
    then have "st = Success \<longrightarrow> handledTradeNo s \<noteq> None"
      using once_phases [OF s(3)] by (simp add: phase_ok_def)
    then have "once (s\<lparr>status := st\<rparr>)"
      using s(3) by (simp add: once_def shown_def)
    then show ?thesis using qr_resolved by (simp add: resumed_def once_finally)
  qed (use s t act cls in \<open>simp_all add: once_refreshStatus once_success resumed_def refresh_catch_def once_finally\<close>)
  then show ?thesis
    using s t inv_step by (simp add: calm_inv_def)
qed

interpretation calm_qr: inductive_invariant qr_calm_step qr_init calm_inv
proof
  show "calm_inv qr_init"
    by (simp add: calm_inv_def qr_init_def qr_inv_def calm_def once_def)
qed (rule once_step)


subsection \<open>Progress\<close>

text \<open>
  The steps of the session on screen when the backend reports the payment as successful but for
  finitely many failures: the timer starts a call when none is in flight, the poll is answered,
  the handler returns, the call resumes.  The second component is the number of failures that are
  left.  A failure is a poll that rejects, gives null or still gives pending, and an \<open>onSuccess\<close>
  that throws or returns false.
\<close>

inductive qr_progress :: "string \<Rightarrow> qr_state \<times> nat \<Rightarrow> qr_state \<times> nat \<Rightarrow> bool" for tn :: string where
  progress_tick: "polling_active True True (Some tn) s \<Longrightarrow> \<not> pollingInFlight s \<Longrightarrow>
    qr_progress tn (s, k) (snd (refreshStatus True (Some tn) s), k)"
| progress_poll: "r \<in> set (requests s) \<Longrightarrow> own s r \<Longrightarrow> req_phase r = Polling \<Longrightarrow>
    qr_progress tn (s, k) (snd (poll_settled r (Some (Some Success)) s), k)"
| progress_poll_fails: "r \<in> set (requests s) \<Longrightarrow> own s r \<Longrightarrow> req_phase r = Polling \<Longrightarrow>
    answer \<in> {None, Some None, Some (Some Pending)} \<Longrightarrow>
    qr_progress tn (s, Suc k) (snd (poll_settled r answer s), k)"
| progress_success: "r \<in> set (requests s) \<Longrightarrow> own s r \<Longrightarrow> req_phase r = Handling \<Longrightarrow> a \<noteq> Some False \<Longrightarrow>
    qr_progress tn (s, k) (success_settled r (Some a) s, k)"
| progress_success_fails: "r \<in> set (requests s) \<Longrightarrow> own s r \<Longrightarrow> req_phase r = Handling \<Longrightarrow>
    b \<in> {None, Some (Some False)} \<Longrightarrow>
    qr_progress tn (s, Suc k) (success_settled r b s, k)"
| progress_resume: "r \<in> set (requests s) \<Longrightarrow> own s r \<Longrightarrow> req_phase r \<noteq> Polling \<Longrightarrow> req_phase r \<noteq> Handling \<Longrightarrow>
    qr_progress tn (s, k) (snd (resumed r s), k)"

fun phase_rank :: "request_phase \<Rightarrow> nat" where
  "phase_rank Polling = 3"
| "phase_rank Handling = 2"
| "phase_rank (Resolved Success) = 1"
| "phase_rank _ = 5"

definition qr_rank :: "qr_state \<Rightarrow> nat" where
  "qr_rank s =
     (if status s = Success then 0
      else case find (own s) (requests s) of None \<Rightarrow> 4 | Some r \<Rightarrow> phase_rank (req_phase r))"

text \<open>An open session for a trade number that has not been reported as failed or expired.\<close>

definition payable :: "string \<Rightarrow> qr_state \<Rightarrow> bool" where
  "payable tn s =
     (sopen (session s) \<and> tradeNo (session s) = tn \<and> tn \<noteq> [] \<and>
      (status s = Pending \<or> status s = Success) \<and>
      (case find (own s) (requests s) of
         None \<Rightarrow> True
       | Some r \<Rightarrow> req_phase r \<noteq> Resolved Failed \<and> req_phase r \<noteq> Resolved Expired))"

definition tries_rank :: "qr_state \<times> nat \<Rightarrow> nat" where
  "tries_rank p = 6 * snd p + qr_rank (fst p)"

lemma progress_step:
  assumes "qr_progress tn p q"
  shows "\<exists>e. qr_step (fst p) e (fst q)"
  using assms
proof cases
  case (progress_resume r s k)
  then show ?thesis
    using qr_resolved [of r s] qr_rejected [of r s] by (cases "req_phase r") auto
qed (auto intro: qr_tick qr_poll qr_success)

lemma qr_rank_bound: "qr_rank s \<le> 5"
proof -
  have "phase_rank p \<le> 5" for p by (cases p rule: phase_rank.cases) simp_all
  then show ?thesis by (simp add: qr_rank_def split: option.split)
qed

lemma find_own:
  assumes "qr_inv s" and "r \<in> set (requests s)" and "own s r"
  shows "find (own s) (requests s) = Some r"
proof -
  from assms obtain q where q: "find (own s) (requests s) = Some q"
    by (cases "find (own s) (requests s)") (auto simp: find_None_iff)
  then have "q \<in> set (requests s)" "own s q" by (auto simp: find_Some_iff)
  with assms have "q = r" by (auto simp: inv_own_id qr_inv_def distinct_map inj_on_def)
  with q show ?thesis by simp
qed

lemma find_none: "qr_inv s \<Longrightarrow> \<not> pollingInFlight s \<Longrightarrow> find (own s) (requests s) = None"
  by (auto simp: find_None_iff qr_inv_def list_ex_iff)

lemma find_set_phase:
  assumes "qr_inv s" and "r \<in> set (requests s)" and "own s r" and "session t = session s" and "requests t = requests s"
  shows "find (own (set_phase r p t)) (requests (set_phase r p t)) = Some (r\<lparr>req_phase := p\<rparr>)"
proof -
  have "qr_inv (set_phase r p s)" using assms(1) by (rule inv_set_phase)
  moreover have "r\<lparr>req_phase := p\<rparr> \<in> set (requests (set_phase r p s))"
    using assms(2) by (force simp: set_phase_def)
  moreover have "own (set_phase r p s) (r\<lparr>req_phase := p\<rparr>)" using assms(3) by (simp add: set_phase_def)
  ultimately have "find (own (set_phase r p s)) (requests (set_phase r p s)) = Some (r\<lparr>req_phase := p\<rparr>)"
    by (rule find_own)
  moreover have "own (set_phase r p s) = own (set_phase r p t)" "requests (set_phase r p s) = requests (set_phase r p t)"
    using assms(4,5) by (simp_all add: set_phase_def own_def fun_eq_iff)
  ultimately show ?thesis by simp
qed


lemma find_finally:
  assumes "qr_inv s" and "r \<in> set (requests s)" and "own s r"
  shows "find (own (refresh_finally r s)) (requests (refresh_finally r s)) = None"
proof (rule find_none [OF inv_finally [OF assms(1,2)]])
  show "\<not> pollingInFlight (refresh_finally r s)"
    using assms by (simp add: inv_own_id refresh_finally_def Let_def)
qed

lemma finally_fields [simp]: "status (refresh_finally r s) = status s" "session (refresh_finally r s) = session s"
  by (simp_all add: refresh_finally_def Let_def)

lemma set_phase_fields [simp]: "status (set_phase r p s) = status s" "session (set_phase r p s) = session s"
  by (simp_all add: set_phase_def)

lemma progress_tick_ok:
  assumes "qr_inv s" and "payable tn s" and "status s = Pending" and "\<not> pollingInFlight s"
  shows "payable tn (snd (refreshStatus True (Some tn) s)) \<and> qr_rank (snd (refreshStatus True (Some tn) s)) < qr_rank s"
proof -
  have "find (own s) (requests s) = None" using assms by (simp add: find_none)
  with assms show ?thesis
    by (auto simp: refreshStatus_def Let_def payable_def qr_rank_def isCurrentQrPaymentSession_def own_def
        find_append)
qed

lemma progress_phase_ok:
  assumes "qr_inv s" and "payable tn s" and "status s = Pending" and "r \<in> set (requests s)" and "own s r"
    and "p \<noteq> Resolved Failed \<and> p \<noteq> Resolved Expired"
    and "session t = session s" and "requests t = requests s" and "status t = status s"
  shows "payable tn (set_phase r p t)"
    "phase_rank p < phase_rank (req_phase r) \<Longrightarrow> qr_rank (set_phase r p t) < qr_rank s"
  using assms find_set_phase [OF assms(1,4,5,7,8), of p] find_own [OF assms(1,4,5)]
  by (simp_all add: payable_def qr_rank_def)

lemma progress_finally_ok:
  assumes "qr_inv s" and "payable tn s" and "status s = Pending" and "r \<in> set (requests s)" and "own s r"
    and "req_phase r = Rejected \<or> req_phase r = Resolved st"
  shows "payable tn (snd (resumed r s)) \<and> qr_rank (snd (resumed r s)) < qr_rank s"
proof -
  have "find (own s) (requests s) = Some r" using assms by (simp add: find_own)
  with assms have st: "req_phase r = Resolved st \<Longrightarrow> st = Pending \<or> st = Success"
    by (cases st) (auto simp: payable_def)
  have "find (own (refresh_finally r s)) (requests (refresh_finally r s)) = None"
    "find (own (refresh_finally r (s\<lparr>status := x\<rparr>))) (requests (refresh_finally r (s\<lparr>status := x\<rparr>))) = None" for x
    using assms by (simp_all add: find_finally)
  with assms st \<open>find (own s) (requests s) = Some r\<close> show ?thesis
    by (auto simp: resumed_def refresh_catch_def payable_def qr_rank_def)
qed

lemma poll_success_own:
  assumes "own s r"
  shows "snd (poll_settled r (Some (Some Success)) s) =
    set_phase r (if handledTradeNo s = Some (rq_tradeNo (req_session r)) then Resolved Success else Handling) s"
  using assms
  by (simp add: poll_settled_def own_def handle_once_begin_def resolve_handled_def isCurrentQrPaymentSession_def)

lemma payable_finally:
  assumes "qr_inv s" and "payable tn s" and "r \<in> set (requests s)" and "own s r"
  shows "payable tn (refresh_finally r s)"
  using assms find_finally [OF assms(1,3,4)] by (simp add: payable_def)

lemma failure_payable:
  assumes "qr_inv s" and "payable tn s" and "status s = Pending" and "r \<in> set (requests s)" and "own s r"
  shows "answer \<in> {None, Some None, Some (Some Pending)} \<Longrightarrow> payable tn (snd (poll_settled r answer s))"
    "b \<in> {None, Some (Some False)} \<Longrightarrow> payable tn (success_settled r b s)"
  using payable_finally [OF assms(1,2,4,5)] progress_phase_ok(1) [OF assms, of _ s]
    progress_phase_ok(1) [OF assms, of _ "s\<lparr>handledTradeNo := handledTradeNo s, notified := notified s\<rparr>"] assms(5)
  by (auto simp: poll_settled_def refresh_catch_def own_def success_settled_def handle_once_resume_def resolve_handled_def)

lemma progress_falls:
  assumes "qr_inv s" and "payable tn s" and "status s \<noteq> Success" and "qr_progress tn (s, k) (t, j)"
  shows "payable tn t \<and> tries_rank (t, j) < tries_rank (s, k)"
proof -
  have pend: "status s = Pending" using assms(2,3) by (auto simp: payable_def)
  have fails: "tries_rank (u, i) < tries_rank (s, Suc i)" for u i
    using qr_rank_bound [of u] by (simp add: tries_rank_def)
  show ?thesis
    using assms(4)
  proof cases
    case progress_tick
    then show ?thesis using assms pend progress_tick_ok by (simp add: tries_rank_def)
  next
    case (progress_poll r)
    let ?p = "if handledTradeNo s = Some (rq_tradeNo (req_session r)) then Resolved Success else Handling"
    have "payable tn (set_phase r ?p s) \<and> qr_rank (set_phase r ?p s) < qr_rank s"
      using progress_poll progress_phase_ok [OF assms(1,2) pend, of r ?p s] by simp
    with progress_poll show ?thesis by (simp add: poll_success_own tries_rank_def)
  next
    case (progress_success r a)
    let ?t = "s\<lparr>handledTradeNo := Some (rq_tradeNo (req_session r)), notified := req_session r # notified s\<rparr>"
    have "payable tn (set_phase r (Resolved Success) ?t) \<and> qr_rank (set_phase r (Resolved Success) ?t) < qr_rank s"
      using progress_success progress_phase_ok [OF assms(1,2) pend, of r "Resolved Success" ?t] by simp
    with progress_success show ?thesis
      by (simp add: success_settled_def handle_once_resume_def resolve_handled_def tries_rank_def)
  next
    case (progress_resume r)
    then show ?thesis
      using progress_finally_ok [OF assms(1,2) pend, of r] by (cases "req_phase r") (auto simp: tries_rank_def)
  next
    case (progress_poll_fails r answer)
    then show ?thesis using failure_payable(1) [OF assms(1,2) pend, of r answer] fails by simp
  next
    case (progress_success_fails r b)
    then show ?thesis using failure_payable(2) [OF assms(1,2) pend, of r b] fails by simp
  qed
qed

lemma progress_not_stuck:
  assumes "qr_inv s" and "payable tn s" and "status s \<noteq> Success"
  shows "\<exists>q. qr_progress tn (s, k) q"
proof (cases "pollingInFlight s")
  case True
  then obtain r where r: "r \<in> set (requests s)" "own s r" using assms by (auto simp: qr_inv_def list_ex_iff)
  then show ?thesis
    using progress_poll [OF r] progress_success [OF r, of None] progress_resume [OF r]
    by (cases "req_phase r") blast+
next
  case False
  moreover have "polling_active True True (Some tn) s"
    using assms by (auto simp: payable_def polling_active_def)
  ultimately show ?thesis using progress_tick by blast
qed

interpretation paid: ranked_progress "qr_progress tn" "\<lambda>p. qr_inv (fst p) \<and> payable tn (fst p)"
    "\<lambda>p. status (fst p) = Success" tries_rank
  for tn
proof
  show "\<exists>q. qr_progress tn p q" if "qr_inv (fst p) \<and> payable tn (fst p)" "status (fst p) \<noteq> Success" for p
    using that progress_not_stuck by (metis prod.collapse)
  show "qr_inv (fst q) \<and> payable tn (fst q)"
    if "qr_inv (fst p) \<and> payable tn (fst p)" "status (fst p) \<noteq> Success" "qr_progress tn p q" for p q
    using that progress_falls progress_step [OF that(3)] inv_step by (metis prod.collapse)
  show "tries_rank q < tries_rank p"
    if "qr_inv (fst p) \<and> payable tn (fst p)" "status (fst p) \<noteq> Success" "qr_progress tn p q" for p q
    using that progress_falls by (metis prod.collapse)
qed


subsection \<open>Every call of refreshStatus ends\<close>

text \<open>The events that continue a waiting call, and a bound on how many of them the waiting calls still take.\<close>

fun settles :: "qr_event \<Rightarrow> bool" where
  "settles (Poll_Settles _ _) = True"
| "settles (Success_Settles _ _) = True"
| "settles (Resume _) = True"
| "settles _ = False"

fun awaits_left :: "request_phase \<Rightarrow> nat" where
  "awaits_left Polling = 3"
| "awaits_left Handling = 2"
| "awaits_left _ = 1"

definition calls_left :: "qr_state \<Rightarrow> nat" where
  "calls_left s = (\<Sum>r\<leftarrow>requests s. awaits_left (req_phase r))"

lemma sum_filter_less:
  fixes f :: "poll_request \<Rightarrow> nat"
  assumes "r \<in> set rs" and "0 < f r"
  shows "(\<Sum>q\<leftarrow>filter (\<lambda>q. req_id q \<noteq> req_id r) rs. f q) < sum_list (map f rs)"
  using assms(1)
proof (induction rs)
  case (Cons q rs)
  have "(\<Sum>q\<leftarrow>filter (\<lambda>q. req_id q \<noteq> req_id r) rs. f q) \<le> sum_list (map f rs)"
    by (induction rs) auto
  with Cons assms(2) show ?case by auto
qed simp

lemma sum_phase_less:
  assumes "r \<in> set rs" and "distinct (map req_id rs)" and "awaits_left p < awaits_left (req_phase r)"
  shows "(\<Sum>q\<leftarrow>rs. awaits_left (req_phase (if req_id q = req_id r then q\<lparr>req_phase := p\<rparr> else q)))
    < (\<Sum>q\<leftarrow>rs. awaits_left (req_phase q))"
  using assms(1,2)
proof (induction rs)
  case (Cons q rs)
  show ?case
  proof (cases "q = r")
    case True
    with Cons.prems have same: "map (\<lambda>q. awaits_left (req_phase (if req_id q = req_id r then q\<lparr>req_phase := p\<rparr> else q))) rs
      = map (\<lambda>q. awaits_left (req_phase q)) rs" by (auto simp: image_iff)
    from True assms(3) show ?thesis unfolding list.map same by simp
  next
    case False
    with Cons.prems have "req_id q \<noteq> req_id r" by auto
    with False Cons show ?thesis by simp
  qed
qed simp

lemma calls_finally: "r \<in> set (requests s) \<Longrightarrow> calls_left (refresh_finally r s) < calls_left s"
  using sum_filter_less [of r "requests s" "\<lambda>q. awaits_left (req_phase q)"]
  by (cases "req_phase r") (auto simp: refresh_finally_def Let_def calls_left_def)

lemma calls_set_phase:
  assumes "qr_inv s" and "r \<in> set (requests s)" and "awaits_left p < awaits_left (req_phase r)" and "requests t = requests s"
  shows "calls_left (set_phase r p t) < calls_left s"
  using assms sum_phase_less [OF assms(2) _ assms(3)]
  by (simp add: calls_left_def set_phase_def qr_inv_def comp_def)

lemma calls_less:
  assumes "qr_inv s" and "qr_step s e t" and "settles e"
  shows "calls_left t < calls_left s"
  using assms(2)
proof cases
  case (qr_poll r answer)
  then show ?thesis
    using assms(1) by (auto simp: poll_settled_def refresh_catch_def calls_finally intro!: calls_set_phase split: option.split)
next
  case (qr_success r answer)
  then show ?thesis
    using assms(1) by (auto simp: success_settled_def intro!: calls_set_phase split: option.split prod.split)
next
  case (qr_resolved r st)
  then show ?thesis
    using calls_finally [of r "s\<lparr>status := st\<rparr>"] by (simp add: resumed_def calls_left_def)
next
  case (qr_rejected r)
  then show ?thesis by (simp add: resumed_def refresh_catch_def calls_finally)
qed (use assms(3) in simp_all)

lemma exec_step:
  assumes "qr_exec e s = Some t"
  shows "qr_step s e t"
proof (cases e)
  case (Resume i)
  with assms obtain r where "request i s = Some r" "req_phase r \<noteq> Polling" "req_phase r \<noteq> Handling" "t = snd (resumed r s)"
    by (auto split: option.splits if_splits)
  then show ?thesis
    using Resume qr_resolved [of r s] qr_rejected [of r s]
    by (cases "req_phase r") (auto simp: request_def find_Some_iff)
qed (use assms in \<open>auto simp: request_def find_Some_iff split: option.splits if_splits
      intro: qr_activate qr_close qr_render qr_tick qr_poll qr_success\<close>)


lemma reach_exec: "run qr_exec es qr_init = Some s \<Longrightarrow> reach qr_step qr_init s"
  using exec_step reach_init by (rule reach_run)

subsection \<open>Properties\<close>

text \<open>States for the witnesses: a payment whose poll is in flight, and the same call after the dialog was closed.\<close>

definition sample_polling :: qr_state where
  "sample_polling = the (run qr_exec [Activate ''A1'', Tick True (Some ''A1'')] qr_init)"

definition sample_stale :: qr_state where
  "sample_stale = closeSession sample_polling"

lemma sample_polling_eq: "sample_polling =
  \<lparr>status = Pending, refreshing = True, pollingInFlight = True, pollingRequestId = 2, handledTradeNo = None,
   session = \<lparr>sessionId = 1, sopen = True, tradeNo = ''A1''\<rparr>,
   requests = [\<lparr>req_id = 2, req_session = \<lparr>rq_sessionId = 1, rq_tradeNo = ''A1''\<rparr>, req_phase = Polling\<rparr>],
   notified = []\<rparr>"
  by (simp add: sample_polling_def qr_init_def initialQrPaymentSession_def activatePayment_def
      refreshStatus_def isCurrentQrPaymentSession_def)

lemma sample_polling_reached: "reach qr_step qr_init sample_polling"
  by (rule reach_exec [of "[Activate ''A1'', Tick True (Some ''A1'')]"]) (simp add: sample_polling_def)

lemma sample_stale_reached: "reach qr_step qr_init sample_stale"
  unfolding sample_stale_def by (rule reach_step [OF sample_polling_reached qr_close])

text \<open>
  C9. In every state the hook can reach, the refresh indicator is on exactly when a poll of
  the session on screen is under way, and there is at most one such poll, however renders,
  closings, new payments, timer ticks and late answers interleave.
\<close>

theorem qr_single_flight:
  assumes "reach qr_step qr_init s"
  shows "(refreshing s \<longleftrightarrow> (\<exists>r \<in> set (requests s). isCurrentQrPaymentSession (session s) (req_session r))) \<and>
    length (filter (\<lambda>r. isCurrentQrPaymentSession (session s) (req_session r)) (requests s)) \<le> 1"
proof -
  have inv: "qr_inv s" using assms by (rule qr.inv_reach)
  have "distinct (map req_sid (filter (own s) (requests s)))"
    using inv by (simp add: qr_inv_def distinct_map_filter)
  moreover have "set (map req_sid (filter (own s) (requests s))) \<subseteq> {sessionId (session s)}"
    using own_sid by auto
  ultimately have "length (map req_sid (filter (own s) (requests s))) \<le> card {sessionId (session s)}"
    by (metis card_mono distinct_card finite.emptyI finite.insertI)
  with inv show ?thesis by (simp add: qr_inv_def list_ex_iff own_def [abs_def])
qed

theorem qr_single_flight_witness:
  "reach qr_step qr_init sample_polling \<and> refreshing sample_polling \<and> length (requests sample_polling) = 1 \<and>
   (\<exists>r \<in> set (requests sample_polling). isCurrentQrPaymentSession (session sample_polling) (req_session r))"
  using qr_single_flight [OF sample_polling_reached] sample_polling_reached by (simp add: sample_polling_eq)

text \<open>
  An answer that arrives for a session that is no longer on screen is dropped: whatever
  the backend answers, the call ends as undefined and nothing but the list of waiting calls
  changes, not the status, the indicator, the handled trade number or the request counter.
\<close>

theorem qr_stale_poll_dropped:
  assumes "reach qr_step qr_init s" and "r \<in> set (requests s)"
    and "\<not> isCurrentQrPaymentSession (session s) (req_session r)"
  shows "poll_settled r answer s =
    (Some Undefined, s\<lparr>requests := filter (\<lambda>q. req_id q \<noteq> req_id r) (requests s)\<rparr>)"
proof -
  have "qr_inv s" using assms(1) by (rule qr.inv_reach)
  with assms(2,3) have "\<not> pollingInFlight s" if "req_id r = pollingRequestId s"
    using that inv_own_id by (auto simp: own_def)
  with assms(3) show ?thesis
    by (auto simp: poll_settled_def refresh_catch_def refresh_finally_def Let_def split: option.split)
qed

theorem qr_stale_poll_dropped_witness:
  "poll_settled (hd (requests sample_stale)) (Some (Some Success)) sample_stale
     = (Some Undefined, sample_stale\<lparr>requests := []\<rparr>)"
  using qr_stale_poll_dropped [OF sample_stale_reached, of "hd (requests sample_stale)" "Some (Some Success)"]
  by (simp add: sample_stale_def sample_polling_eq closeSession_def closeQrPaymentSession_def
      isCurrentQrPaymentSession_def)

text \<open>
  C11. As long as no session is closed or replaced between the answer of its poll and the end
  of that call, a payment is reported once and never without cause: every session sends at
  most one success notification, and when the status is success the notification of the
  session on screen has been sent.
\<close>

theorem qr_success_once:
  assumes "reach qr_calm_step qr_init s"
  shows "distinct (map rq_sessionId (notified s)) \<and>
    (status s = Success \<longrightarrow>
     \<lparr>rq_sessionId = sessionId (session s), rq_tradeNo = tradeNo (session s)\<rparr> \<in> set (notified s))"
  using calm_qr.inv_reach [OF assms] by (simp add: calm_inv_def once_def shown_def)

definition sample_paid :: qr_state where
  "sample_paid = the (run qr_exec
     [Activate ''A1'', Tick True (Some ''A1''), Poll_Settles 2 (Some (Some Success)),
      Success_Settles 2 (Some (Some True)), Resume 2] qr_init)"

definition calm_exec :: "qr_event \<Rightarrow> qr_state \<Rightarrow> qr_state option" where
  "calm_exec e s = (case qr_exec e s of None \<Rightarrow> None | Some t \<Rightarrow> if calm t then Some t else None)"

lemma calm_exec_step: "calm_exec e s = Some t \<Longrightarrow> qr_calm_step s e t"
  by (auto simp: calm_exec_def qr_calm_step_def exec_step split: option.splits if_splits)

lemma reach_calm: "run calm_exec es qr_init = Some s \<Longrightarrow> reach qr_calm_step qr_init s"
  using calm_exec_step reach_init by (rule reach_run)

lemma sample_paid_reached:
  "reach qr_calm_step qr_init sample_paid \<and> status sample_paid = Success \<and>
   session sample_paid = \<lparr>sessionId = 1, sopen = True, tradeNo = ''A1''\<rparr>"
proof -
  have "run calm_exec
     [Activate ''A1'', Tick True (Some ''A1''), Poll_Settles 2 (Some (Some Success)),
      Success_Settles 2 (Some (Some True)), Resume 2] qr_init = Some sample_paid"
    "status sample_paid = Success" "session sample_paid = \<lparr>sessionId = 1, sopen = True, tradeNo = ''A1''\<rparr>"
    unfolding sample_paid_def by code_simp+
  then show ?thesis using reach_calm by blast
qed

theorem qr_success_once_witness:
  "reach qr_calm_step qr_init sample_paid \<and> status sample_paid = Success \<and>
   \<lparr>rq_sessionId = 1, rq_tradeNo = ''A1''\<rparr> \<in> set (notified sample_paid)"
  using qr_success_once [of sample_paid] sample_paid_reached by simp

text \<open>
  C10. A payment that the backend reports as successful is eventually shown as such, as long as
  the polls and the success handler fail only finitely often: from every reachable state with an
  open session for the trade number that has not failed or expired, with any number of failures
  to come (a poll that rejects, gives null or is still pending, a handler that throws or
  refuses), the steps of that session are never stuck and every sequence of them reaches the
  status success.
\<close>

theorem qr_success_inevitable:
  assumes "reach qr_step qr_init s" and "payable tn s"
  shows "inevitably (qr_progress tn) (\<lambda>p. status (fst p) = Success) (s, failures)"
  using assms by (intro paid.goal_inevitable) (simp add: qr.inv_reach)

theorem qr_success_inevitable_witness:
  "payable ''A1'' sample_polling \<and> status sample_polling = Pending \<and>
   inevitably (qr_progress ''A1'') (\<lambda>p. status (fst p) = Success) (sample_polling, 3)"
  using qr_success_inevitable [OF sample_polling_reached, of "''A1''" 3]
  by (simp add: sample_polling_eq payable_def own_def isCurrentQrPaymentSession_def)

text \<open>
  Every call of \<open>refreshStatus\<close> ends: as long as no new call is started, the waiting
  calls can be continued only finitely often.
\<close>

theorem qr_calls_terminate:
  "wfp (\<lambda>t s. reach qr_step qr_init s \<and> (\<exists>e. settles e \<and> qr_step s e t))"
proof (rule wfp_if_convertible_to_nat [where f = calls_left])
  show "calls_left t < calls_left s"
    if "reach qr_step qr_init s \<and> (\<exists>e. settles e \<and> qr_step s e t)" for s t
    using that calls_less qr.inv_reach by blast
qed

text \<open>
  C23. The check that drops late answers is not repeated behind the success handler.  When the
  dialog is closed and another payment is opened while \<open>onSuccess\<close> of the first one is still
  running, the second payment is shown as successful although only the first one was paid and
  reported, and its polling stops.
\<close>

theorem qr_stale_success_leaks:
  "\<exists>s. reach qr_step qr_init s \<and> session s = \<lparr>sessionId = 3, sopen = True, tradeNo = ''B2''\<rparr> \<and>
     status s = Success \<and> notified s = [\<lparr>rq_sessionId = 1, rq_tradeNo = ''A1''\<rparr>] \<and>
     \<not> polling_active True True (Some ''B2'') s"
proof -
  define es where "es = [Activate ''A1'', Tick True (Some ''A1''), Poll_Settles 2 (Some (Some Success)), Close,
    Activate ''B2'', Success_Settles 2 (Some (Some True)), Resume 2]"
  define s where "s = the (run qr_exec es qr_init)"
  have "run qr_exec es qr_init = Some s" "session s = \<lparr>sessionId = 3, sopen = True, tradeNo = ''B2''\<rparr>"
    "status s = Success" "notified s = [\<lparr>rq_sessionId = 1, rq_tradeNo = ''A1''\<rparr>]"
    "\<not> polling_active True True (Some ''B2'') s"
    unfolding s_def es_def by code_simp+
  then show ?thesis using reach_exec by blast
qed

end
