(* ===== verification/Qr_Dialog.thy ===== *)
theory Qr_Dialog
  imports Qr_Payment
begin

section \<open>The QR payment dialog of the wallet\<close>

text \<open>
  The wallet page (\<open>features/wallet/index.tsx\<close>) composes the polling hook of
  \<open>Qr_Payment\<close> with \<open>useQrPaymentSuccessClose\<close>, which closes the dialog behind a successful
  payment once the balances have been reloaded.  The page's state is \<open>qr_dialog\<close>; \<open>closings\<close>
  counts the calls of \<open>closeAfterSuccess\<close> that wait for \<open>refresh\<close>, and \<open>failureToasts\<close> the
  error messages shown.  The reloading itself is network I/O: its outcome is an input.
\<close>

subsection \<open>Refreshing behind a success\<close>

text \<open>A settled refresh task: fulfilled with a boolean or undefined, or rejected.\<close>

datatype task_result = Fulfilled "bool option" | Task_Rejected

definition runQrPaymentSuccessRefreshTasks :: "task_result list \<Rightarrow> bool" where
  "runQrPaymentSuccessRefreshTasks results =
     list_all (\<lambda>r. case r of Fulfilled v \<Rightarrow> v \<noteq> Some False | Task_Rejected \<Rightarrow> False) results"

record qr_dialog =
  hook :: qr_state
  qrPayment :: "QrPaymentResult option"
  qrDialogOpen :: bool
  confirmDialogOpen :: bool
  billingDialogOpen :: bool
  recordRefreshKey :: nat
  successClosingRef :: bool
  successClosing :: bool
  closings :: nat
  failureToasts :: nat

definition dialog_init :: qr_dialog where
  "dialog_init = \<lparr>hook = qr_init, qrPayment = None, qrDialogOpen = False, confirmDialogOpen = False,
     billingDialogOpen = False, recordRefreshKey = 0, successClosingRef = False, successClosing = False,
     closings = 0, failureToasts = 0\<rparr>"

text \<open>The outcome of \<open>refreshWalletSnapshots\<close> on the results of \<open>fetchUser\<close> and \<open>refetchWalletAccount\<close>.\<close>

definition refreshWalletSnapshots :: "task_result \<Rightarrow> task_result \<Rightarrow> qr_dialog \<Rightarrow> bool \<times> qr_dialog" where
  "refreshWalletSnapshots user account d =
     (runQrPaymentSuccessRefreshTasks [user, account], d\<lparr>recordRefreshKey := recordRefreshKey d + 1\<rparr>)"

subsection \<open>Closing\<close>

definition closeAfterSuccess :: "qr_dialog \<Rightarrow> qr_dialog" where
  "closeAfterSuccess d =
     (if successClosingRef d then d
      else d\<lparr>successClosingRef := True, successClosing := True, closings := closings d + 1\<rparr>)"

text \<open>
  The rest of \<open>closeAfterSuccess\<close> on the outcome of \<open>refresh\<close> (None when it throws), with the
  \<open>finally\<close> block.
\<close>

definition notifyRefreshFailure :: "qr_dialog \<Rightarrow> qr_dialog" where
  "notifyRefreshFailure d = d\<lparr>failureToasts := failureToasts d + 1\<rparr>"

definition closeAfterSuccess_end :: "bool option \<Rightarrow> qr_dialog \<Rightarrow> qr_dialog" where
  "closeAfterSuccess_end refreshed d0 =
     (let d = (case refreshed of
         None \<Rightarrow> notifyRefreshFailure d0
       | Some b \<Rightarrow> if b then d0 else notifyRefreshFailure d0)
      in d\<lparr>hook := closeSession (hook d), qrDialogOpen := False,
           successClosingRef := False, successClosing := False, closings := closings d - 1\<rparr>)"

definition handleOpenChange :: "bool \<Rightarrow> qr_dialog \<Rightarrow> qr_dialog" where
  "handleOpenChange isOpen d =
     (if \<not> isOpen \<and> status (hook d) = Success then closeAfterSuccess d
      else if \<not> isOpen then d\<lparr>hook := closeSession (hook d), qrDialogOpen := isOpen\<rparr>
      else d\<lparr>qrDialogOpen := isOpen\<rparr>)"

text \<open>
  \<open>handleOpenBillingFromQrDialog\<close>: behind a success the billing dialog opens when the closing
  has ended, else at once.
\<close>

definition handleOpenBillingFromQrDialog :: "qr_dialog \<Rightarrow> qr_dialog" where
  "handleOpenBillingFromQrDialog d =
     (if status (hook d) = Success then closeAfterSuccess d
      else (handleOpenChange False d)\<lparr>billingDialogOpen := True\<rparr>)"

subsection \<open>Opening and rendering\<close>

text \<open>The branch of \<open>handlePaymentConfirm\<close> for a QR payment.\<close>

definition handlePaymentConfirm :: "QrPaymentResult \<Rightarrow> qr_dialog \<Rightarrow> qr_dialog" where
  "handlePaymentConfirm result d = d\<lparr>
     confirmDialogOpen := False,
     hook := activatePayment (getQrPaymentPrimaryTradeNo (Some result)) (hook d),
     qrPayment := Some result,
     qrDialogOpen := True\<rparr>"

definition poll_enabled :: "qr_dialog \<Rightarrow> bool" where
  "poll_enabled d = (case qrPayment d of None \<Rightarrow> False | Some p \<Rightarrow> purpose p = Topup)"

definition poll_tradeNo :: "qr_dialog \<Rightarrow> string option" where
  "poll_tradeNo d = map_option (\<lambda>p. getQrPaymentPrimaryTradeNo (Some p)) (qrPayment d)"

text \<open>A render of the page runs the hook's session effect with the page's state.\<close>

definition rendered :: "qr_dialog \<Rightarrow> qr_dialog" where
  "rendered d = d\<lparr>hook := session_effect (qrDialogOpen d) (poll_enabled d) (poll_tradeNo d) (hook d)\<rparr>"

fun continues :: "qr_event \<Rightarrow> bool" where
  "continues (Tick _ _) = True"
| "continues e = settles e"

datatype dialog_event =
    Confirm QrPaymentResult
  | Rendered
  | Hook qr_event
  | Open_Change bool
  | Close_After_Success
  | Open_Billing
  | Refresh_Ends "bool option"
  | Show_Billing

inductive dialog_step :: "qr_dialog \<Rightarrow> dialog_event \<Rightarrow> qr_dialog \<Rightarrow> bool" where
  dialog_confirm: "dialog_step d (Confirm p) (handlePaymentConfirm p d)"
| dialog_rendered: "dialog_step d Rendered (rendered d)"
| dialog_hook: "continues e \<Longrightarrow> qr_step (hook d) e s \<Longrightarrow> dialog_step d (Hook e) (d\<lparr>hook := s\<rparr>)"
| dialog_open_change: "dialog_step d (Open_Change isOpen) (handleOpenChange isOpen d)"
| dialog_close_success: "dialog_step d Close_After_Success (closeAfterSuccess d)"
| dialog_open_billing: "dialog_step d Open_Billing (handleOpenBillingFromQrDialog d)"
| dialog_refresh_ends: "0 < closings d \<Longrightarrow> dialog_step d (Refresh_Ends b) (closeAfterSuccess_end b d)"
| dialog_show_billing: "dialog_step d Show_Billing (d\<lparr>billingDialogOpen := True\<rparr>)"

definition dialog_inv :: "qr_dialog \<Rightarrow> bool" where
  "dialog_inv d =
     (qr_inv (hook d) \<and> (\<not> qrDialogOpen d \<longrightarrow> \<not> sopen (session (hook d))) \<and>
      closings d = (if successClosingRef d then 1 else 0) \<and> successClosing d = successClosingRef d)"


subsection \<open>The invariant\<close>

lemma continues_session:
  assumes "qr_step s e t" and "continues e"
  shows "session t = session s"
  using assms
  by cases
    (auto simp: refreshStatus_def Let_def poll_settled_def refresh_catch_def success_settled_def resumed_def
      split: option.splits prod.splits)

lemma closeSession_closed [simp]: "\<not> sopen (session (closeSession s))"
  by (simp add: closeSession_def closeQrPaymentSession_def)

lemma effect_closed: "sopen (session (session_effect isOpen enabled tn s)) \<Longrightarrow> isOpen"
  by (auto simp: session_effect_def split: if_splits)

lemma dialog_inv_close_success: "dialog_inv d \<Longrightarrow> dialog_inv (closeAfterSuccess d)"
  by (simp add: dialog_inv_def closeAfterSuccess_def)

lemma dialog_inv_open_change: "dialog_inv d \<Longrightarrow> dialog_inv (handleOpenChange isOpen d)"
  by (simp add: handleOpenChange_def dialog_inv_close_success) (simp add: dialog_inv_def inv_close)

lemma dialog_inv_close_end: "dialog_inv d \<Longrightarrow> 0 < closings d \<Longrightarrow> dialog_inv (closeAfterSuccess_end b d)"
  by (simp add: dialog_inv_def closeAfterSuccess_end_def Let_def notifyRefreshFailure_def inv_close
      split: option.split if_splits)

lemma dialog_inv_step:
  assumes "dialog_inv d" and "dialog_step d e d'"
  shows "dialog_inv d'"
  using assms(2)
proof cases
  case (dialog_confirm p)
  then show ?thesis using assms(1) by (simp add: handlePaymentConfirm_def dialog_inv_def inv_activate)
next
  case dialog_rendered
  then show ?thesis using assms(1) effect_closed by (auto simp: rendered_def dialog_inv_def inv_effect)
next
  case (dialog_hook e s)
  then have "session s = session (hook d)" "qr_inv (hook d) \<Longrightarrow> qr_inv s"
    using continues_session inv_step by blast+
  with assms(1) dialog_hook show ?thesis by (simp add: dialog_inv_def)
next
  case dialog_open_billing
  then show ?thesis
    using dialog_inv_close_success [OF assms(1)] dialog_inv_open_change [OF assms(1), of False]
    by (simp add: handleOpenBillingFromQrDialog_def dialog_inv_def)
next
  case dialog_show_billing
  then show ?thesis using assms(1) by (simp add: dialog_inv_def)
qed (use assms(1) in \<open>simp_all add: dialog_inv_open_change dialog_inv_close_success dialog_inv_close_end\<close>)

interpretation dialog: inductive_invariant dialog_step dialog_init dialog_inv
proof
  show "dialog_inv dialog_init"
    by (simp add: dialog_inv_def dialog_init_def qr_init_def qr_inv_def initialQrPaymentSession_def)
qed (rule dialog_inv_step)

subsection \<open>Properties\<close>

definition sample_payment :: QrPaymentResult where
  "sample_payment = \<lparr>trade_no = Some '' T7 '', order_id = None, code_url = ''weixin://pay'', expires_at = None,
     purpose = Topup, amount = None\<rparr>"

lemma sample_trade_no: "getQrPaymentPrimaryTradeNo (Some sample_payment) = ''T7''"
  unfolding sample_payment_def by code_simp

lemma sample_open_reached: "reach dialog_step dialog_init (handlePaymentConfirm sample_payment dialog_init)"
  by (rule reach_step, rule reach_init, rule dialog_confirm)

text \<open>
  While the dialog is closed the page is quiet: whatever was opened, polled, closed or
  reloaded before, a timer tick or a click that still runs then starts no request, for any
  payment.
\<close>

theorem closed_dialog_starts_no_poll:
  assumes "reach dialog_step dialog_init d" and "\<not> qrDialogOpen d"
  shows "fst (refreshStatus enabled tn (hook d)) \<noteq> Started \<and> snd (refreshStatus enabled tn (hook d)) = hook d"
proof -
  have "\<not> sopen (session (hook d))"
    using dialog.inv_reach [OF assms(1)] assms(2) by (simp add: dialog_inv_def)
  then show ?thesis
    by (simp add: refreshStatus_def isCurrentQrPaymentSession_def Let_def split: option.split)
qed

definition sample_closed :: qr_dialog where
  "sample_closed = handleOpenChange False (handlePaymentConfirm sample_payment dialog_init)"

lemma sample_closed_reached: "reach dialog_step dialog_init sample_closed"
  unfolding sample_closed_def
  by (rule reach_step [OF sample_open_reached dialog_open_change])

theorem closed_dialog_starts_no_poll_witness:
  "\<not> qrDialogOpen sample_closed \<and> sessionId (session (hook sample_closed)) = 2 \<and>
   fst (refreshStatus True (Some ''T7'') (hook sample_closed)) \<noteq> Started"
  using closed_dialog_starts_no_poll [OF sample_closed_reached, of True "Some ''T7''"]
  by (simp add: sample_closed_def handleOpenChange_def handlePaymentConfirm_def activatePayment_def dialog_init_def
      qr_init_def initialQrPaymentSession_def closeSession_def closeQrPaymentSession_def)

text \<open>
  C22. Closing behind a successful payment always completes, once: in every reachable state at
  most one closing waits for the reload and the closing indicator shows it; when the reload
  ends, with any result or an exception, the dialog and its session are closed, the indicator
  is off, no closing waits, and an error is shown exactly when the reload did not succeed.
\<close>

theorem success_close_completes:
  assumes "reach dialog_step dialog_init d" and "0 < closings d"
  shows "closings d = 1 \<and> successClosing d \<and> closeAfterSuccess d = d \<and>
    (let d' = closeAfterSuccess_end refreshed d in
       \<not> qrDialogOpen d' \<and> \<not> sopen (session (hook d')) \<and> \<not> successClosing d' \<and> \<not> successClosingRef d' \<and>
       closings d' = 0 \<and> failureToasts d' = failureToasts d + (if refreshed = Some True then 0 else 1))"
proof -
  have "dialog_inv d" using assms(1) by (rule dialog.inv_reach)
  with assms(2) have "successClosingRef d" "closings d = 1" "successClosing d"
    by (simp_all add: dialog_inv_def split: if_splits)
  then show ?thesis
    by (simp add: closeAfterSuccess_def closeAfterSuccess_end_def Let_def notifyRefreshFailure_def split: option.split)
qed

definition sample_closing :: qr_dialog where
  "sample_closing = closeAfterSuccess (handlePaymentConfirm sample_payment dialog_init)"

lemma sample_closing_reached: "reach dialog_step dialog_init sample_closing"
  unfolding sample_closing_def
  by (rule reach_step [OF sample_open_reached dialog_close_success])

theorem success_close_completes_witness:
  "qrDialogOpen sample_closing \<and> closings sample_closing = 1 \<and>
   \<not> qrDialogOpen (closeAfterSuccess_end (Some (runQrPaymentSuccessRefreshTasks [Fulfilled (Some True), Task_Rejected])) sample_closing) \<and>
   failureToasts (closeAfterSuccess_end (Some (runQrPaymentSuccessRefreshTasks [Fulfilled (Some True), Task_Rejected])) sample_closing) = 1"
  using success_close_completes [OF sample_closing_reached,
      of "Some (runQrPaymentSuccessRefreshTasks [Fulfilled (Some True), Task_Rejected])"]
  by (simp add: sample_closing_def closeAfterSuccess_def handlePaymentConfirm_def dialog_init_def
      runQrPaymentSuccessRefreshTasks_def Let_def)

text \<open>
  C32. A payment opened from the confirmation dialog is polled: behind the render that follows,
  the session is open for the trimmed trade number, the polling timer runs when that number is
  not empty, and its first tick starts a request for it.
\<close>

theorem confirmed_payment_polled:
  assumes "reach dialog_step dialog_init d0" and "purpose p = Topup" and "getQrPaymentPrimaryTradeNo (Some p) \<noteq> []"
  shows "let d = rendered (handlePaymentConfirm p d0) in
    polling_active (qrDialogOpen d) (poll_enabled d) (poll_tradeNo d) (hook d) \<and>
    fst (refreshStatus (poll_enabled d) (poll_tradeNo d) (hook d)) = Started \<and>
    tradeNo (session (hook d)) = getQrPaymentPrimaryTradeNo (Some p) \<and>
    payable (getQrPaymentPrimaryTradeNo (Some p)) (snd (refreshStatus (poll_enabled d) (poll_tradeNo d) (hook d)))"
proof -
  let ?tn = "getQrPaymentPrimaryTradeNo (Some p)"
  let ?s = "activatePayment ?tn (hook d0)"
  have eff: "rendered (handlePaymentConfirm p d0) = handlePaymentConfirm p d0"
    using assms by (simp add: rendered_def handlePaymentConfirm_def session_effect_def poll_tradeNo_def activatePayment_def)
  have inv: "qr_inv ?s" using dialog.inv_reach [OF assms(1)] by (simp add: dialog_inv_def inv_activate)
  have idle: "\<not> pollingInFlight ?s" "status ?s = Pending" by (simp_all add: activatePayment_def)
  have "payable ?tn ?s"
    using find_none [OF inv idle(1)] assms(3) by (simp add: payable_def activatePayment_def)
  then have "payable ?tn (snd (refreshStatus True (Some ?tn) ?s))"
    using progress_tick_ok [OF inv _ idle(2,1)] by blast
  moreover have "fst (refreshStatus True (Some ?tn) ?s) = Started"
    using assms(3) by (simp add: refreshStatus_def isCurrentQrPaymentSession_def activatePayment_def)
  ultimately show ?thesis
    unfolding eff using assms(2,3) idle
    by (simp add: Let_def handlePaymentConfirm_def poll_enabled_def poll_tradeNo_def polling_active_def)
      (simp add: activatePayment_def)
qed

theorem confirmed_payment_polled_witness:
  "fst (refreshStatus True (Some ''T7'') (hook (rendered (handlePaymentConfirm sample_payment dialog_init)))) = Started"
  using confirmed_payment_polled [OF reach_init, of sample_payment]
  by (simp add: sample_trade_no Let_def poll_enabled_def poll_tradeNo_def rendered_def handlePaymentConfirm_def)
    (simp add: sample_payment_def)

end
