(* ===== verification/Topup_Info.thy ===== *)
theory Topup_Info
  imports Js_Json
begin

section \<open>Top-up settings: payment methods, preset amounts, discounts\<close>

text \<open>
  What the wallet does with the top-up settings of the server
  (\<open>features/wallet/hooks/use-topup-info.ts\<close>, \<open>lib/payment.ts\<close>, the pricing part of
  \<open>lib/format.ts\<close>, \<open>constants.ts\<close>).  The five loosely typed fields of the answer are
  \<^typ>\<open>jsval\<close>s; the readers of \<open>use-topup-info.ts\<close> turn them into records.  A reader that
  converts a value to a number can throw a \<open>TypeError\<close> (an object whose own \<open>toString\<close> is
  not callable); its result is then None, and the \<open>catch\<close> of \<open>fetchTopupInfo\<close> leaves the
  hook's state alone.  A number record is a map from the text of the key.
\<close>

subsection \<open>Numbers\<close>

fun isFinite :: "jsnum \<Rightarrow> bool" where
  "isFinite (Fin r) = True"
| "isFinite _ = False"

text \<open>\<open>n > 0\<close>, and \<open>n || d\<close> on a number that may be missing.\<close>

fun positive :: "jsnum \<Rightarrow> bool" where
  "positive (Fin r) = (0 < r)"
| "positive Infinity = True"
| "positive _ = False"

definition num_or :: "jsnum option \<Rightarrow> jsnum \<Rightarrow> jsnum" where
  "num_or n d = (case n of None \<Rightarrow> d | Some x \<Rightarrow> if x = NaN \<or> x = Fin 0 then d else x)"

fun num_times :: "jsnum \<Rightarrow> rat \<Rightarrow> jsnum" where
  "num_times (Fin r) k = Fin (r * k)"
| "num_times NaN k = NaN"
| "num_times Infinity k = (if 0 < k then Infinity else if k < 0 then NegInfinity else NaN)"
| "num_times NegInfinity k = (if 0 < k then NegInfinity else if k < 0 then Infinity else NaN)"

text \<open>\<open>Math.min\<close> of finite numbers, not none.\<close>

fun num_min :: "jsnum \<Rightarrow> jsnum \<Rightarrow> jsnum" where
  "num_min (Fin a) (Fin b) = Fin (min a b)"
| "num_min NaN b = NaN"
| "num_min a NaN = NaN"
| "num_min NegInfinity b = NegInfinity"
| "num_min a NegInfinity = NegInfinity"
| "num_min Infinity b = b"
| "num_min a Infinity = a"

definition Math_min :: "jsnum list \<Rightarrow> jsnum" where
  "Math_min xs = foldl num_min Infinity xs"

subsection \<open>Constants and records\<close>

definition DEFAULT_PRESET_MULTIPLIERS :: "rat list" where
  "DEFAULT_PRESET_MULTIPLIERS = [1, 5, 10, 30, 50, 100, 300, 500]"

definition ALIPAY :: string where "ALIPAY = ''alipay''"
definition ALIPAY_DIRECT :: string where "ALIPAY_DIRECT = ''alipay_direct''"
definition WECHAT :: string where "WECHAT = ''wxpay''"
definition WECHAT_DIRECT :: string where "WECHAT_DIRECT = ''wechat_direct''"
definition STRIPE :: string where "STRIPE = ''stripe''"
definition CREEM :: string where "CREEM = ''creem''"
definition WAFFO :: string where "WAFFO = ''waffo''"
definition WAFFO_PANCAKE :: string where "WAFFO_PANCAKE = ''waffo_pancake''"

lemmas PAYMENT_TYPES = ALIPAY_def ALIPAY_DIRECT_def WECHAT_def WECHAT_DIRECT_def STRIPE_def CREEM_def
  WAFFO_def WAFFO_PANCAKE_def

definition DEFAULT_PAYMENT_TYPE :: string where "DEFAULT_PAYMENT_TYPE = ALIPAY"

definition DEFAULT_MIN_TOPUP :: jsnum where "DEFAULT_MIN_TOPUP = Fin 1"

definition DEFAULT_DISCOUNT_RATE :: rat where "DEFAULT_DISCOUNT_RATE = 1"

record PaymentMethod =
  pm_name :: string
  pm_type :: string
  pm_color :: "string option"
  pm_min_topup :: "jsnum option"
  pm_icon :: "string option"

record WaffoPayMethod =
  wm_name :: string
  wm_icon :: "string option"
  wm_payMethodType :: "string option"
  wm_payMethodName :: "string option"

datatype creem_currency = USD | EUR

record CreemProduct =
  cp_name :: string
  cp_productId :: string
  cp_price :: jsnum
  cp_quota :: jsnum
  cp_currency :: creem_currency

record PresetAmount =
  pa_value :: jsnum
  pa_discount :: "jsnum option"

type_synonym num_record = "string \<Rightarrow> jsnum option"

text \<open>The fields of the settings the modelled code reads, before and after the readers.\<close>

record topup_fields =
  enable_online_topup :: bool
  enable_stripe_topup :: bool
  min_topup :: jsnum
  stripe_min_topup :: jsnum
  relation_topup_discount :: "jsnum option"
  enable_waffo_topup :: bool
  waffo_min_topup :: "jsnum option"
  enable_waffo_pancake_topup :: bool
  waffo_pancake_min_topup :: "jsnum option"

record topup_response = topup_fields +
  raw_pay_methods :: jsval
  raw_amount_options :: jsval
  raw_discount :: jsval
  raw_creem_products :: jsval
  raw_waffo_pay_methods :: jsval

record TopupInfo = topup_fields +
  pay_methods :: "PaymentMethod list"
  amount_options :: "jsnum list"
  discount :: num_record
  creem_products :: "CreemProduct list"
  waffo_pay_methods :: "WaffoPayMethod list"

subsection \<open>Payment types\<close>

definition isStripePayment :: "string \<Rightarrow> bool" where
  "isStripePayment paymentType = (paymentType = STRIPE)"

definition isAlipayDirectPayment :: "string \<Rightarrow> bool" where
  "isAlipayDirectPayment paymentType = (paymentType = ALIPAY_DIRECT)"

definition isWechatDirectPayment :: "string \<Rightarrow> bool" where
  "isWechatDirectPayment paymentType = (paymentType = WECHAT_DIRECT)"

definition isHiddenEpayPayment :: "string \<Rightarrow> bool" where
  "isHiddenEpayPayment paymentType = (paymentType = ALIPAY \<or> paymentType = WECHAT)"

definition isCreemPayment :: "string \<Rightarrow> bool" where
  "isCreemPayment paymentType = (paymentType = CREEM)"

definition isWaffoPayment :: "string \<Rightarrow> bool" where
  "isWaffoPayment paymentType = (paymentType = WAFFO)"

definition isWaffoPancakePayment :: "string \<Rightarrow> bool" where
  "isWaffoPancakePayment paymentType = (paymentType = WAFFO_PANCAKE)"

definition filterVisiblePaymentMethods :: "PaymentMethod list \<Rightarrow> PaymentMethod list" where
  "filterVisiblePaymentMethods methods = filter (\<lambda>m. \<not> isHiddenEpayPayment (pm_type m)) methods"

definition isSubscriptionEpayPaymentMethod :: "string \<Rightarrow> bool" where
  "isSubscriptionEpayPaymentMethod paymentType =
     (paymentType \<noteq> [] \<and> \<not> isHiddenEpayPayment paymentType \<and> \<not> isStripePayment paymentType \<and>
      \<not> isCreemPayment paymentType \<and> \<not> isAlipayDirectPayment paymentType \<and>
      \<not> isWechatDirectPayment paymentType \<and> \<not> isWaffoPayment paymentType \<and>
      \<not> isWaffoPancakePayment paymentType)"

datatype WalletPaymentDispatch = Stripe | Alipay_Direct | Wechat_Direct | Waffo_Pancake | Standard_Form

definition getWalletPaymentDispatch :: "string \<Rightarrow> WalletPaymentDispatch" where
  "getWalletPaymentDispatch paymentType =
     (if isStripePayment paymentType then Stripe
      else if isAlipayDirectPayment paymentType then Alipay_Direct
      else if isWechatDirectPayment paymentType then Wechat_Direct
      else if isWaffoPancakePayment paymentType then Waffo_Pancake
      else Standard_Form)"

subsection \<open>Reading the settings\<close>

definition str_or :: "jsval \<Rightarrow> string \<Rightarrow> string" where
  "str_or v d = (case v of JStr s \<Rightarrow> s | _ \<Rightarrow> d)"

definition str_opt :: "jsval \<Rightarrow> string option" where
  "str_opt v = (case v of JStr s \<Rightarrow> Some s | _ \<Rightarrow> None)"

definition parseJsonArray :: "jsval \<Rightarrow> jsval list" where
  "parseJsonArray data =
     (case data of
        JArr vs \<Rightarrow> vs
      | JStr s \<Rightarrow> (case json_parse s of Some (JArr vs) \<Rightarrow> vs | _ \<Rightarrow> [])
      | _ \<Rightarrow> [])"

definition read_method :: "jsnum \<Rightarrow> jsval \<Rightarrow> PaymentMethod option" where
  "read_method stripeMinTopup item =
     (case js_Number (js_get item ''min_topup'') of
        None \<Rightarrow> None
      | Some rawMinTopup \<Rightarrow>
          let normalizedMinTopup = (if isFinite rawMinTopup then rawMinTopup else Fin 0);
              ty = str_or (js_get item ''type'') []
          in Some \<lparr>pm_name = str_or (js_get item ''name'') [],
               pm_type = ty,
               pm_color = str_opt (js_get item ''color''),
               pm_min_topup = Some (if ty = STRIPE \<and> \<not> positive normalizedMinTopup then stripeMinTopup
                                    else normalizedMinTopup),
               pm_icon = None\<rparr>)"

definition parsePaymentMethods :: "jsval \<Rightarrow> jsnum \<Rightarrow> PaymentMethod list option" where
  "parsePaymentMethods data stripeMinTopup =
     map_option
       (\<lambda>ms. filter (\<lambda>m. \<not> isHiddenEpayPayment (pm_type m))
          (filter (\<lambda>m. pm_name m \<noteq> [] \<and> pm_type m \<noteq> [] \<and> pm_type m \<noteq> WAFFO) ms))
       (those (map (read_method stripeMinTopup) (filter is_object (parseJsonArray data))))"

definition parseWaffoPayMethods :: "jsval \<Rightarrow> WaffoPayMethod list" where
  "parseWaffoPayMethods data =
     filter (\<lambda>m. wm_name m \<noteq> [])
       (map (\<lambda>item. \<lparr>wm_name = str_or (js_get item ''name'') [],
                     wm_icon = str_opt (js_get item ''icon''),
                     wm_payMethodType = str_opt (js_get item ''payMethodType''),
                     wm_payMethodName = str_opt (js_get item ''payMethodName'')\<rparr>)
          (filter is_object (parseJsonArray data)))"

definition read_product :: "jsval \<Rightarrow> CreemProduct option" where
  "read_product item =
     (case js_Number (js_get item ''price'') of
        None \<Rightarrow> None
      | Some price \<Rightarrow>
          (case js_Number (js_get item ''quota'') of
             None \<Rightarrow> None
           | Some quota \<Rightarrow>
               Some \<lparr>cp_name = str_or (js_get item ''name'') [],
                 cp_productId = str_or (js_get item ''productId'') [],
                 cp_price = num_or (Some price) (Fin 0),
                 cp_quota = num_or (Some quota) (Fin 0),
                 cp_currency = (if js_get item ''currency'' = JStr ''EUR'' then EUR else USD)\<rparr>))"

definition parseCreemProducts :: "jsval \<Rightarrow> CreemProduct list option" where
  "parseCreemProducts data =
     map_option (filter (\<lambda>p. cp_name p \<noteq> [] \<and> cp_productId p \<noteq> []))
       (those (map read_product (filter is_object (parseJsonArray data))))"

definition parseAmountOptions :: "jsval \<Rightarrow> jsnum list option" where
  "parseAmountOptions data =
     map_option (filter (\<lambda>n. isFinite n \<and> positive n)) (those (map js_Number (parseJsonArray data)))"

text \<open>One entry of the discount table is stored under the text of the number its key denotes.\<close>

definition put_discount :: "num_record \<Rightarrow> string \<times> jsval \<Rightarrow> num_record option" where
  "put_discount result entry =
     (case entry of (key, v) \<Rightarrow>
        let numericKey = number_of_string key in
        case js_Number v of
          None \<Rightarrow> None
        | Some numericValue \<Rightarrow>
            if isFinite numericKey \<and> isFinite numericValue then Some (result(num_text numericKey \<mapsto> numericValue))
            else Some result)"

fun put_discounts :: "num_record \<Rightarrow> props \<Rightarrow> num_record option" where
  "put_discounts result [] = Some result"
| "put_discounts result (e # es) =
     (case put_discount result e of None \<Rightarrow> None | Some result' \<Rightarrow> put_discounts result' es)"

definition parseDiscountMap :: "jsval \<Rightarrow> num_record option" where
  "parseDiscountMap data =
     (if \<not> truthy data then Some Map.empty
      else
        let parsedData = (case data of
             JStr s \<Rightarrow> (case json_parse s of None \<Rightarrow> JNull | Some v \<Rightarrow> v)
           | _ \<Rightarrow> data) in
        case parsedData of JObj ps \<Rightarrow> put_discounts Map.empty ps | _ \<Rightarrow> Some Map.empty)"


subsection \<open>Amounts\<close>

definition getDefaultPaymentType :: "TopupInfo option \<Rightarrow> string" where
  "getDefaultPaymentType topupInfo =
     (case topupInfo of
        None \<Rightarrow> DEFAULT_PAYMENT_TYPE
      | Some info \<Rightarrow>
          (case pay_methods info of
             m # _ \<Rightarrow> pm_type m
           | [] \<Rightarrow>
               if enable_stripe_topup info then STRIPE
               else if enable_waffo_topup info then WAFFO
               else if enable_waffo_pancake_topup info then WAFFO_PANCAKE
               else DEFAULT_PAYMENT_TYPE))"

definition usable :: "jsnum \<Rightarrow> bool" where
  "usable n = (isFinite n \<and> positive n)"

definition standardMinimums :: "TopupInfo \<Rightarrow> jsnum list" where
  "standardMinimums info =
     filter usable
       ((if enable_online_topup info then [min_topup info] else []) @
        filter usable (map (\<lambda>m. case pm_min_topup m of None \<Rightarrow> NaN | Some n \<Rightarrow> n) (pay_methods info)))"

definition getMinTopupAmount :: "TopupInfo option \<Rightarrow> jsnum" where
  "getMinTopupAmount topupInfo =
     (case topupInfo of
        None \<Rightarrow> DEFAULT_MIN_TOPUP
      | Some info \<Rightarrow>
          if standardMinimums info \<noteq> [] then Math_min (standardMinimums info)
          else if enable_stripe_topup info then stripe_min_topup info
          else if enable_waffo_topup info then num_or (waffo_min_topup info) DEFAULT_MIN_TOPUP
          else if enable_waffo_pancake_topup info then num_or (waffo_pancake_min_topup info) DEFAULT_MIN_TOPUP
          else DEFAULT_MIN_TOPUP)"

definition generatePresetAmounts :: "jsnum \<Rightarrow> PresetAmount list" where
  "generatePresetAmounts minAmount =
     map (\<lambda>multiplier. \<lparr>pa_value = num_times minAmount multiplier, pa_discount = None\<rparr>) DEFAULT_PRESET_MULTIPLIERS"

definition mergePresetAmounts :: "jsnum list \<Rightarrow> num_record \<Rightarrow> PresetAmount list" where
  "mergePresetAmounts amountOptions discounts =
     map (\<lambda>amount. \<lparr>pa_value = amount, pa_discount = Some (num_or (discounts (num_text amount)) (Fin 1))\<rparr>)
       amountOptions"

definition getEffectiveTopupDiscount :: "jsnum \<Rightarrow> num_record \<Rightarrow> jsnum option \<Rightarrow> jsnum" where
  "getEffectiveTopupDiscount amount discounts userTopupDiscount =
     (case userTopupDiscount of
        Some (Fin d) \<Rightarrow> if 0 < d \<and> d < 1 then Fin d else num_or (discounts (num_text amount)) (Fin 1)
      | _ \<Rightarrow> num_or (discounts (num_text amount)) (Fin 1))"

text \<open>\<open>Math.round\<close>, \<open>getDiscountPercent\<close> and \<open>calculatePresetPricing\<close> on finite numbers.\<close>

definition Math_round :: "rat \<Rightarrow> int" where
  "Math_round x = \<lfloor>x + 1 / 2\<rfloor>"

definition getDiscountPercent :: "rat \<Rightarrow> int" where
  "getDiscountPercent d = (if DEFAULT_DISCOUNT_RATE \<le> d then 0 else Math_round ((1 - d) * 100))"

record preset_pricing =
  displayValue :: rat
  originalPrice :: rat
  actualPrice :: rat
  savedAmount :: rat
  hasDiscount :: bool

definition calculatePresetPricing :: "rat \<Rightarrow> rat \<Rightarrow> rat \<Rightarrow> rat \<Rightarrow> preset_pricing" where
  "calculatePresetPricing presetValue priceRatio d usdExchangeRate =
     (let original = presetValue * priceRatio; actual = original * d in
      \<lparr>displayValue = presetValue * usdExchangeRate, originalPrice = original, actualPrice = actual,
       savedAmount = original - actual, hasDiscount = d < 1\<rparr>)"

subsection \<open>The hook\<close>

record topup_hook =
  topupInfo :: "TopupInfo option"
  presetAmounts :: "PresetAmount list"
  loading :: bool

text \<open>\<open>processedData\<close>, None when one of the readers throws.\<close>

definition processed :: "topup_response \<Rightarrow> TopupInfo option" where
  "processed r =
     (case parsePaymentMethods (raw_pay_methods r) (stripe_min_topup r) of
        None \<Rightarrow> None
      | Some methods \<Rightarrow>
          (case parseAmountOptions (raw_amount_options r) of
             None \<Rightarrow> None
           | Some amounts \<Rightarrow>
               (case parseDiscountMap (raw_discount r) of
                  None \<Rightarrow> None
                | Some discounts \<Rightarrow>
                    (case parseCreemProducts (raw_creem_products r) of
                       None \<Rightarrow> None
                     | Some products \<Rightarrow>
                         Some (topup_fields.extend (topup_fields.truncate r)
                           (TopupInfo.fields methods amounts discounts products
                              (parseWaffoPayMethods (raw_waffo_pay_methods r))))))))"

definition fetch_begin :: "topup_hook \<Rightarrow> topup_hook" where
  "fetch_begin h = h\<lparr>loading := True\<rparr>"

text \<open>
  The rest of \<open>fetchTopupInfo\<close> on the answer of the server: None when the request rejects,
  else the success flag and the data.
\<close>

definition fetchTopupInfo :: "(bool \<times> topup_response option) option \<Rightarrow> topup_hook \<Rightarrow> topup_hook" where
  "fetchTopupInfo answer h =
     (case answer of
        Some (True, Some r) \<Rightarrow>
          (case processed r of
             None \<Rightarrow> h
           | Some info \<Rightarrow>
               h\<lparr>topupInfo := Some info,
                 presetAmounts :=
                   (if amount_options info \<noteq> [] then mergePresetAmounts (amount_options info) (discount info)
                    else generatePresetAmounts (getMinTopupAmount (Some info)))\<rparr>)
      | _ \<Rightarrow> h)\<lparr>loading := False\<rparr>"


subsection \<open>Minimum and presets\<close>

lemma usable_iff: "usable n \<longleftrightarrow> (\<exists>r. n = Fin r \<and> 0 < r)"
  by (cases n) (auto simp: usable_def)

lemma foldl_num_min: "list_all usable xs \<Longrightarrow> \<exists>m. foldl num_min (Fin a) xs = Fin m \<and> m \<le> a \<and>
    (m = a \<or> Fin m \<in> set xs) \<and> list_all (\<lambda>x. \<forall>q. x = Fin q \<longrightarrow> m \<le> q) xs"
proof (induction xs arbitrary: a)
  case (Cons x xs)
  then obtain q where q: "x = Fin q" by (auto simp: usable_iff)
  from Cons.IH [of "min a q"] Cons.prems obtain m where
    "foldl num_min (Fin (min a q)) xs = Fin m" "m \<le> min a q" "m = min a q \<or> Fin m \<in> set xs"
    "list_all (\<lambda>x. \<forall>q. x = Fin q \<longrightarrow> m \<le> q) xs" by auto
  with q show ?case by (auto simp: min_def split: if_splits)
qed simp

lemma Math_min_least:
  assumes "list_all usable xs" and "xs \<noteq> []"
  obtains m where "Math_min xs = Fin m" "0 < m" "Fin m \<in> set xs" "\<And>q. Fin q \<in> set xs \<Longrightarrow> m \<le> q"
proof -
  obtain a ys where xs: "xs = Fin a # ys" "0 < a" using assms by (cases xs) (auto simp: usable_iff)
  with assms obtain m where m: "foldl num_min (Fin a) ys = Fin m" "m \<le> a" "m = a \<or> Fin m \<in> set ys"
    "list_all (\<lambda>x. \<forall>q. x = Fin q \<longrightarrow> m \<le> q) ys" using foldl_num_min [of ys a] by auto
  moreover have "0 < m" using m(3) xs assms(1) by (auto simp: list_all_iff usable_iff)
  ultimately show thesis
    using that [of m] xs by (auto simp: Math_min_def list_all_iff)
qed

lemma standard_usable: "list_all usable (standardMinimums info)"
  unfolding standardMinimums_def list_all_iff set_filter by blast

lemma method_in_standard:
  assumes "x \<in> set (pay_methods info)" and "pm_min_topup x = Some (Fin q)" and "0 < q"
  shows "Fin q \<in> set (standardMinimums info)"
  using assms by (force simp: standardMinimums_def usable_iff)

lemma amounts_usable: "parseAmountOptions v = Some ns \<Longrightarrow> list_all usable ns"
  by (auto simp: parseAmountOptions_def list_all_iff usable_def)

lemma processed_fields:
  assumes "processed r = Some info"
  shows "parsePaymentMethods (raw_pay_methods r) (stripe_min_topup r) = Some (pay_methods info)"
    "parseAmountOptions (raw_amount_options r) = Some (amount_options info)"
    "parseDiscountMap (raw_discount r) = Some (discount info)"
    "stripe_min_topup info = stripe_min_topup r" "min_topup info = min_topup r"
    "enable_online_topup info = enable_online_topup r"
  using assms by (auto simp: processed_def topup_fields.defs TopupInfo.defs split: option.splits)

subsection \<open>Discounts\<close>

text \<open>
  The rate the discount table gives an amount: the numeric value of the last entry whose key
  denotes the amount; 1 when there is none or it is 0.
\<close>

definition rate_entry :: "rat \<Rightarrow> string \<times> jsval \<Rightarrow> bool" where
  "rate_entry a e = (number_of_string (fst e) = Fin a \<and>
     (case js_Number (snd e) of None \<Rightarrow> False | Some n \<Rightarrow> isFinite n))"

definition table_rate :: "props \<Rightarrow> rat \<Rightarrow> jsnum" where
  "table_rate ps a = num_or (case find (rate_entry a) (rev ps) of None \<Rightarrow> None | Some e \<Rightarrow> js_Number (snd e)) (Fin 1)"

text \<open>Keys that are numbers with a finite decimal expansion, or no numbers.\<close>

definition decimal_keys :: "props \<Rightarrow> bool" where
  "decimal_keys ps = list_all (\<lambda>e. case number_of_string (fst e) of Fin q \<Rightarrow> dec_rat q | _ \<Rightarrow> True) ps"

lemma rat_text_inject: "dec_rat a \<Longrightarrow> dec_rat b \<Longrightarrow> rat_text a = rat_text b \<longleftrightarrow> a = b"
  using number_of_rat_text by (metis jsnum.inject)

lemma put_discount_lookup:
  assumes "put_discount t e = Some t'" and "decimal_keys [e]" and "dec_rat a"
  shows "t' (rat_text a) = (if rate_entry a e then js_Number (snd e) else t (rat_text a))"
proof -
  obtain k v where e: "e = (k, v)" by force
  show ?thesis
    using assms rat_text_inject [OF assms(3)] unfolding e
    by (cases "number_of_string k")
      (auto simp: put_discount_def rate_entry_def decimal_keys_def Let_def isFinite.simps
        split: option.splits if_splits elim!: isFinite.elims)
qed

lemma put_discounts_lookup:
  assumes "put_discounts t es = Some t'" and "decimal_keys es" and "dec_rat a"
  shows "t' (rat_text a) = (case find (rate_entry a) (rev es) of None \<Rightarrow> t (rat_text a) | Some e \<Rightarrow> js_Number (snd e))"
  using assms(1,2)
proof (induction es arbitrary: t)
  case (Cons e es)
  then obtain u where u: "put_discount t e = Some u" "put_discounts u es = Some t'"
    by (auto split: option.splits)
  have "u (rat_text a) = (if rate_entry a e then js_Number (snd e) else t (rat_text a))"
    by (rule put_discount_lookup [OF u(1) _ assms(3)]) (use Cons.prems in \<open>simp add: decimal_keys_def\<close>)
  moreover have "decimal_keys es" using Cons.prems(2) by (simp add: decimal_keys_def)
  ultimately show ?case
    using Cons.IH [OF u(2)] by (simp add: find_append split: option.splits)
qed simp


subsection \<open>Properties\<close>

lemma preset_values: "map pa_value (generatePresetAmounts (Fin m)) = map (\<lambda>k. Fin (m * k)) DEFAULT_PRESET_MULTIPLIERS"
  by (simp add: generatePresetAmounts_def)

lemma merge_values: "map pa_value (mergePresetAmounts ns t) = ns"
  by (simp add: mergePresetAmounts_def comp_def)

text \<open>
  The price card of a preset adds up and stays in range: the price paid and the amount
  saved make the original price, none is negative for a rate up to 1, the percentage shown is
  between 0 and 100, and a percentage is shown only for a rate below 1.
\<close>

lemma preset_pricing_bounds:
  assumes "0 \<le> presetValue" and "0 \<le> priceRatio" and "0 \<le> d"
  shows "let p = calculatePresetPricing presetValue priceRatio d usdExchangeRate in
    0 \<le> actualPrice p \<and> actualPrice p + savedAmount p = originalPrice p \<and>
    (d \<le> 1 \<longrightarrow> 0 \<le> savedAmount p \<and> savedAmount p \<le> originalPrice p) \<and>
    0 \<le> getDiscountPercent d \<and> getDiscountPercent d \<le> 100 \<and> (0 < getDiscountPercent d \<longrightarrow> hasDiscount p)"
proof -
  have o: "0 \<le> presetValue * priceRatio" using assms by simp
  then have "0 \<le> presetValue * priceRatio * d" using assms(3) by simp
  moreover have "d \<le> 1 \<Longrightarrow> presetValue * priceRatio * d \<le> presetValue * priceRatio"
    using mult_left_mono [OF _ o, of d 1] by simp
  moreover have "0 \<le> getDiscountPercent d" "getDiscountPercent d \<le> 100"
    using assms(3) by (auto simp: getDiscountPercent_def DEFAULT_DISCOUNT_RATE_def Math_round_def floor_le_iff)
  moreover have "0 < getDiscountPercent d \<Longrightarrow> d < 1"
    by (auto simp: getDiscountPercent_def DEFAULT_DISCOUNT_RATE_def split: if_splits)
  ultimately show ?thesis
    by (simp add: calculatePresetPricing_def Let_def)
qed

definition sample_response :: topup_response where
  "sample_response = \<lparr>enable_online_topup = True, enable_stripe_topup = False, min_topup = Fin 10,
     stripe_min_topup = Fin 1, relation_topup_discount = None, enable_waffo_topup = False, waffo_min_topup = None,
     enable_waffo_pancake_topup = False, waffo_pancake_min_topup = None,
     raw_pay_methods = JArr [JObj [(''name'', JStr ''WeChat''), (''type'', JStr ''wechat_direct''), (''min_topup'', JStr ''2'')],
                             JObj [(''name'', JStr ''Epay''), (''type'', JStr ''alipay'')], JNull],
     raw_amount_options = JUndefined,
     raw_discount = JObj [(''50'', JNum (Fin (9 / 10))), (''5e1'', JStr ''0.8''), (''x'', JNum (Fin 1))],
     raw_creem_products = JUndefined, raw_waffo_pay_methods = JUndefined\<rparr>"

lemma sample_processed:
  "processed sample_response \<noteq> None" "amount_options (the (processed sample_response)) = []"
  "standardMinimums (the (processed sample_response)) = [Fin 10, Fin 2]"
  "getMinTopupAmount (processed sample_response) = Fin 2"
  unfolding sample_response_def by code_simp+

text \<open>
  C31. When the server names an amount option or a usable minimum, the wallet offers amounts
  and each of them is a finite positive number.  Without amount options the offer is the
  least usable minimum times the fixed multipliers, and that minimum is positive and not above
  the minimum of any payment method.
\<close>

theorem topup_presets_bounds:
  assumes "processed r = Some info" and "amount_options info \<noteq> [] \<or> standardMinimums info \<noteq> []"
  shows "let ps = presetAmounts (fetchTopupInfo (Some (True, Some r)) h) in
    ps \<noteq> [] \<and> list_all (\<lambda>p. usable (pa_value p)) ps \<and>
    (amount_options info = [] \<longrightarrow>
      (\<exists>m. getMinTopupAmount (Some info) = Fin m \<and> 0 < m \<and>
        map pa_value ps = map (\<lambda>k. Fin (m * k)) DEFAULT_PRESET_MULTIPLIERS \<and>
        (\<forall>x \<in> set (pay_methods info). \<forall>q > 0. pm_min_topup x = Some (Fin q) \<longrightarrow> m \<le> q)))"
proof (cases "amount_options info = []")
  case True
  with assms(2) obtain m where m: "Math_min (standardMinimums info) = Fin m" "0 < m"
    "\<And>q. Fin q \<in> set (standardMinimums info) \<Longrightarrow> m \<le> q"
    using Math_min_least [OF standard_usable] by blast
  then have "getMinTopupAmount (Some info) = Fin m"
    using True assms(2) by (simp add: getMinTopupAmount_def)
  moreover have "list_all (\<lambda>p. usable (pa_value p)) (generatePresetAmounts (Fin m))"
    using m(2) by (simp add: generatePresetAmounts_def DEFAULT_PRESET_MULTIPLIERS_def usable_def)
  ultimately show ?thesis
    using True assms m method_in_standard [of _ info]
    by (simp add: fetchTopupInfo_def Let_def preset_values) (simp add: generatePresetAmounts_def DEFAULT_PRESET_MULTIPLIERS_def)
next
  case False
  have "list_all usable (map pa_value (mergePresetAmounts (amount_options info) (discount info)))"
    unfolding merge_values using processed_fields(2) [OF assms(1)] by (rule amounts_usable)
  with False assms(1) show ?thesis
    by (simp add: fetchTopupInfo_def Let_def list.pred_map comp_def) (simp add: mergePresetAmounts_def)
qed

theorem topup_presets_bounds_witness:
  "list_all (\<lambda>p. usable (pa_value p)) (presetAmounts (fetchTopupInfo (Some (True, Some sample_response))
     \<lparr>topupInfo = None, presetAmounts = [], loading = True\<rparr>)) \<and>
   pa_value (hd (presetAmounts (fetchTopupInfo (Some (True, Some sample_response))
     \<lparr>topupInfo = None, presetAmounts = [], loading = True\<rparr>))) = Fin 2"
proof -
  obtain info where i: "processed sample_response = Some info" using sample_processed(1) by blast
  show ?thesis
    using topup_presets_bounds [OF i, of "\<lparr>topupInfo = None, presetAmounts = [], loading = True\<rparr>"]
      sample_processed(2-4)
    by (simp add: i Let_def fetchTopupInfo_def generatePresetAmounts_def DEFAULT_PRESET_MULTIPLIERS_def)
qed

lemma json_parse_Nil: "json_parse [] = None"
  by code_simp

text \<open>
  C29. The discount of an amount is the user's own if that is between 0 and 1, and otherwise that of the
  server's table, however the keys of the table are written: for a table given as an object or as
  JSON text, whose keys are finite decimals or no numbers, the rate of an amount is the value of
  the last entry whose key denotes that number, 1 when there is none or when the value is 0.  The
  preset of that amount carries the rate of the table.
\<close>

theorem topup_discount_lookup:
  assumes "processed r = Some info"
    and "raw_discount r = JObj ps \<or> (\<exists>s. raw_discount r = JStr s \<and> json_parse s = Some (JObj ps))"
    and "decimal_keys ps" and "dec_rat a"
  shows "getEffectiveTopupDiscount (Fin a) (discount info) own =
      (case own of Some (Fin d) \<Rightarrow> if 0 < d \<and> d < 1 then Fin d else table_rate ps a | _ \<Rightarrow> table_rate ps a) \<and>
    (Fin a \<in> set (amount_options info) \<longrightarrow>
      \<lparr>pa_value = Fin a, pa_discount = Some (table_rate ps a)\<rparr>
        \<in> set (presetAmounts (fetchTopupInfo (Some (True, Some r)) h)))"
proof -
  have "put_discounts Map.empty ps = Some (discount info)"
    using processed_fields(3) [OF assms(1)] assms(2) json_parse_Nil
    by (auto simp: parseDiscountMap_def split: if_splits)
  from put_discounts_lookup [OF this assms(3,4)]
  have rate: "num_or (discount info (rat_text a)) (Fin 1) = table_rate ps a"
    by (simp add: table_rate_def split: option.split)
  moreover have "presetAmounts (fetchTopupInfo (Some (True, Some r)) h) = mergePresetAmounts (amount_options info) (discount info)"
    if "Fin a \<in> set (amount_options info)"
    using that assms(1) by (auto simp: fetchTopupInfo_def)
  ultimately show ?thesis
    by (auto simp: getEffectiveTopupDiscount_def mergePresetAmounts_def image_iff split: option.split jsnum.split)
qed

theorem topup_discount_lookup_witness:
  "getEffectiveTopupDiscount (Fin 50) (discount (the (processed sample_response))) None = Fin (8 / 10) \<and>
   getEffectiveTopupDiscount (Fin 50) (discount (the (processed sample_response))) (Some (Fin (1 / 2))) = Fin (1 / 2)"
proof -
  have "processed sample_response = Some (the (processed sample_response))" using sample_processed(1) by simp
  moreover have "raw_discount sample_response =
      JObj [(''50'', JNum (Fin (9 / 10))), (''5e1'', JStr ''0.8''), (''x'', JNum (Fin 1))]"
    by (simp add: sample_response_def)
  moreover have "decimal_keys [(''50'', JNum (Fin (9 / 10))), (''5e1'', JStr ''0.8''), (''x'', JNum (Fin 1))]"
    "dec_rat 50" "table_rate [(''50'', JNum (Fin (9 / 10))), (''5e1'', JStr ''0.8''), (''x'', JNum (Fin 1))] 50 = Fin (8 / 10)"
    by code_simp+
  ultimately show ?thesis
    using topup_discount_lookup [of sample_response _ _ 50 None] topup_discount_lookup [of sample_response _ _ 50 "Some (Fin (1 / 2))"]
    by simp
qed

end
