(* ===== verification/Wallet_Account.thy ===== *)
theory Wallet_Account
  imports Topup_Info Transitions
begin

section \<open>Wallet account: commission, withdrawal, contract\<close>

text \<open>
  The hook of the wallet account (\<open>features/wallet/hooks/use-wallet-account.ts\<close>), its loader
  (\<open>lib/wallet-account-loader.ts\<close>) and the amounts of a withdrawal order
  (\<open>lib/piggy-withdraw-amounts.ts\<close>).  The server's answers are inputs: None for a request
  that rejects, else an \<open>ApiResponse\<close>.  Payloads the hook only stores are \<^typ>\<open>jsval\<close>s.
  Each operation is the whole handler, run to its end on the answers to its requests; it gives
  its result, the messages it shows and the new state.  The tax estimate, which several calls
  may race for, is a machine of its own.
\<close>

subsection \<open>State\<close>

record 'a ApiResponse =
  ar_success :: "bool option"
  ar_message :: "string option"
  ar_data :: "'a option"

definition ok_data :: "'a ApiResponse \<Rightarrow> 'a option" where
  "ok_data r = (if ar_success r = Some True then ar_data r else None)"

text \<open>\<open>response.success || response.message === 'success'\<close>, and \<open>response.message || d\<close>.\<close>

definition accepted :: "'a ApiResponse \<Rightarrow> bool" where
  "accepted r = (ar_success r = Some True \<or> ar_message r = Some ''success'')"

definition message_or :: "'a ApiResponse \<Rightarrow> string \<Rightarrow> string" where
  "message_or r d = (case ar_message r of None \<Rightarrow> d | Some m \<Rightarrow> if m = [] then d else m)"

record WalletAccountPayload =
  wp_account :: jsval
  wp_commission_min_withdraw_amount :: "jsnum option"

record WithdrawalEligibility =
  we_need_profile :: bool
  we_need_sign :: bool
  we_profile :: "jsval option"

record PiggySignUrlResponse =
  ps_signed :: "bool option"
  ps_sign_url :: "string option"

record wallet_hook =
  wa_account :: "jsval option"
  withdrawalEligibility :: "WithdrawalEligibility option"
  withdrawalEligibilityLoadFailed :: bool
  withdrawalProfile :: "jsval option"
  minWithdrawAmount :: jsnum
  wa_loading :: bool
  transferring :: bool
  withdrawing :: bool
  profileSaving :: bool
  signing :: bool
  contractPreviewing :: bool
  piggySignUrl :: string

datatype message = Toast_Success string | Toast_Error string

subsection \<open>Loading\<close>

text \<open>
  \<open>loadWalletAccountSequentially\<close> turns a rejected request into null, so each answer reaches
  \<open>fetchWalletAccount\<close> as an option.
\<close>

type_synonym account_answers =
  "WalletAccountPayload ApiResponse option \<times> WithdrawalEligibility ApiResponse option"

definition fetchWalletAccount :: "account_answers \<Rightarrow> wallet_hook \<Rightarrow> bool \<times> wallet_hook" where
  "fetchWalletAccount answers w0 =
     (case answers of (accountResponse, eligibilityResponse) \<Rightarrow>
        let payload = Option.bind accountResponse ok_data;
            w1 = (case payload of
               None \<Rightarrow> w0
             | Some p \<Rightarrow> w0\<lparr>wa_account := Some (wp_account p),
                 minWithdrawAmount := num_or (wp_commission_min_withdraw_amount p) (Fin 0)\<rparr>);
            w2 = (case Option.bind eligibilityResponse ok_data of
               Some e \<Rightarrow>
                 w1\<lparr>withdrawalEligibility := Some e, withdrawalEligibilityLoadFailed := False,
                    withdrawalProfile := we_profile e,
                    piggySignUrl := (if we_need_profile e \<or> \<not> we_need_sign e then [] else piggySignUrl w1)\<rparr>
             | None \<Rightarrow>
                 w1\<lparr>withdrawalEligibility := None, withdrawalEligibilityLoadFailed := True,
                    withdrawalProfile := None, piggySignUrl := []\<rparr>)
        in (payload \<noteq> None, w2\<lparr>wa_loading := False\<rparr>))"

subsection \<open>Operations\<close>

definition transferCommission ::
  "jsval ApiResponse option \<Rightarrow> account_answers \<Rightarrow> wallet_hook \<Rightarrow> bool \<times> message list \<times> wallet_hook" where
  "transferCommission response answers w =
     (case response of
        None \<Rightarrow> (False, [Toast_Error ''Transfer failed''], w\<lparr>transferring := False\<rparr>)
      | Some r \<Rightarrow>
          if accepted r
          then (True, [Toast_Success ''Transfer successful''],
                (snd (fetchWalletAccount answers w))\<lparr>transferring := False\<rparr>)
          else (False, [Toast_Error (message_or r ''Transfer failed'')], w\<lparr>transferring := False\<rparr>))"

definition submitWithdraw ::
  "jsval ApiResponse option \<Rightarrow> account_answers \<Rightarrow> wallet_hook \<Rightarrow> bool \<times> message list \<times> wallet_hook" where
  "submitWithdraw response answers w =
     (case response of
        None \<Rightarrow> (False, [Toast_Error ''Withdraw request failed''], w\<lparr>withdrawing := False\<rparr>)
      | Some r \<Rightarrow>
          if accepted r
          then (True, [Toast_Success ''Withdraw request submitted''],
                (snd (fetchWalletAccount answers w))\<lparr>withdrawing := False\<rparr>)
          else (False, [Toast_Error (message_or r ''Withdraw request failed'')], w\<lparr>withdrawing := False\<rparr>))"

definition saveWithdrawalProfile ::
  "jsval ApiResponse option \<Rightarrow> account_answers \<Rightarrow> wallet_hook \<Rightarrow> bool \<times> message list \<times> wallet_hook" where
  "saveWithdrawalProfile response answers w =
     (case response of
        None \<Rightarrow> (False, [Toast_Error ''Failed to save withdrawal profile''], w\<lparr>profileSaving := False\<rparr>)
      | Some r \<Rightarrow>
          (case ok_data r of
             Some profile \<Rightarrow>
               (True, [Toast_Success ''Withdrawal profile saved''],
                (snd (fetchWalletAccount answers (w\<lparr>withdrawalProfile := Some profile, piggySignUrl := []\<rparr>)))
                  \<lparr>profileSaving := False\<rparr>)
           | None \<Rightarrow>
               (False, [Toast_Error (message_or r ''Failed to save withdrawal profile'')], w\<lparr>profileSaving := False\<rparr>)))"

definition requestPiggySign ::
  "PiggySignUrlResponse ApiResponse option \<Rightarrow> account_answers \<Rightarrow> wallet_hook \<Rightarrow> bool \<times> message list \<times> wallet_hook" where
  "requestPiggySign response answers w0 =
     (let w = w0\<lparr>piggySignUrl := []\<rparr> in
      case response of
        None \<Rightarrow> (False, [Toast_Error ''Failed to get contract sign URL''], w\<lparr>signing := False\<rparr>)
      | Some r \<Rightarrow>
          (case ok_data r of
             Some d \<Rightarrow>
               if ps_signed d = Some True then
                 (True, [Toast_Success ''Contract already signed''],
                  (snd (fetchWalletAccount answers w))\<lparr>signing := False\<rparr>)
               else (case ps_sign_url d of
                   Some url \<Rightarrow>
                     if url \<noteq> [] then
                       (True, [Toast_Success ''Contract sign QR code generated''], w\<lparr>piggySignUrl := url, signing := False\<rparr>)
                     else (False, [Toast_Error (message_or r ''Failed to get contract sign URL'')], w\<lparr>signing := False\<rparr>)
                 | None \<Rightarrow> (False, [Toast_Error (message_or r ''Failed to get contract sign URL'')], w\<lparr>signing := False\<rparr>))
           | None \<Rightarrow> (False, [Toast_Error (message_or r ''Failed to get contract sign URL'')], w\<lparr>signing := False\<rparr>)))"

definition refreshPiggyContractStatus ::
  "jsval ApiResponse option \<Rightarrow> account_answers \<Rightarrow> wallet_hook \<Rightarrow> bool \<times> message list \<times> wallet_hook" where
  "refreshPiggyContractStatus response answers w =
     (case response of
        None \<Rightarrow> (False, [Toast_Error ''No signed contract found yet''], w\<lparr>signing := False\<rparr>)
      | Some r \<Rightarrow>
          (case ok_data r of
             Some profile \<Rightarrow>
               (True, [Toast_Success ''Contract status refreshed''],
                (snd (fetchWalletAccount answers (w\<lparr>withdrawalProfile := Some profile, piggySignUrl := []\<rparr>)))
                  \<lparr>signing := False\<rparr>)
           | None \<Rightarrow> (False, [Toast_Error (message_or r ''No signed contract found yet'')], w\<lparr>signing := False\<rparr>)))"

subsection \<open>The contract preview window\<close>

record preview_window =
  opener_cleared :: bool
  href :: "string option"
  closed :: bool

text \<open>
  \<open>openPiggyContractPreviewWindow\<close> on whether the browser gave a window and on the answer to
  \<open>loadPreview\<close> (its \<open>preview_url\<close> as payload): the result, the errors reported and the window.
\<close>

definition openPiggyContractPreviewWindow ::
  "bool \<Rightarrow> string ApiResponse option \<Rightarrow> bool \<times> string list \<times> preview_window option" where
  "openPiggyContractPreviewWindow opened response =
     (if \<not> opened then (False, [''Please allow pop-ups to open the contract''], None)
      else
        let win = \<lparr>opener_cleared = True, href = None, closed = False\<rparr> in
        case response of
          None \<Rightarrow> (False, [''Failed to open contract''], Some (win\<lparr>closed := True\<rparr>))
        | Some r \<Rightarrow>
            let previewURL = trim (case ar_data r of None \<Rightarrow> [] | Some u \<Rightarrow> u) in
            if accepted r \<and> previewURL \<noteq> [] then (True, [], Some (win\<lparr>href := Some previewURL\<rparr>))
            else (False,
              [case ar_message r of
                 Some m \<Rightarrow> if m \<noteq> [] \<and> m \<noteq> ''success'' then m else ''Failed to open contract''
               | None \<Rightarrow> ''Failed to open contract''],
              Some (win\<lparr>closed := True\<rparr>)))"


text \<open>The handler behind the button, which a preview under way makes ineffective (the ref and the flag agree).\<close>

definition openPiggyContractPreview ::
  "bool \<Rightarrow> string ApiResponse option \<Rightarrow> wallet_hook \<Rightarrow> bool \<times> message list \<times> wallet_hook" where
  "openPiggyContractPreview opened response w =
     (if contractPreviewing w then (False, [], w)
      else case openPiggyContractPreviewWindow opened response of (success, errors, _) \<Rightarrow>
        (success, map Toast_Error errors, w\<lparr>contractPreviewing := False\<rparr>))"

subsection \<open>The tax estimate\<close>

text \<open>
  \<open>requests\<close> of the estimate that wait for the server are kept with their sequence number and
  amount.  Two history variables: \<open>latestAmount\<close> is the amount last asked for since the last
  clearing, \<open>shownAmount\<close> the one the estimate on screen was computed for.
\<close>

record tax_state =
  taxTrialRequestSeq :: nat
  withdrawTaxTrial :: "jsval option"
  withdrawTaxTrialLoading :: bool
  withdrawTaxTrialError :: string
  taxRequests :: "(nat \<times> jsnum) list"
  latestAmount :: "jsnum option"
  shownAmount :: "jsnum option"

definition tax_init :: tax_state where
  "tax_init = \<lparr>taxTrialRequestSeq = 0, withdrawTaxTrial = None, withdrawTaxTrialLoading = False,
     withdrawTaxTrialError = [], taxRequests = [], latestAmount = None, shownAmount = None\<rparr>"

definition getClearedWithdrawTaxTrialState :: "nat \<Rightarrow> nat \<times> jsval option \<times> bool \<times> string" where
  "getClearedWithdrawTaxTrialState currentRequestSeq = (currentRequestSeq + 1, None, False, [])"

definition clearWithdrawTaxTrial :: "tax_state \<Rightarrow> tax_state" where
  "clearWithdrawTaxTrial s =
     (case getClearedWithdrawTaxTrialState (taxTrialRequestSeq s) of (sq, trial, busy, err) \<Rightarrow>
        s\<lparr>taxTrialRequestSeq := sq, withdrawTaxTrial := trial, withdrawTaxTrialLoading := busy,
          withdrawTaxTrialError := err, latestAmount := None\<rparr>)"

text \<open>\<open>trialWithdrawTax\<close> up to its request, and behind the answer to it.\<close>

definition trialWithdrawTax :: "jsnum \<Rightarrow> tax_state \<Rightarrow> tax_state" where
  "trialWithdrawTax a s =
     (if \<not> isFinite a \<or> \<not> positive a then clearWithdrawTaxTrial s
      else let requestSeq = taxTrialRequestSeq s + 1 in
        s\<lparr>taxTrialRequestSeq := requestSeq, withdrawTaxTrialLoading := True, withdrawTaxTrialError := [],
          taxRequests := taxRequests s @ [(requestSeq, a)], latestAmount := Some a\<rparr>)"

definition trial_settled :: "nat \<times> jsnum \<Rightarrow> jsval ApiResponse option \<Rightarrow> tax_state \<Rightarrow> tax_state" where
  "trial_settled req response s0 =
     (let s = s0\<lparr>taxRequests := filter (\<lambda>q. fst q \<noteq> fst req) (taxRequests s0)\<rparr> in
      if fst req \<noteq> taxTrialRequestSeq s then s
      else (case response of
          None \<Rightarrow> s\<lparr>withdrawTaxTrial := None, withdrawTaxTrialError := ''Tax estimate unavailable''\<rparr>
        | Some r \<Rightarrow>
            (case ok_data r of
               Some d \<Rightarrow> s\<lparr>withdrawTaxTrial := Some d, shownAmount := Some (snd req)\<rparr>
             | None \<Rightarrow> s\<lparr>withdrawTaxTrial := None,
                          withdrawTaxTrialError := message_or r ''Tax estimate unavailable''\<rparr>))
        \<lparr>withdrawTaxTrialLoading := False\<rparr>)"

datatype tax_event = Clear_Trial | Ask_Trial jsnum | Trial_Settles "nat \<times> jsnum" "jsval ApiResponse option"

inductive tax_step :: "tax_state \<Rightarrow> tax_event \<Rightarrow> tax_state \<Rightarrow> bool" where
  tax_clear: "tax_step s Clear_Trial (clearWithdrawTaxTrial s)"
| tax_ask: "tax_step s (Ask_Trial a) (trialWithdrawTax a s)"
| tax_settles: "req \<in> set (taxRequests s) \<Longrightarrow> tax_step s (Trial_Settles req response) (trial_settled req response s)"

definition tax_request_ok :: "tax_state \<Rightarrow> nat \<times> jsnum \<Rightarrow> bool" where
  "tax_request_ok s q = (fst q \<le> taxTrialRequestSeq s \<and> (fst q = taxTrialRequestSeq s \<longrightarrow> latestAmount s = Some (snd q)))"

definition tax_inv :: "tax_state \<Rightarrow> bool" where
  "tax_inv s =
     (distinct (map fst (taxRequests s)) \<and> list_all (tax_request_ok s) (taxRequests s) \<and>
      withdrawTaxTrialLoading s = (taxTrialRequestSeq s \<in> fst ` set (taxRequests s)) \<and>
      (\<not> withdrawTaxTrialLoading s \<and> withdrawTaxTrial s \<noteq> None \<longrightarrow>
         latestAmount s \<noteq> None \<and> shownAmount s = latestAmount s \<and> withdrawTaxTrialError s = []) \<and>
      (withdrawTaxTrialLoading s \<longrightarrow> withdrawTaxTrialError s = []))"

lemma tax_invD:
  assumes "tax_inv s"
  shows "distinct (map fst (taxRequests s))" "\<And>q. q \<in> set (taxRequests s) \<Longrightarrow> tax_request_ok s q"
    "withdrawTaxTrialLoading s \<longleftrightarrow> taxTrialRequestSeq s \<in> fst ` set (taxRequests s)"
    "\<not> withdrawTaxTrialLoading s \<Longrightarrow> withdrawTaxTrial s \<noteq> None \<Longrightarrow>
       latestAmount s \<noteq> None \<and> shownAmount s = latestAmount s \<and> withdrawTaxTrialError s = []"
    "withdrawTaxTrialLoading s \<Longrightarrow> withdrawTaxTrialError s = []"
  using assms unfolding tax_inv_def list_all_iff by blast+

lemma tax_fresh:
  assumes "tax_inv s"
  shows "Suc (taxTrialRequestSeq s) \<notin> fst ` set (taxRequests s)"
    "taxTrialRequestSeq t = Suc (taxTrialRequestSeq s) \<Longrightarrow> list_all (tax_request_ok t) (taxRequests s)"
proof -
  have old: "fst q \<le> taxTrialRequestSeq s" if "q \<in> set (taxRequests s)" for q
    using tax_invD(2) [OF assms that] unfolding tax_request_ok_def by blast
  then show "Suc (taxTrialRequestSeq s) \<notin> fst ` set (taxRequests s)"
    by (metis imageE not_less_eq_eq order_refl)
  show "list_all (tax_request_ok t) (taxRequests s)" if "taxTrialRequestSeq t = Suc (taxTrialRequestSeq s)"
    unfolding list_all_iff tax_request_ok_def that using old by (metis le_SucI not_less_eq_eq order_refl)
qed

lemma tax_inv_clear:
  assumes "tax_inv s"
  shows "tax_inv (clearWithdrawTaxTrial s)"
  using tax_fresh(1) [OF assms] tax_fresh(2) [OF assms, of "clearWithdrawTaxTrial s"] tax_invD(1) [OF assms]
  unfolding tax_inv_def by (simp add: clearWithdrawTaxTrial_def getClearedWithdrawTaxTrialState_def)

lemma tax_inv_ask:
  assumes "tax_inv s"
  shows "tax_inv (trialWithdrawTax a s)"
proof (cases "\<not> isFinite a \<or> \<not> positive a")
  case False
  then have "list_all (tax_request_ok (trialWithdrawTax a s)) (taxRequests s)"
    by (intro tax_fresh(2) [OF assms]) (simp add: trialWithdrawTax_def Let_def)
  moreover have "tax_request_ok (trialWithdrawTax a s) (Suc (taxTrialRequestSeq s), a)"
    using False by (simp add: trialWithdrawTax_def Let_def tax_request_ok_def)
  ultimately show ?thesis
    using tax_fresh(1) [OF assms] tax_invD(1) [OF assms] False
    unfolding tax_inv_def by (simp add: trialWithdrawTax_def Let_def)
qed (use assms in \<open>simp add: trialWithdrawTax_def tax_inv_clear\<close>)

lemma tax_inv_settled:
  assumes "tax_inv s" and "req \<in> set (taxRequests s)"
  shows "tax_inv (trial_settled req response s)"
proof -
  let ?qs = "filter (\<lambda>q. fst q \<noteq> fst req) (taxRequests s)" and ?t = "trial_settled req response s"
  have t: "taxRequests ?t = ?qs" "latestAmount ?t = latestAmount s" "taxTrialRequestSeq ?t = taxTrialRequestSeq s"
    by (simp_all add: trial_settled_def Let_def split: option.split)
  have inv: "distinct (map fst ?qs)" using tax_invD(1) [OF assms(1)] by (rule distinct_map_filter)
  have ok: "list_all (tax_request_ok ?t) ?qs"
    using tax_invD(2) [OF assms(1)] unfolding list_all_iff tax_request_ok_def t by simp
  have mem: "n \<in> fst ` set ?qs \<longleftrightarrow> n \<in> fst ` set (taxRequests s) \<and> n \<noteq> fst req" for n by force
  show ?thesis
  proof (cases "fst req = taxTrialRequestSeq s")
    case True
    then have "latestAmount s = Some (snd req)" "withdrawTaxTrialLoading s"
      using tax_invD(2) [OF assms] tax_invD(3) [OF assms(1)] imageI [OF assms(2), of fst]
      unfolding tax_request_ok_def by simp_all
    then have "withdrawTaxTrial ?t \<noteq> None \<Longrightarrow> shownAmount ?t = latestAmount s \<and> withdrawTaxTrialError ?t = []"
      "\<not> withdrawTaxTrialLoading ?t"
      using True tax_invD(5) [OF assms(1)]
      by (simp_all add: trial_settled_def Let_def split: option.splits)
    with inv ok mem True \<open>latestAmount s = Some (snd req)\<close> show ?thesis
      unfolding tax_inv_def t by simp
  next
    case False
    then have "?t = s\<lparr>taxRequests := ?qs\<rparr>" by (simp add: trial_settled_def Let_def)
    with inv ok mem False tax_invD(3,4,5) [OF assms(1)] show ?thesis
      unfolding tax_inv_def t by simp
  qed
qed

interpretation tax: inductive_invariant tax_step tax_init tax_inv
proof
  show "tax_inv tax_init" by (simp add: tax_inv_def tax_init_def)
  show "tax_inv t" if "tax_inv s" "tax_step s e t" for s e t
    using that(2,1) by cases (simp_all add: tax_inv_clear tax_inv_ask tax_inv_settled)
qed


subsection \<open>Amounts of a withdrawal order\<close>

record PiggyWithdrawAmountLike =
  pw_fee_amount :: "jsnum option"
  pw_actual_amount :: "jsnum option"
  pw_platform_fee_rate :: "jsnum option"
  pw_platform_fee_amount_cents :: "jsnum option"
  pw_tax_before_amount_cents :: "jsnum option"
  pw_pay_amount_cents :: "jsnum option"
  pw_pretax_amount_cents :: "jsnum option"
  pw_after_tax_amount_cents :: "jsnum option"
  pw_individual_tax_cents :: "jsnum option"
  pw_added_tax_cents :: "jsnum option"
  pw_fee_amount_cents :: "jsnum option"

definition isFiniteNumber :: "jsnum option \<Rightarrow> bool" where
  "isFiniteNumber v = (case v of None \<Rightarrow> False | Some n \<Rightarrow> isFinite n)"

definition centsToMoneyAmount :: "jsnum option \<Rightarrow> rat option" where
  "centsToMoneyAmount v = (case v of Some (Fin c) \<Rightarrow> if c \<le> 0 then None else Some (c / 100) | _ \<Rightarrow> None)"

definition nonNegativeCentsToMoneyAmount :: "jsnum option \<Rightarrow> rat option" where
  "nonNegativeCentsToMoneyAmount v = (case v of Some (Fin c) \<Rightarrow> if c < 0 then None else Some (c / 100) | _ \<Rightarrow> None)"

fun firstPositiveCentsToMoneyAmount :: "jsnum option list \<Rightarrow> rat option" where
  "firstPositiveCentsToMoneyAmount [] = None"
| "firstPositiveCentsToMoneyAmount (v # vs) =
     (case centsToMoneyAmount v of Some a \<Rightarrow> Some a | None \<Rightarrow> firstPositiveCentsToMoneyAmount vs)"

definition hasPiggyPlatformFeeSnapshot :: "PiggyWithdrawAmountLike \<Rightarrow> bool" where
  "hasPiggyPlatformFeeSnapshot order =
     (isFiniteNumber (pw_platform_fee_rate order) \<or> isFiniteNumber (pw_platform_fee_amount_cents order))"

definition getPiggyPlatformFeeAmount :: "PiggyWithdrawAmountLike \<Rightarrow> rat option" where
  "getPiggyPlatformFeeAmount order =
     (if \<not> hasPiggyPlatformFeeSnapshot order then None
      else case centsToMoneyAmount (pw_platform_fee_amount_cents order) of None \<Rightarrow> Some 0 | Some a \<Rightarrow> Some a)"

definition getPiggyTaxBeforeAmount :: "PiggyWithdrawAmountLike \<Rightarrow> rat option" where
  "getPiggyTaxBeforeAmount order =
     firstPositiveCentsToMoneyAmount
       [pw_tax_before_amount_cents order, pw_pay_amount_cents order, pw_pretax_amount_cents order]"

definition getPiggyActualReceivedAmount :: "PiggyWithdrawAmountLike \<Rightarrow> jsnum option" where
  "getPiggyActualReceivedAmount order =
     (case centsToMoneyAmount (pw_after_tax_amount_cents order) of Some a \<Rightarrow> Some (Fin a) | None \<Rightarrow> pw_actual_amount order)"

definition getPiggyProviderFeeAmount :: "PiggyWithdrawAmountLike \<Rightarrow> jsnum option" where
  "getPiggyProviderFeeAmount order =
     (case centsToMoneyAmount (pw_fee_amount_cents order) of Some a \<Rightarrow> Some (Fin a) | None \<Rightarrow> pw_fee_amount order)"

text \<open>\<open>Math.max(v ?? 0, 0)\<close> and \<open>+\<close>.\<close>

definition max0 :: "jsnum option \<Rightarrow> jsnum" where
  "max0 v = (case v of None \<Rightarrow> Fin 0 | Some (Fin c) \<Rightarrow> Fin (max c 0) | Some NegInfinity \<Rightarrow> Fin 0 | Some n \<Rightarrow> n)"

fun num_plus :: "jsnum \<Rightarrow> jsnum \<Rightarrow> jsnum" where
  "num_plus (Fin a) (Fin b) = Fin (a + b)"
| "num_plus NaN b = NaN"
| "num_plus a NaN = NaN"
| "num_plus Infinity NegInfinity = NaN"
| "num_plus NegInfinity Infinity = NaN"
| "num_plus Infinity b = Infinity"
| "num_plus a Infinity = Infinity"
| "num_plus NegInfinity b = NegInfinity"
| "num_plus a NegInfinity = NegInfinity"

definition getPiggyTaxDetails :: "PiggyWithdrawAmountLike \<Rightarrow> rat option \<times> rat option \<times> rat option" where
  "getPiggyTaxDetails order =
     (nonNegativeCentsToMoneyAmount (pw_individual_tax_cents order),
      nonNegativeCentsToMoneyAmount (pw_added_tax_cents order),
      nonNegativeCentsToMoneyAmount
        (if isFiniteNumber (pw_individual_tax_cents order) \<or> isFiniteNumber (pw_added_tax_cents order)
         then Some (num_plus (max0 (pw_individual_tax_cents order)) (max0 (pw_added_tax_cents order)))
         else None))"

lemma tax_details_add_up:
  assumes "getPiggyTaxDetails order = (Some i, Some a, t)"
  shows "t = Some (i + a) \<and> 0 \<le> i \<and> 0 \<le> a"
  using assms
  by (auto simp: getPiggyTaxDetails_def nonNegativeCentsToMoneyAmount_def max0_def isFiniteNumber_def
      add_divide_distrib split: option.splits jsnum.splits if_splits)

lemma tax_details_one_part:
  assumes "pw_added_tax_cents order = None" and "pw_individual_tax_cents order = Some (Fin c)"
  shows "getPiggyTaxDetails order = ((if c < 0 then None else Some (c / 100)), None, Some (max c 0 / 100))"
  using assms
  by (simp add: getPiggyTaxDetails_def nonNegativeCentsToMoneyAmount_def max0_def isFiniteNumber_def)

subsection \<open>Properties\<close>

lemma fetch_sign_url:
  "piggySignUrl (snd (fetchWalletAccount answers w)) \<noteq> [] \<Longrightarrow>
   (\<exists>e. withdrawalEligibility (snd (fetchWalletAccount answers w)) = Some e \<and> we_need_sign e \<and> \<not> we_need_profile e)"
  by (auto simp: fetchWalletAccount_def Let_def split: prod.splits option.splits if_splits)

text \<open>
  C21. In whatever order the answers to the tax requests arrive: the loading indicator is on exactly
  while the latest request waits; when it is off, an estimate on screen was computed for the
  amount last asked for, with no error beside it; and the answer to an outdated request changes
  nothing on screen.  While the latest request waits, the estimate of before stays on screen: asking
  for another amount does not clear it.
\<close>

theorem tax_trial_latest:
  assumes "reach tax_step tax_init s"
  shows "(withdrawTaxTrialLoading s \<longleftrightarrow> taxTrialRequestSeq s \<in> fst ` set (taxRequests s)) \<and>
    (\<not> withdrawTaxTrialLoading s \<and> withdrawTaxTrial s \<noteq> None \<longrightarrow>
       latestAmount s \<noteq> None \<and> shownAmount s = latestAmount s \<and> withdrawTaxTrialError s = []) \<and>
    (\<forall>req response. fst req \<noteq> taxTrialRequestSeq s \<longrightarrow>
       trial_settled req response s = s\<lparr>taxRequests := filter (\<lambda>q. fst q \<noteq> fst req) (taxRequests s)\<rparr>) \<and>
    (\<forall>a. isFinite a \<and> positive a \<longrightarrow>
       withdrawTaxTrialLoading (trialWithdrawTax a s) \<and> withdrawTaxTrial (trialWithdrawTax a s) = withdrawTaxTrial s \<and>
       shownAmount (trialWithdrawTax a s) = shownAmount s)"
proof -
  have "trial_settled req response s = s\<lparr>taxRequests := filter (\<lambda>q. fst q \<noteq> fst req) (taxRequests s)\<rparr>"
    if "fst req \<noteq> taxTrialRequestSeq s" for req response
    using that by (simp add: trial_settled_def)
  moreover have "withdrawTaxTrialLoading (trialWithdrawTax a s) \<and> withdrawTaxTrial (trialWithdrawTax a s) = withdrawTaxTrial s \<and>
      shownAmount (trialWithdrawTax a s) = shownAmount s" if "isFinite a" "positive a" for a
    using that by (simp add: trialWithdrawTax_def Let_def)
  ultimately show ?thesis using tax_invD(3,4) [OF tax.inv_reach [OF assms]] by blast
qed

text \<open>Two requests whose answers arrive in the reverse order.\<close>

definition sample_answer :: "rat \<Rightarrow> jsval ApiResponse option" where
  "sample_answer x = Some \<lparr>ar_success = Some True, ar_message = None, ar_data = Some (JNum (Fin x))\<rparr>"

definition sample_tax :: tax_state where
  "sample_tax = trial_settled (1, Fin 100) (sample_answer 8)
     (trial_settled (2, Fin 300) (sample_answer 24) (trialWithdrawTax (Fin 300) (trialWithdrawTax (Fin 100) tax_init)))"

lemma sample_tax_reached: "reach tax_step tax_init sample_tax"
proof -
  have "reach tax_step tax_init (trialWithdrawTax (Fin 300) (trialWithdrawTax (Fin 100) tax_init))"
    by (meson reach_init reach_step tax_ask)
  then have "reach tax_step tax_init
      (trial_settled (2, Fin 300) (sample_answer 24) (trialWithdrawTax (Fin 300) (trialWithdrawTax (Fin 100) tax_init)))"
    by (rule reach_step [where step = tax_step, OF _ tax_settles]) (simp add: trialWithdrawTax_def tax_init_def)
  then show ?thesis
    unfolding sample_tax_def
    by (rule reach_step [where step = tax_step, OF _ tax_settles]) (simp add: trialWithdrawTax_def tax_init_def trial_settled_def
        sample_answer_def ok_data_def)
qed

theorem tax_trial_latest_witness:
  "withdrawTaxTrial sample_tax = Some (JNum (Fin 24)) \<and> shownAmount sample_tax = Some (Fin 300) \<and>
   latestAmount sample_tax = Some (Fin 300)"
  using tax_trial_latest [OF sample_tax_reached]
  by (simp add: sample_tax_def trialWithdrawTax_def tax_init_def trial_settled_def sample_answer_def ok_data_def)

text \<open>
  Opening the contract preview has one of three outcomes: a window that is sent to a
  non-empty address, with success and no error; a window that was opened and is closed again,
  with one error; no window, with one error.  A window never stays open and blank, and it
  never keeps a reference to the page that opened it.
\<close>

theorem contract_preview_outcomes:
  "case openPiggyContractPreviewWindow opened response of (success, errors, win) \<Rightarrow>
     (success \<longleftrightarrow> errors = []) \<and> length errors \<le> 1 \<and>
     (case win of
        None \<Rightarrow> \<not> opened \<and> \<not> success
      | Some w \<Rightarrow> opened \<and> opener_cleared w \<and> closed w = (\<not> success) \<and>
          (if success then (\<exists>u. href w = Some u \<and> u \<noteq> []) else href w = None))"
  by (auto simp: openPiggyContractPreviewWindow_def Let_def split: option.split)

end
