(* ===== verification/Chat_Messages.thy ===== *)
theory Chat_Messages
  imports Js_Number
begin

section \<open>Playground messages\<close>

text \<open>
  The messages of the playground chat (\<open>features/playground/lib/message-utils.ts\<close>,
  \<open>lib/payload-builder.ts\<close>): creating them, separating the reasoning between \<open><think>\<close> tags
  from the visible text, updating the reply while it streams, finishing it, repairing stored
  messages and building the request.  The identifiers \<open>nanoid\<close> makes up are arguments.
\<close>

subsection \<open>Data\<close>

datatype MessageRole = User | Assistant | System

datatype MessageStatus = Loading | Streaming | Complete | Error

record MessageVersion =
  version_id :: string
  content :: string

record message_reasoning =
  reasoning_content :: string
  duration :: rat

record Message =
  key :: string
  from_role :: MessageRole
  versions :: "MessageVersion list"
  sources :: "(string \<times> string) list option"
  reasoning :: "message_reasoning option"
  isReasoningStreaming :: "bool option"
  isReasoningComplete :: "bool option"
  isContentComplete :: "bool option"
  msg_status :: "MessageStatus option"
  errorCode :: "string option"

definition API_REQUEST_ERROR :: string where "API_REQUEST_ERROR = ''Request error occurred''"
definition PARSE_ERROR :: string where "PARSE_ERROR = ''Error parsing response data''"
definition STREAM_START_ERROR :: string where "STREAM_START_ERROR = ''Error establishing connection''"
definition CONNECTION_CLOSED :: string where "CONNECTION_CLOSED = ''Connection closed''"
definition INTERRUPTED :: string where "INTERRUPTED = ''Generation was interrupted''"

subsection \<open>Messages\<close>

definition createMessageVersion :: "string \<Rightarrow> string \<Rightarrow> MessageVersion" where
  "createMessageVersion nanoid c = \<lparr>version_id = nanoid, content = c\<rparr>"

definition getCurrentVersion :: "Message \<Rightarrow> MessageVersion" where
  "getCurrentVersion m = (case versions m of v # _ \<Rightarrow> v | [] \<Rightarrow> \<lparr>version_id = ''default'', content = []\<rparr>)"

definition updateCurrentVersionContent :: "Message \<Rightarrow> string \<Rightarrow> Message" where
  "updateCurrentVersionContent m c = m\<lparr>versions := [(getCurrentVersion m)\<lparr>content := c\<rparr>]\<rparr>"

definition createUserMessage :: "string \<Rightarrow> string \<Rightarrow> string \<Rightarrow> Message" where
  "createUserMessage nanoid nanoid' c =
     \<lparr>key = nanoid, from_role = User, versions = [createMessageVersion nanoid' c], sources = None,
      reasoning = None, isReasoningStreaming = None, isReasoningComplete = None, isContentComplete = None,
      msg_status = None, errorCode = None\<rparr>"

definition createLoadingAssistantMessage :: "string \<Rightarrow> string \<Rightarrow> Message" where
  "createLoadingAssistantMessage nanoid nanoid' =
     \<lparr>key = nanoid, from_role = Assistant, versions = [createMessageVersion nanoid' []], sources = None,
      reasoning = None, isReasoningStreaming = Some False, isReasoningComplete = Some False,
      isContentComplete = Some False, msg_status = Some Loading, errorCode = None\<rparr>"

datatype ContentPart = Text_Part string | Image_Part string

datatype message_content = Plain string | Parts "ContentPart list"

definition buildMessageContent :: "string \<Rightarrow> string list \<Rightarrow> message_content" where
  "buildMessageContent txt imageUrls =
     (let validImages = filter (\<lambda>url. trim url \<noteq> []) imageUrls in
      if validImages = [] then Plain txt
      else Parts (Text_Part txt # map (\<lambda>url. Image_Part (trim url)) validImages))"

fun first_text :: "ContentPart list \<Rightarrow> string" where
  "first_text [] = []"
| "first_text (Text_Part t # ps) = t"
| "first_text (Image_Part u # ps) = first_text ps"

definition getTextContent :: "message_content \<Rightarrow> string" where
  "getTextContent c = (case c of Plain s \<Rightarrow> s | Parts ps \<Rightarrow> first_text ps)"

record ChatCompletionMessage =
  cc_role :: MessageRole
  cc_content :: message_content

definition formatMessageForAPI :: "Message \<Rightarrow> ChatCompletionMessage" where
  "formatMessageForAPI m = \<lparr>cc_role = from_role m, cc_content = Plain (content (getCurrentVersion m))\<rparr>"

definition isValidMessage :: "Message \<Rightarrow> bool" where
  "isValidMessage m =
     (case versions m of
        [] \<Rightarrow> False
      | v # _ \<Rightarrow> \<not> (from_role m = Assistant \<and> trim (content v) = []))"

subsection \<open>Think tags\<close>

definition open_tag :: string where "open_tag = ''<think>''"
definition close_tag :: string where "close_tag = ''</think>''"

text \<open>\<open>s.indexOf(t, pos)\<close>.\<close>

definition index_from :: "string \<Rightarrow> string \<Rightarrow> nat \<Rightarrow> nat option" where
  "index_from t s pos = map_option (\<lambda>i. pos + i) (index_of t (drop pos s))"

definition substring :: "string \<Rightarrow> nat \<Rightarrow> nat \<Rightarrow> string" where
  "substring s i j = take (j - i) (drop i s)"

lemma index_from_Some:
  assumes "index_from t s pos = Some i" and "t \<noteq> []"
  shows "pos \<le> i \<and> i + length t \<le> length s"
proof -
  from assms obtain j where j: "index_of t (drop pos s) = Some j" "i = pos + j" by (auto simp: index_from_def)
  from index_of_Some [OF j(1)] j(2) assms(2) show ?thesis by (cases t) auto
qed

text \<open>The loop of \<open>parseThinkTags\<close>: the visible parts, the reasoning parts, whether a tag is left open.\<close>

function think_loop :: "string \<Rightarrow> nat \<Rightarrow> string list \<Rightarrow> string list \<Rightarrow> string list \<times> string list \<times> bool" where
  "think_loop s currentPos visibleParts reasoningParts =
     (case index_from open_tag s currentPos of
        None \<Rightarrow>
          ((if currentPos < length s then visibleParts @ [drop currentPos s] else visibleParts), reasoningParts, False)
      | Some openPos \<Rightarrow>
          let visibleParts' =
            (if openPos > currentPos then visibleParts @ [substring s currentPos openPos] else visibleParts) in
          case index_from close_tag s (openPos + 7) of
            None \<Rightarrow> (visibleParts', reasoningParts @ [drop (openPos + 7) s], True)
          | Some closePos \<Rightarrow>
              think_loop s (closePos + 8) visibleParts' (reasoningParts @ [substring s (openPos + 7) closePos]))"
  by pat_completeness auto
termination
  by (relation "measure (\<lambda>(s, pos, _). length s - pos)")
    (auto simp: open_tag_def close_tag_def dest!: index_from_Some)

declare think_loop.simps [simp del]

record think_parts =
  visibleContent :: string
  think_reasoning :: string
  hasUnclosedTag :: bool

definition parseThinkTags :: "string \<Rightarrow> think_parts" where
  "parseThinkTags s =
     (if \<not> str_includes s open_tag then \<lparr>visibleContent = s, think_reasoning = [], hasUnclosedTag = False\<rparr>
      else case think_loop s 0 [] [] of (visibleParts, reasoningParts, hasUnclosed) \<Rightarrow>
        \<lparr>visibleContent = trim (concat visibleParts),
         think_reasoning = trim (join [CHR 0x0A, CHR 0x0A] reasoningParts),
         hasUnclosedTag = hasUnclosed\<rparr>)"

subsection \<open>Updating the reply\<close>

definition updateLastAssistantMessage :: "Message list \<Rightarrow> (Message \<Rightarrow> Message) \<Rightarrow> Message list" where
  "updateLastAssistantMessage messages updater =
     (if messages = [] then messages
      else if from_role (last messages) \<noteq> Assistant then messages
      else butlast messages @ [updater (last messages)])"

definition error_text :: "string \<Rightarrow> string" where
  "error_text e = API_REQUEST_ERROR @ '': '' @ e"

definition updateAssistantMessageWithError :: "Message list \<Rightarrow> string \<Rightarrow> string option \<Rightarrow> Message list" where
  "updateAssistantMessageWithError messages errorMessage code =
     updateLastAssistantMessage messages
       (\<lambda>m. (updateCurrentVersionContent m (error_text errorMessage))
          \<lparr>msg_status := Some Error, isReasoningStreaming := Some False,
           errorCode := (if code = Some [] then None else code)\<rparr>)"

definition processStreamingContent :: "Message \<Rightarrow> string option \<Rightarrow> Message" where
  "processStreamingContent m contentChunk =
     (let fullContent = content (getCurrentVersion m) @ (case contentChunk of None \<Rightarrow> [] | Some c \<Rightarrow> c);
          parsed = parseThinkTags fullContent;
          finalReasoning =
            (if think_reasoning parsed \<noteq> [] then Some \<lparr>reasoning_content = think_reasoning parsed, duration = 0\<rparr>
             else reasoning m)
      in (updateCurrentVersionContent m fullContent)
           \<lparr>reasoning := finalReasoning, isReasoningStreaming := Some (hasUnclosedTag parsed)\<rparr>)"

definition str_alt :: "string option \<Rightarrow> string \<Rightarrow> string" where
  "str_alt s d = (case s of None \<Rightarrow> d | Some x \<Rightarrow> if x = [] then d else x)"

lemma str_alt_simps [simp]: "str_alt None d = d" "str_alt (Some []) d = d" "x \<noteq> [] \<Longrightarrow> str_alt (Some x) d = x"
  by (simp_all add: str_alt_def)

definition finalizeMessage :: "Message \<Rightarrow> string option \<Rightarrow> Message" where
  "finalizeMessage m apiReasoningContent =
     (let parsed = parseThinkTags (content (getCurrentVersion m));
          finalReasoning =
            str_alt apiReasoningContent (str_alt (map_option reasoning_content (reasoning m)) (think_reasoning parsed))
      in (updateCurrentVersionContent m (visibleContent parsed))
           \<lparr>reasoning :=
              (if finalReasoning \<noteq> [] then
                 Some \<lparr>reasoning_content = finalReasoning,
                       duration = (case reasoning m of None \<Rightarrow> 0 | Some r \<Rightarrow> duration r)\<rparr>
               else None),
            isReasoningStreaming := Some False\<rparr>)"

subsection \<open>Repairing stored messages\<close>

definition stuck :: "Message \<Rightarrow> bool" where
  "stuck m = (from_role m = Assistant \<and> (msg_status m = Some Loading \<or> msg_status m = Some Streaming))"

text \<open>The position of the last stuck message: the loop runs from the end.\<close>

fun last_stuck :: "Message list \<Rightarrow> nat \<Rightarrow> nat option" where
  "last_stuck messages 0 = None"
| "last_stuck messages (Suc i) = (if stuck (messages ! i) then Some i else last_stuck messages i)"

definition settle_message :: "Message \<Rightarrow> Message" where
  "settle_message m =
     (let finalized = finalizeMessage m None;
          hasContent = trim (content (getCurrentVersion finalized)) \<noteq> [];
          hasReasoning = (case reasoning finalized of None \<Rightarrow> False | Some r \<Rightarrow> trim (reasoning_content r) \<noteq> [])
      in if hasContent \<or> hasReasoning then finalized\<lparr>msg_status := Some Complete, isReasoningStreaming := Some False\<rparr>
         else (updateCurrentVersionContent finalized (error_text INTERRUPTED))
                \<lparr>msg_status := Some Error, isReasoningStreaming := Some False\<rparr>)"

definition sanitizeMessagesOnLoad :: "Message list \<Rightarrow> Message list" where
  "sanitizeMessagesOnLoad messages =
     (case last_stuck messages (length messages) of
        None \<Rightarrow> messages
      | Some targetIndex \<Rightarrow> messages[targetIndex := settle_message (messages ! targetIndex)])"

subsection \<open>The request\<close>

record PlaygroundConfig =
  cfg_model :: string
  cfg_group :: string
  temperature :: "jsnum option"
  top_p :: "jsnum option"
  max_tokens :: "jsnum option"
  frequency_penalty :: "jsnum option"
  presence_penalty :: "jsnum option"
  seed :: "jsnum option"
  cfg_stream :: bool

type_synonym ParameterEnabled = "string \<Rightarrow> bool"

definition config_value :: "PlaygroundConfig \<Rightarrow> string \<Rightarrow> jsnum option" where
  "config_value c k =
     (if k = ''temperature'' then temperature c
      else if k = ''top_p'' then top_p c
      else if k = ''max_tokens'' then max_tokens c
      else if k = ''frequency_penalty'' then frequency_penalty c
      else if k = ''presence_penalty'' then presence_penalty c
      else if k = ''seed'' then seed c
      else None)"

definition parameterKeys :: "string list" where
  "parameterKeys =
     [''temperature'', ''top_p'', ''max_tokens'', ''frequency_penalty'', ''presence_penalty'', ''seed'']"

record ChatCompletionRequest =
  rq_model :: string
  rq_group :: string
  rq_messages :: "ChatCompletionMessage list"
  rq_stream :: bool
  rq_parameters :: "(string \<times> jsnum) list"

definition buildChatCompletionPayload ::
  "Message list \<Rightarrow> PlaygroundConfig \<Rightarrow> ParameterEnabled \<Rightarrow> ChatCompletionRequest" where
  "buildChatCompletionPayload messages config parameterEnabled =
     \<lparr>rq_model = cfg_model config, rq_group = cfg_group config,
      rq_messages = map formatMessageForAPI (filter isValidMessage messages),
      rq_stream = cfg_stream config,
      rq_parameters =
        List.map_filter
          (\<lambda>k. if parameterEnabled k then map_option (\<lambda>v. (k, v)) (config_value config k) else None)
          parameterKeys\<rparr>"


subsection \<open>Segments\<close>

text \<open>
  The reference for the tags: a text cut into visible stretches, closed thoughts and possibly
  an unclosed one at the end.
\<close>

datatype segment = Visible string | Thought string | Unclosed string

fun seg_text :: "segment \<Rightarrow> string" where
  "seg_text (Visible s) = s"
| "seg_text (Thought s) = open_tag @ s @ close_tag"
| "seg_text (Unclosed s) = open_tag @ s"

fun seg_ok :: "segment \<Rightarrow> bool" where
  "seg_ok (Visible s) = (s \<noteq> [] \<and> \<not> str_includes s open_tag)"
| "seg_ok (Thought s) = (\<not> str_includes s close_tag)"
| "seg_ok (Unclosed s) = (\<not> str_includes s close_tag)"

fun visible_part :: "segment \<Rightarrow> string option" where
  "visible_part (Visible s) = Some s"
| "visible_part _ = None"

fun thought_part :: "segment \<Rightarrow> string option" where
  "thought_part (Thought s) = Some s"
| "thought_part (Unclosed s) = Some s"
| "thought_part _ = None"

fun is_unclosed :: "segment \<Rightarrow> bool" where
  "is_unclosed (Unclosed s) = True"
| "is_unclosed _ = False"

definition segments_ok :: "segment list \<Rightarrow> bool" where
  "segments_ok gs = (list_all seg_ok gs \<and> list_all (\<lambda>g. \<not> is_unclosed g) (butlast gs))"

function segments :: "string \<Rightarrow> segment list" where
  "segments s =
     (case index_of open_tag s of
        None \<Rightarrow> if s = [] then [] else [Visible s]
      | Some i \<Rightarrow>
          (if i > 0 then [Visible (take i s)] else []) @
          (case index_of close_tag (drop (i + 7) s) of
             None \<Rightarrow> [Unclosed (drop (i + 7) s)]
           | Some j \<Rightarrow> Thought (take j (drop (i + 7) s)) # segments (drop (i + 7 + j + 8) s)))"
  by pat_completeness auto
termination
  by (relation "measure length") (auto simp: open_tag_def close_tag_def dest!: index_of_Some)

declare segments.simps [simp del]

lemma tag_lengths [simp]: "length open_tag = 7" "length close_tag = 8" "open_tag \<noteq> []" "close_tag \<noteq> []"
  by (simp_all add: open_tag_def close_tag_def)

lemma index_of_split:
  assumes "index_of t s = Some i"
  shows "s = take i s @ t @ drop (i + length t) s"
  using index_of_Some [OF assms] by (metis append_take_drop_id drop_drop add.commute)

lemma index_of_first:
  assumes "index_of t s = Some i" and "t \<noteq> []"
  shows "\<not> str_includes (take i s) t"
  using assms(1)
proof (induction s arbitrary: i)
  case (Cons c s)
  show ?case
  proof (cases "prefix t (c # s)")
    case False
    then obtain j where j: "index_of t s = Some j" "i = Suc j" using Cons.prems by auto
    have "\<not> prefix t (c # take j s)" using False by (metis append_take_drop_id append_Cons prefix_def append_assoc)
    with Cons.IH [OF j(1)] show ?thesis using j(2) by (simp add: str_includes_iff sublist_Cons_right)
  qed (use Cons.prems assms(2) in \<open>simp add: str_includes_iff\<close>)
qed (use assms(2) in \<open>simp split: if_splits\<close>)

lemma segments_text: "concat (map seg_text (segments s)) = s"
proof (induction s rule: segments.induct)
  case (1 s)
  show ?case
  proof (cases "index_of open_tag s")
    case (Some i)
    let ?t = "drop (i + 7) s"
    have s: "take i s @ open_tag @ ?t = s" using index_of_split [OF Some] by simp
    show ?thesis
    proof (cases "index_of close_tag ?t")
      case None
      with Some s show ?thesis by (cases "i = 0") (simp_all add: segments.simps [of s])
    next
      case j: (Some j)
      have "take j ?t @ close_tag @ drop (i + 7 + j + 8) s = ?t"
        using index_of_split [OF j] by (simp add: add.assoc add.commute add.left_commute)
      with 1 [OF Some j] Some j s show ?thesis
        by (cases "i = 0") (simp_all add: segments.simps [of s])
    qed
  qed (simp add: segments.simps [of s])
qed

lemma segments_ok: "segments_ok (segments s)"
proof (induction s rule: segments.induct)
  case (1 s)
  show ?case
  proof (cases "index_of open_tag s")
    case None
    then show ?thesis
      by (simp add: segments.simps [of s] segments_ok_def str_includes_def)
  next
    case (Some i)
    let ?t = "drop (i + 7) s"
    have v: "i > 0 \<Longrightarrow> seg_ok (Visible (take i s))"
      using index_of_first [OF Some] index_of_Some [OF Some] by auto
    show ?thesis
    proof (cases "index_of close_tag ?t")
      case None
      with Some v show ?thesis by (simp add: segments.simps [of s] segments_ok_def str_includes_def)
    next
      case j: (Some j)
      have "seg_ok (Thought (take j ?t))" using index_of_first [OF j] by simp
      with 1 [OF Some j] Some j v show ?thesis
        by (cases "i = 0") (simp_all add: segments.simps [of s] segments_ok_def)
    qed
  qed
qed

lemma think_loop_segments:
  "think_loop s pos vs rs =
     (vs @ List.map_filter visible_part (segments (drop pos s)),
      rs @ List.map_filter thought_part (segments (drop pos s)),
      segments (drop pos s) \<noteq> [] \<and> is_unclosed (last (segments (drop pos s))))"
proof (induction s pos vs rs rule: think_loop.induct)
  case (1 s pos vs rs)
  show ?case
  proof (cases "index_of open_tag (drop pos s)")
    case None
    then show ?thesis
      by (simp add: think_loop.simps [of s pos] segments.simps [of "drop pos s"] index_from_def List.map_filter_def)
  next
    case (Some i)
    show ?thesis
    proof (cases "index_of close_tag (drop (pos + i + 7) s)")
      case None
      with Some show ?thesis
        by (simp add: think_loop.simps [of s pos] segments.simps [of "drop pos s"] index_from_def List.map_filter_def
            substring_def add.assoc add.commute add.left_commute)
    next
      case j: (Some j)
      let ?vs = "if pos + i > pos then vs @ [substring s pos (pos + i)] else vs"
        and ?t = "take j (drop (pos + i + 7) s)" and ?rest = "drop (pos + i + 7 + j + 8) s"
      have seg: "segments (drop pos s) =
          (if i > 0 then [Visible (take i (drop pos s))] else []) @ Thought ?t # segments ?rest"
        using Some j by (simp add: segments.simps [of "drop pos s"] ac_simps)
      have loop: "think_loop s pos vs rs = think_loop s (pos + i + 7 + j + 8) ?vs (rs @ [?t])"
        using Some j by (simp add: think_loop.simps [of s pos] index_from_def substring_def)
      have "think_loop s (pos + i + 7 + j + 8) ?vs (rs @ [?t]) =
         (?vs @ List.map_filter visible_part (segments ?rest), (rs @ [?t]) @ List.map_filter thought_part (segments ?rest),
          segments ?rest \<noteq> [] \<and> is_unclosed (last (segments ?rest)))"
        using 1 [of "pos + i" ?vs "pos + i + 7 + j"] Some j by (simp add: index_from_def substring_def)
      then show ?thesis
        unfolding loop seg by (cases "i = 0") (simp_all add: List.map_filter_simps substring_def)
    qed
  qed
qed


lemma parse_segments:
  "think_reasoning (parseThinkTags s) = trim (join [CHR 0x0A, CHR 0x0A] (List.map_filter thought_part (segments s)))"
  "hasUnclosedTag (parseThinkTags s) \<longleftrightarrow> segments s \<noteq> [] \<and> is_unclosed (last (segments s))"
  "visibleContent (parseThinkTags s) =
     (if str_includes s open_tag then trim (concat (List.map_filter visible_part (segments s))) else s)"
proof -
  have "segments s = (if s = [] then [] else [Visible s])" if "\<not> str_includes s open_tag"
    using that by (simp add: segments.simps [of s] str_includes_def)
  then show
    "think_reasoning (parseThinkTags s) = trim (join [CHR 0x0A, CHR 0x0A] (List.map_filter thought_part (segments s)))"
    "hasUnclosedTag (parseThinkTags s) \<longleftrightarrow> segments s \<noteq> [] \<and> is_unclosed (last (segments s))"
    "visibleContent (parseThinkTags s) =
       (if str_includes s open_tag then trim (concat (List.map_filter visible_part (segments s))) else s)"
    using think_loop_segments [of s 0 "[]" "[]"]
    by (auto simp: parseThinkTags_def List.map_filter_simps split: if_splits)
qed

subsection \<open>Stuck messages\<close>

lemma last_stuck_None: "last_stuck ms n = None \<longleftrightarrow> (\<forall>i < n. \<not> stuck (ms ! i))"
  by (induction n) (auto simp: less_Suc_eq)

lemma last_stuck_Some: "last_stuck ms n = Some i \<Longrightarrow> i < n \<and> stuck (ms ! i) \<and> (\<forall>j. i < j \<and> j < n \<longrightarrow> \<not> stuck (ms ! j))"
  by (induction n) (auto simp: less_Suc_eq split: if_splits)

lemma current_update [simp]:
  "from_role (updateCurrentVersionContent m c) = from_role m" "reasoning (updateCurrentVersionContent m c) = reasoning m"
  "msg_status (updateCurrentVersionContent m c) = msg_status m"
  "getCurrentVersion (updateCurrentVersionContent m c) = (getCurrentVersion m)\<lparr>content := c\<rparr>"
  "updateCurrentVersionContent (updateCurrentVersionContent m c) d = updateCurrentVersionContent m d"
  by (simp_all add: updateCurrentVersionContent_def getCurrentVersion_def)

lemma current_other [simp]:
  "getCurrentVersion (m\<lparr>reasoning := r\<rparr>) = getCurrentVersion m"
  "getCurrentVersion (m\<lparr>isReasoningStreaming := b\<rparr>) = getCurrentVersion m"
  "getCurrentVersion (m\<lparr>msg_status := st\<rparr>) = getCurrentVersion m"
  "updateCurrentVersionContent (m\<lparr>reasoning := r\<rparr>) c = (updateCurrentVersionContent m c)\<lparr>reasoning := r\<rparr>"
  "updateCurrentVersionContent (m\<lparr>isReasoningStreaming := b\<rparr>) c =
     (updateCurrentVersionContent m c)\<lparr>isReasoningStreaming := b\<rparr>"
  "updateCurrentVersionContent (m\<lparr>msg_status := st\<rparr>) c = (updateCurrentVersionContent m c)\<lparr>msg_status := st\<rparr>"
  by (simp_all add: updateCurrentVersionContent_def getCurrentVersion_def)

lemma finalize_fields [simp]: "from_role (finalizeMessage m r) = from_role m" "msg_status (finalizeMessage m r) = msg_status m"
  by (simp_all add: finalizeMessage_def Let_def)

lemma settled [simp]: "\<not> stuck (settle_message m)"
  by (simp add: settle_message_def stuck_def Let_def)

text \<open>When at most the last message is stuck, loading the stored messages leaves none.\<close>

lemma sanitize_settles:
  assumes "list_all (\<lambda>m. \<not> stuck m) (butlast ms)"
  shows "list_all (\<lambda>m. \<not> stuck m) (sanitizeMessagesOnLoad ms)"
proof (cases "last_stuck ms (length ms)")
  case None
  then have "sanitizeMessagesOnLoad ms = ms" by (simp add: sanitizeMessagesOnLoad_def)
  with None show ?thesis by (simp add: last_stuck_None list_all_length)
next
  case (Some i)
  then have i: "i < length ms" "stuck (ms ! i)" using last_stuck_Some by blast+
  have "i = length ms - 1"
  proof (rule ccontr)
    assume "i \<noteq> length ms - 1"
    with i(1) have "i < length (butlast ms)" by simp
    with assms i(2) show False by (auto simp: list_all_length nth_butlast)
  qed
  with Some i(1) have "sanitizeMessagesOnLoad ms = butlast ms @ [settle_message (last ms)]"
    by (cases ms rule: rev_cases) (simp_all add: sanitizeMessagesOnLoad_def)
  with assms show ?thesis by simp
qed

text \<open>
  C14. The playground's split of a reply into visible text and reasoning loses nothing and
  guesses nothing: the reply is the sequence of its segments (visible stretches without an
  opening tag, thoughts and possibly one unclosed thought at the end, without a closing tag),
  the visible text is what the visible stretches hold, the reasoning what the thoughts hold,
  and the reasoning counts as unfinished exactly when the last thought is unclosed.
\<close>

theorem think_tags_partition:
  "concat (map seg_text (segments s)) = s \<and> segments_ok (segments s) \<and>
   visibleContent (parseThinkTags s) =
     (if str_includes s open_tag then trim (concat (List.map_filter visible_part (segments s))) else s) \<and>
   think_reasoning (parseThinkTags s) = trim (join [CHR 0x0A, CHR 0x0A] (List.map_filter thought_part (segments s))) \<and>
   (hasUnclosedTag (parseThinkTags s) \<longleftrightarrow> segments s \<noteq> [] \<and> is_unclosed (last (segments s)))"
  using segments_text segments_ok parse_segments by blast

end
