(* ===== verification/Chat_Stream.thy ===== *)
theory Chat_Stream
  imports Chat_Messages Js_Json Transitions
begin

section \<open>The playground chat: requests and replies\<close>

text \<open>
  The streaming request (\<open>features/playground/hooks/use-stream-request.ts\<close>), the chat handler
  (\<open>hooks/use-chat-handler.ts\<close>) and the page that sends, regenerates, edits and deletes
  messages (\<open>features/playground/index.tsx\<close>, \<open>components/playground-input.tsx\<close>).

  The server-sent event source is a library: it appears through the events it delivers, and
  what is relied on is that a source delivers nothing once it is closed or has ended.
  \<open>liveSources\<close> are the sources that can still deliver; \<open>sseSource\<close> and \<open>streamComplete\<close> are
  the two refs of the hook.  The page shows that a reply is being generated exactly when
  \<open>sseSource\<close> is set.

  Whether requests stream is a field of the configuration, which the page reads and never changes.
  \<open>pendingReplies\<close> counts the requests without streaming whose promise has not settled.
\<close>

subsection \<open>Reading the events\<close>

text \<open>\<open>v?.[0]\<close>; of a text it matters only that its first character is not empty.\<close>

fun at_0 :: "jsval \<Rightarrow> jsval" where
  "at_0 (JArr (v # vs)) = v"
| "at_0 (JObj ps) = obj_get ps ''0''"
| "at_0 (JStr (c # cs)) = JStr [c]"
| "at_0 _ = JUndefined"

text \<open>A text field, None when it is missing or empty; a value of another type is taken as its text.\<close>

definition text_field :: "jsval \<Rightarrow> string \<Rightarrow> string option" where
  "text_field v k = (if truthy (js_get v k) then js_string (js_get v k) else None)"

text \<open>
  A chunk: None when reading it throws, else its reasoning and its content.
\<close>

definition read_chunk :: "string \<Rightarrow> (string option \<times> string option) option" where
  "read_chunk data =
     (case json_parse data of
        None \<Rightarrow> None
      | Some JNull \<Rightarrow> None
      | Some chunk \<Rightarrow>
          let delta = js_get (at_0 (js_get chunk ''choices'')) ''delta'' in
          if truthy delta then Some (text_field delta ''reasoning_content'', text_field delta ''content'')
          else Some (None, None))"

definition error_details :: "string option \<Rightarrow> string \<times> string option" where
  "error_details data =
     (let d = str_alt data API_REQUEST_ERROR in
      case Option.bind (if data = Some [] then None else data) json_parse of
        None \<Rightarrow> (d, None)
      | Some parsed \<Rightarrow>
          let e = js_get parsed ''error'' in
          if truthy e then (str_alt (text_field e ''message'') d, text_field e ''code'') else (d, None))"

subsection \<open>The chat handler\<close>

datatype update_kind = Reasoning_Chunk | Content_Chunk

definition stream_update :: "update_kind \<Rightarrow> string \<Rightarrow> Message \<Rightarrow> Message" where
  "stream_update kind chunk m =
     (if msg_status m = Some Error then m
      else case kind of
        Reasoning_Chunk \<Rightarrow>
          m\<lparr>reasoning := Some \<lparr>reasoning_content = str_alt (map_option reasoning_content (reasoning m)) [] @ chunk, duration = 0\<rparr>,
            isReasoningStreaming := Some True, msg_status := Some Streaming\<rparr>
      | Content_Chunk \<Rightarrow> (processStreamingContent m (Some chunk))\<lparr>msg_status := Some Streaming\<rparr>)"

definition handleStreamUpdate :: "update_kind \<Rightarrow> string \<Rightarrow> Message list \<Rightarrow> Message list" where
  "handleStreamUpdate kind chunk ms = updateLastAssistantMessage ms (stream_update kind chunk)"

definition stream_complete :: "Message \<Rightarrow> Message" where
  "stream_complete m =
     (if msg_status m = Some Complete \<or> msg_status m = Some Error then m
      else (finalizeMessage m None)\<lparr>msg_status := Some Complete\<rparr>)"

definition handleStreamComplete :: "Message list \<Rightarrow> Message list" where
  "handleStreamComplete ms = updateLastAssistantMessage ms stream_complete"

text \<open>What the \<open>try\<close> block of a request without streaming reads off the response: None when that throws,
  Some None without a choice, else the content and the reasoning of the first choice.\<close>

definition read_reply :: "jsval \<Rightarrow> (string option \<times> string option) option option" where
  "read_reply response =
     (if response = JNull \<or> response = JUndefined then None
      else let choice = at_0 (js_get response ''choices'') in
        if \<not> truthy choice then Some None
        else let message = js_get choice ''message''
             in Some (Some (text_field message ''content'', text_field message ''reasoning_content'')))"

text \<open>What its \<open>catch\<close> block reads off the error: the body of the response (undefined without one) and the
  error's own text.\<close>

definition failure_details :: "jsval \<Rightarrow> string option \<Rightarrow> string \<times> string option" where
  "failure_details body own_text =
     (str_alt (text_field body ''message'') (str_alt own_text API_REQUEST_ERROR), text_field (js_get body ''error'') ''code'')"

text \<open>The reply of a request without streaming: the content and the reasoning of its first choice.\<close>

definition non_stream_reply :: "string option \<Rightarrow> string option \<Rightarrow> Message \<Rightarrow> Message" where
  "non_stream_reply c r m =
     (finalizeMessage
        (m\<lparr>versions := [(getCurrentVersion m)\<lparr>content := str_alt c []\<rparr>]\<rparr>) r)
       \<lparr>msg_status := Some Complete\<rparr>"

definition stop_message :: "Message \<Rightarrow> Message" where
  "stop_message m =
     (if msg_status m = Some Loading \<or> msg_status m = Some Streaming
      then (finalizeMessage m None)\<lparr>msg_status := Some Complete\<rparr> else m)"

subsection \<open>The state and the event source\<close>

record chat =
  config_stream :: bool
  messages :: "Message list"
  sseSource :: "nat option"
  streamComplete :: bool
  liveSources :: "nat list"
  nextSource :: nat
  pendingReplies :: nat
  errorToasts :: "string list"
  editingMessageKey :: "string option"

definition chat_init :: "bool \<Rightarrow> Message list \<Rightarrow> chat" where
  "chat_init stream stored = \<lparr>config_stream = stream, messages = sanitizeMessagesOnLoad stored, sseSource = None,
     streamComplete = False, liveSources = [], nextSource = 0, pendingReplies = 0, errorToasts = [],
     editingMessageKey = None\<rparr>"

definition isGenerating :: "chat \<Rightarrow> bool" where
  "isGenerating s = (sseSource s \<noteq> None)"

definition handleStreamError :: "string \<Rightarrow> string option \<Rightarrow> chat \<Rightarrow> chat" where
  "handleStreamError e code s =
     s\<lparr>errorToasts := errorToasts s @ [e], messages := updateAssistantMessageWithError (messages s) e code\<rparr>"

definition closeSource :: "nat \<Rightarrow> chat \<Rightarrow> chat" where
  "closeSource i s = s\<lparr>liveSources := removeAll i (liveSources s), sseSource := None\<rparr>"

definition handleError :: "nat \<Rightarrow> string \<Rightarrow> string option \<Rightarrow> chat \<Rightarrow> chat" where
  "handleError i e code s = (if streamComplete s then s else closeSource i (handleStreamError e code s))"

text \<open>\<open>sendStreamRequest\<close>; \<open>started\<close> says whether \<open>source.stream()\<close> returned or threw.\<close>

definition sendStreamRequest :: "bool \<Rightarrow> chat \<Rightarrow> chat" where
  "sendStreamRequest started s0 =
     (let i = nextSource s0;
          s = s0\<lparr>sseSource := Some i, streamComplete := False, nextSource := i + 1\<rparr>
      in if started then s\<lparr>liveSources := liveSources s @ [i]\<rparr>
         else (handleStreamError STREAM_START_ERROR None s)\<lparr>sseSource := None\<rparr>)"

definition on_update :: "update_kind \<Rightarrow> string option \<Rightarrow> chat \<Rightarrow> chat" where
  "on_update kind chunk s =
     (case chunk of None \<Rightarrow> s | Some c \<Rightarrow> s\<lparr>messages := handleStreamUpdate kind c (messages s)\<rparr>)"

definition on_message :: "nat \<Rightarrow> string \<Rightarrow> chat \<Rightarrow> chat" where
  "on_message i data s =
     (if data = ''[DONE]'' then
        (let s' = closeSource i (s\<lparr>streamComplete := True\<rparr>)
         in s'\<lparr>messages := handleStreamComplete (messages s')\<rparr>)
      else case read_chunk data of
        None \<Rightarrow> handleError i PARSE_ERROR None s
      | Some (r, c) \<Rightarrow> on_update Content_Chunk c (on_update Reasoning_Chunk r s))"

definition on_error :: "nat \<Rightarrow> string option \<Rightarrow> chat \<Rightarrow> chat" where
  "on_error i data s = (case error_details data of (e, code) \<Rightarrow> handleError i e code s)"

text \<open>
  The source ends: it delivers nothing more, and its \<open>readystatechange\<close> listener sees the HTTP
  status.
\<close>

definition on_ended :: "nat \<Rightarrow> nat \<Rightarrow> chat \<Rightarrow> chat" where
  "on_ended i http s0 =
     (let s = s0\<lparr>liveSources := removeAll i (liveSources s0)\<rparr> in
      if http \<noteq> 200 then handleError i (''HTTP '' @ digits_of_nat http @ '': '' @ CONNECTION_CLOSED) None s else s)"

definition stopGeneration :: "chat \<Rightarrow> chat" where
  "stopGeneration s =
     (case sseSource s of
        None \<Rightarrow> s
      | Some i \<Rightarrow> closeSource i s)
     \<lparr>messages := updateLastAssistantMessage (messages s) stop_message\<rparr>"

text \<open>\<open>sendChat\<close>: the request without streaming awaits its response.\<close>

definition sendChat :: "bool \<Rightarrow> chat \<Rightarrow> chat" where
  "sendChat started s =
     (if config_stream s then sendStreamRequest started s else s\<lparr>pendingReplies := pendingReplies s + 1\<rparr>)"

definition reply_failed :: "jsval \<Rightarrow> string option \<Rightarrow> chat \<Rightarrow> chat" where
  "reply_failed body own_text s =
     (case failure_details body own_text of (e, code) \<Rightarrow>
        handleStreamError e code (s\<lparr>pendingReplies := pendingReplies s - 1\<rparr>))"

text \<open>The response arrives; \<open>thrown\<close> is the engine's text of the error that reading a field of null throws.\<close>

definition reply_arrived :: "string \<Rightarrow> jsval \<Rightarrow> chat \<Rightarrow> chat" where
  "reply_arrived thrown response s =
     (case read_reply response of
        None \<Rightarrow> reply_failed JUndefined (Some thrown) s
      | Some choice \<Rightarrow>
          (case choice of
             None \<Rightarrow> s
           | Some (c, r) \<Rightarrow> s\<lparr>messages := updateLastAssistantMessage (messages s) (non_stream_reply c r)\<rparr>)
          \<lparr>pendingReplies := pendingReplies s - 1\<rparr>)"

subsection \<open>The page\<close>

definition handleSendMessage :: "bool \<Rightarrow> (string \<times> string) \<Rightarrow> (string \<times> string) \<Rightarrow> string \<Rightarrow> chat \<Rightarrow> chat" where
  "handleSendMessage started ids ids' txt s =
     sendChat started
       (s\<lparr>messages := messages s @ [createUserMessage (fst ids) (snd ids) txt,
                                   createLoadingAssistantMessage (fst ids') (snd ids')]\<rparr>)"

definition handleRegenerateMessage :: "bool \<Rightarrow> (string \<times> string) \<Rightarrow> string \<Rightarrow> chat \<Rightarrow> chat" where
  "handleRegenerateMessage started ids k s =
     (case find_index (\<lambda>m. key m = k) (messages s) of
        None \<Rightarrow> s
      | Some i \<Rightarrow>
          sendChat started
            (s\<lparr>messages := take i (messages s) @ [createLoadingAssistantMessage (fst ids) (snd ids)]\<rparr>))"

definition edit_message :: "string \<Rightarrow> string \<Rightarrow> Message \<Rightarrow> Message" where
  "edit_message k c m = (if key m = k then m\<lparr>versions := [(getCurrentVersion m)\<lparr>content := c\<rparr>]\<rparr> else m)"

definition applyEdit :: "bool \<Rightarrow> (string \<times> string) \<Rightarrow> string \<Rightarrow> bool \<Rightarrow> chat \<Rightarrow> chat" where
  "applyEdit started ids newContent submit s =
     (case editingMessageKey s of
        None \<Rightarrow> s
      | Some k \<Rightarrow>
          if k = [] then s
          else case find_index (\<lambda>m. key m = k) (messages s) of
            None \<Rightarrow> s
          | Some i \<Rightarrow>
              let updated = map (edit_message k newContent) (messages s);
                  s' = s\<lparr>editingMessageKey := None\<rparr>
              in if \<not> submit \<or> from_role (updated ! i) \<noteq> User then s'\<lparr>messages := updated\<rparr>
                 else sendChat started
                   (s'\<lparr>messages := take (i + 1) updated @ [createLoadingAssistantMessage (fst ids) (snd ids)]\<rparr>))"

definition handleDeleteMessage :: "string \<Rightarrow> chat \<Rightarrow> chat" where
  "handleDeleteMessage k s = s\<lparr>messages := filter (\<lambda>m. key m \<noteq> k) (messages s)\<rparr>"

subsection \<open>The machine\<close>

text \<open>
  \<open>Submit\<close> is the prompt form, which is disabled while a reply is generated; \<open>Suggest\<close> is a
  click on one of the suggestions below it, which is not.  Regenerating, deleting and opening
  the editor go through the action guard; saving an open editor does not.
\<close>

datatype chat_event =
    Submit bool "string \<times> string" "string \<times> string" string
  | Suggest bool "string \<times> string" "string \<times> string" string
  | Regenerate bool "string \<times> string" string
  | Open_Editor "string option"
  | Save_Edit bool "string \<times> string" string bool
  | Delete string
  | Source_Message nat string
  | Source_Error nat "string option"
  | Source_Ended nat nat
  | Reply_Arrived string jsval
  | Reply_Failed jsval "string option"
  | Stop

inductive chat_step :: "chat \<Rightarrow> chat_event \<Rightarrow> chat \<Rightarrow> bool" where
  chat_submit: "\<not> isGenerating s \<Longrightarrow> trim txt \<noteq> [] \<Longrightarrow>
    chat_step s (Submit started ids ids' txt) (handleSendMessage started ids ids' txt s)"
| chat_suggest: "chat_step s (Suggest started ids ids' txt) (handleSendMessage started ids ids' txt s)"
| chat_regenerate: "\<not> isGenerating s \<Longrightarrow>
    chat_step s (Regenerate started ids k) (handleRegenerateMessage started ids k s)"
| chat_open_editor: "k = None \<or> \<not> isGenerating s \<Longrightarrow> chat_step s (Open_Editor k) (s\<lparr>editingMessageKey := k\<rparr>)"
| chat_save_edit: "chat_step s (Save_Edit started ids c submit) (applyEdit started ids c submit s)"
| chat_delete: "\<not> isGenerating s \<Longrightarrow> chat_step s (Delete k) (handleDeleteMessage k s)"
| chat_message: "i \<in> set (liveSources s) \<Longrightarrow> chat_step s (Source_Message i data) (on_message i data s)"
| chat_error: "i \<in> set (liveSources s) \<Longrightarrow> chat_step s (Source_Error i edata) (on_error i edata s)"
| chat_ended: "i \<in> set (liveSources s) \<Longrightarrow> chat_step s (Source_Ended i http) (on_ended i http s)"
| chat_reply: "pendingReplies s > 0 \<Longrightarrow> chat_step s (Reply_Arrived thrown response) (reply_arrived thrown response s)"
| chat_failure: "pendingReplies s > 0 \<Longrightarrow> chat_step s (Reply_Failed body own_text) (reply_failed body own_text s)"
| chat_stop: "chat_step s Stop (stopGeneration s)"


text \<open>The steps of a user who neither clicks a suggestion nor saves an open editor while a reply is generated.\<close>

fun unguarded :: "chat_event \<Rightarrow> bool" where
  "unguarded (Suggest _ _ _ _) = True"
| "unguarded (Save_Edit _ _ _ _) = True"
| "unguarded _ = False"

definition chat_calm_step :: "chat \<Rightarrow> chat_event \<Rightarrow> chat \<Rightarrow> bool" where
  "chat_calm_step s e t = (chat_step s e t \<and> (unguarded e \<longrightarrow> \<not> isGenerating s))"

subsection \<open>No message stays unfinished\<close>

abbreviation settled_all :: "Message list \<Rightarrow> bool" where
  "settled_all ms \<equiv> list_all (\<lambda>m. \<not> stuck m) ms"

definition chat_inv :: "chat \<Rightarrow> bool" where
  "chat_inv s =
     (config_stream s \<and> pendingReplies s = 0 \<and> settled_all (butlast (messages s)) \<and> (sseSource s = None \<longrightarrow> settled_all (messages s)) \<and>
      (\<forall>i \<in> set (liveSources s). sseSource s = Some i) \<and> (liveSources s \<noteq> [] \<longrightarrow> \<not> streamComplete s))"

lemma chat_invD:
  assumes "chat_inv s"
  shows "settled_all (butlast (messages s))" "sseSource s = None \<Longrightarrow> settled_all (messages s)"
    "\<And>i. i \<in> set (liveSources s) \<Longrightarrow> sseSource s = Some i" "liveSources s \<noteq> [] \<Longrightarrow> \<not> streamComplete s"
    "config_stream s" "pendingReplies s = 0"
  using assms unfolding chat_inv_def by blast+

lemma only_live:
  assumes "chat_inv s" and "sseSource s = Some i"
  shows "removeAll i (liveSources s) = []"
proof -
  have "x = i" if "x \<in> set (liveSources s)" for x
    using chat_invD(3) [OF assms(1) that] assms(2) by simp
  then show ?thesis by (simp add: removeAll_filter_not_eq filter_empty_conv)
qed

lemma butlast_update [simp]: "butlast (updateLastAssistantMessage ms f) = butlast ms"
  by (simp add: updateLastAssistantMessage_def)

lemma settled_update:
  assumes "settled_all (butlast ms)" and "\<And>m. \<not> stuck (f m)"
  shows "settled_all (updateLastAssistantMessage ms f)"
  using assms by (cases ms rule: rev_cases) (simp_all add: updateLastAssistantMessage_def stuck_def)

lemma settled_butlast: "settled_all ms \<Longrightarrow> settled_all (butlast ms)"
  by (auto simp: list_all_iff dest: in_set_butlastD)

lemma not_stuck_ended:
  "\<not> stuck (stream_complete m)" "\<not> stuck (stop_message m)" "\<not> stuck (createUserMessage a b c)"
  "\<not> stuck (m'\<lparr>msg_status := Some Error, isReasoningStreaming := x, errorCode := y\<rparr>)"
  by (simp_all add: stream_complete_def stop_message_def stuck_def createUserMessage_def)

lemma error_settles:
  assumes "settled_all (butlast ms)"
  shows "settled_all (updateAssistantMessageWithError ms e c)"
  unfolding updateAssistantMessageWithError_def by (rule settled_update [OF assms not_stuck_ended(4)])

lemma butlast_error [simp]: "butlast (updateAssistantMessageWithError ms e c) = butlast ms"
  by (simp add: updateAssistantMessageWithError_def)

lemma chat_inv_send:
  assumes "settled_all ms" and "\<And>i. i \<notin> set (liveSources s)" and "config_stream s" and "pendingReplies s = 0"
  shows "chat_inv (sendChat started (s\<lparr>messages := ms @ [createLoadingAssistantMessage a b]\<rparr>))"
proof -
  have "liveSources s = []" using assms(2) by (metis list.set_intros(1) neq_Nil_conv)
  moreover have "settled_all (updateAssistantMessageWithError (ms @ [createLoadingAssistantMessage a b]) e c)" for e c
    by (rule error_settles) (use assms(1) in simp)
  ultimately show ?thesis
    using assms by (simp add: sendChat_def sendStreamRequest_def Let_def chat_inv_def handleStreamError_def)
qed

lemma chat_inv_error:
  assumes "chat_inv s" and "i \<in> set (liveSources s)"
  shows "chat_inv (handleError i e c s)" "chat_inv (handleError i e c (s\<lparr>liveSources := removeAll i (liveSources s)\<rparr>))"
proof -
  have "liveSources s \<noteq> []" using assms(2) by (metis empty_iff list.set(1))
  then have "\<not> streamComplete s" by (rule chat_invD(4) [OF assms(1)])
  moreover have "removeAll i (liveSources s) = []" by (rule only_live [OF assms(1) chat_invD(3) [OF assms]])
  ultimately show "chat_inv (handleError i e c s)"
    "chat_inv (handleError i e c (s\<lparr>liveSources := removeAll i (liveSources s)\<rparr>))"
    using error_settles [OF chat_invD(1) [OF assms(1)]] chat_invD(1,5,6) [OF assms(1)]
    by (simp_all add: handleError_def handleStreamError_def closeSource_def chat_inv_def)
qed

lemma chat_inv_update:
  assumes "chat_inv s" and "sseSource s \<noteq> None"
  shows "chat_inv (on_update kind chunk s)" "sseSource (on_update kind chunk s) = sseSource s"
  using assms
  by (auto simp: chat_inv_def on_update_def handleStreamUpdate_def split: option.split)

lemma chat_inv_message:
  assumes "chat_inv s" and "i \<in> set (liveSources s)"
  shows "chat_inv (on_message i data s)"
proof (cases "data = ''[DONE]''")
  case True
  have "removeAll i (liveSources s) = []" by (rule only_live [OF assms(1) chat_invD(3) [OF assms]])
  moreover have "settled_all (handleStreamComplete (messages s))"
    unfolding handleStreamComplete_def by (rule settled_update [OF chat_invD(1) [OF assms(1)] not_stuck_ended(1)])
  ultimately show ?thesis
    using True chat_invD(5,6) [OF assms(1)] by (simp add: on_message_def closeSource_def chat_inv_def settled_butlast)
next
  case False
  have "sseSource s \<noteq> None" using chat_invD(3) [OF assms] by simp
  then show ?thesis
    using False assms
    by (auto simp: on_message_def chat_inv_error chat_inv_update split: option.split)
qed


lemma chat_inv_ended:
  assumes "chat_inv s" and "i \<in> set (liveSources s)"
  shows "chat_inv (on_ended i http s)"
proof -
  have "chat_inv (s\<lparr>liveSources := removeAll i (liveSources s)\<rparr>)"
    using chat_invD(1,2,5,6) [OF assms(1)] only_live [OF assms(1) chat_invD(3) [OF assms]]
    unfolding chat_inv_def by simp
  with chat_inv_error(2) [OF assms] show ?thesis by (simp add: on_ended_def Let_def)
qed

lemma chat_inv_stop:
  assumes "chat_inv s"
  shows "chat_inv (stopGeneration s)"
proof -
  have "settled_all (updateLastAssistantMessage (messages s) stop_message)"
    by (rule settled_update [OF chat_invD(1) [OF assms] not_stuck_ended(2)])
  then have "chat_inv (t\<lparr>messages := updateLastAssistantMessage (messages s) stop_message\<rparr>)"
    if "liveSources t = []" "sseSource t = None" "config_stream t" "pendingReplies t = 0" for t :: chat
    using that chat_invD(1) [OF assms] by (simp add: chat_inv_def)
  moreover have "removeAll i (liveSources s) = []" if "sseSource s = Some i" for i
    using assms that by (rule only_live)
  moreover have "liveSources s = []" if "sseSource s = None"
    using chat_invD(3) [OF assms, of "hd (liveSources s)"] that by (cases "liveSources s") auto
  ultimately show ?thesis
    using chat_invD(5,6) [OF assms] by (simp add: stopGeneration_def closeSource_def split: option.split)
qed

lemma settled_edit: "settled_all ms \<Longrightarrow> settled_all (map (edit_message k c) ms)"
  by (induction ms) (auto simp: edit_message_def stuck_def)

lemma settled_parts: "settled_all ms \<Longrightarrow> settled_all (take n ms)" "settled_all ms \<Longrightarrow> settled_all (filter P ms)"
  by (auto simp: list_all_iff dest: in_set_takeD)

lemma chat_inv_page:
  assumes "chat_inv s" and "\<not> isGenerating s"
  shows "chat_inv (handleSendMessage started ids ids' txt s)" "chat_inv (handleRegenerateMessage started ids k s)"
    "chat_inv (applyEdit started ids c submit s)" "chat_inv (handleDeleteMessage k s)"
proof -
  have idle: "sseSource s = None" using assms(2) by (simp add: isGenerating_def)
  have none: "i \<notin> set (liveSources s)" for i using chat_invD(3) [OF assms(1)] idle by fastforce
  have all: "settled_all (messages s)" using chat_invD(2) [OF assms(1)] idle .
  have same: "chat_inv (s\<lparr>editingMessageKey := None, messages := ms\<rparr>)" if "settled_all ms" for ms
    using assms(1) that idle by (simp add: chat_inv_def settled_butlast)
  show "chat_inv (handleSendMessage started ids ids' txt s)"
    using chat_inv_send [of "messages s @ [createUserMessage (fst ids) (snd ids) txt]" s] all none chat_invD(5,6) [OF assms(1)]
    by (simp add: handleSendMessage_def not_stuck_ended)
  show "chat_inv (handleRegenerateMessage started ids k s)"
    using assms(1) chat_inv_send [OF settled_parts(1) [OF all] none chat_invD(5,6) [OF assms(1)]]
    by (simp add: handleRegenerateMessage_def split: option.split)
  show "chat_inv (handleDeleteMessage k s)"
    using assms(1) settled_parts(2) [OF all] by (simp add: handleDeleteMessage_def chat_inv_def settled_butlast)
  show "chat_inv (applyEdit started ids c submit s)"
  proof -
    have "chat_inv (sendChat started (s\<lparr>editingMessageKey := None,
        messages := take n (map (edit_message k c) (messages s)) @ [createLoadingAssistantMessage a b]\<rparr>))" for n k a b
      using chat_inv_send [OF settled_parts(1) [OF settled_edit [OF all]], of "s\<lparr>editingMessageKey := None\<rparr>"] none
        chat_invD(5,6) [OF assms(1)]
      by simp
    moreover have "chat_inv (s\<lparr>editingMessageKey := None, messages := map (edit_message k c) (messages s)\<rparr>)" for k
      by (rule same [OF settled_edit [OF all]])
    ultimately show ?thesis
      using assms(1) by (simp add: applyEdit_def Let_def split: option.split)
  qed
qed

lemma chat_inv_step:
  assumes "chat_inv s" and "chat_calm_step s e t"
  shows "chat_inv t"
proof -
  have step: "chat_step s e t" and calm: "unguarded e \<Longrightarrow> \<not> isGenerating s"
    using assms(2) by (simp_all add: chat_calm_step_def)
  show ?thesis
    using step
  proof cases
    case (chat_open_editor k)
    then show ?thesis using assms(1) by (simp add: chat_inv_def)
  qed (use assms(1) calm chat_invD(6) [OF assms(1)] in \<open>simp_all add: chat_inv_page chat_inv_message chat_inv_error on_error_def
      chat_inv_ended chat_inv_stop split: prod.split\<close>)
qed

text \<open>What the page starts from: stored messages of which at most the last is unfinished.\<close>

definition stored_ok :: "Message list \<Rightarrow> bool" where
  "stored_ok ms = settled_all (butlast ms)"

interpretation chat: inductive_invariant chat_calm_step "chat_init True stored" "\<lambda>s. stored_ok stored \<longrightarrow> chat_inv s"
  for stored
proof
  show "stored_ok stored \<longrightarrow> chat_inv (chat_init True stored)"
    using sanitize_settles [of stored] by (simp add: stored_ok_def chat_inv_def chat_init_def settled_butlast)
  show "stored_ok stored \<longrightarrow> chat_inv t" if "stored_ok stored \<longrightarrow> chat_inv s" "chat_calm_step s e t" for s e t
    using that chat_inv_step by blast
qed

subsection \<open>Requests without streaming\<close>

definition unstreamed_inv :: "chat \<Rightarrow> bool" where
  "unstreamed_inv s \<longleftrightarrow> \<not> config_stream s \<and> sseSource s = None \<and> liveSources s = []"

lemma unstreamed_send [simp]: "unstreamed_inv s \<Longrightarrow> unstreamed_inv (sendChat started s)"
  by (simp add: unstreamed_inv_def sendChat_def)

lemma unstreamed_fields [simp]: "unstreamed_inv (s\<lparr>messages := ms\<rparr>) = unstreamed_inv s"
  "unstreamed_inv (s\<lparr>editingMessageKey := k\<rparr>) = unstreamed_inv s" "unstreamed_inv (s\<lparr>pendingReplies := n\<rparr>) = unstreamed_inv s"
  "unstreamed_inv (s\<lparr>errorToasts := es\<rparr>) = unstreamed_inv s"
  by (simp_all add: unstreamed_inv_def)

lemma unstreamed_page:
  assumes "unstreamed_inv s"
  shows "unstreamed_inv (handleSendMessage started ids ids' txt s)" "unstreamed_inv (handleRegenerateMessage started ids k s)"
    "unstreamed_inv (applyEdit started ids c submit s)" "unstreamed_inv (handleDeleteMessage k s)"
    "unstreamed_inv (reply_arrived thrown response s)" "unstreamed_inv (reply_failed body own_text s)"
    "unstreamed_inv (stopGeneration s)"
proof -
  have none: "sseSource s = None" using assms by (simp add: unstreamed_inv_def)
  show failed: "unstreamed_inv (reply_failed body own_text s)" for body own_text
    using assms by (simp add: reply_failed_def handleStreamError_def split: prod.split)
  show "unstreamed_inv (stopGeneration s)" using assms none by (simp add: stopGeneration_def)
qed (use assms in \<open>auto simp: handleSendMessage_def handleRegenerateMessage_def applyEdit_def handleDeleteMessage_def
      reply_arrived_def reply_failed_def handleStreamError_def Let_def split: option.split prod.split\<close>)

interpretation unstreamed: inductive_invariant chat_step "chat_init False stored" unstreamed_inv
  for stored
proof
  show "unstreamed_inv (chat_init False stored)" by (simp add: unstreamed_inv_def chat_init_def)
  show "unstreamed_inv t" if "unstreamed_inv s" "chat_step s e t" for s e t
    using that(2,1)
  proof cases
    case (chat_message i data)
    then show ?thesis using that(1) by (simp add: unstreamed_inv_def)
  next
    case (chat_error i data)
    then show ?thesis using that(1) by (simp add: unstreamed_inv_def)
  next
    case (chat_ended i http)
    then show ?thesis using that(1) by (simp add: unstreamed_inv_def)
  qed (simp_all add: unstreamed_page)
qed

lemma reply_settles:
  assumes "last (messages s) = createLoadingAssistantMessage a b" "messages s \<noteq> []"
  shows "stuck (last (messages (reply_arrived thrown response s))) \<longleftrightarrow> read_reply response = Some None"
proof -
  have last: "last (updateLastAssistantMessage (messages s) f) = f (createLoadingAssistantMessage a b)"
    "from_role (createLoadingAssistantMessage a b) = Assistant" "stuck (createLoadingAssistantMessage a b)" for f
    using assms by (simp_all add: updateLastAssistantMessage_def createLoadingAssistantMessage_def stuck_def)
  have "\<not> stuck (non_stream_reply c r m)" for c r m by (simp add: non_stream_reply_def stuck_def)
  moreover have "\<not> stuck (last (updateAssistantMessageWithError (messages s) e code))" for e code
    unfolding updateAssistantMessageWithError_def last(1) by (rule not_stuck_ended(4))
  ultimately show ?thesis
    using assms(1) last
    by (auto simp: reply_arrived_def reply_failed_def handleStreamError_def split: option.split prod.split)
qed

subsection \<open>Streaming and not streaming\<close>

text \<open>The content updates of a reply, chunk by chunk.\<close>

definition stream_contents :: "string list \<Rightarrow> Message \<Rightarrow> Message" where
  "stream_contents chunks m = foldl (\<lambda>m c. stream_update Content_Chunk c m) m chunks"

definition tag_reasoning :: "string \<Rightarrow> message_reasoning option \<Rightarrow> message_reasoning option" where
  "tag_reasoning s r =
     (if think_reasoning (parseThinkTags s) \<noteq> [] then
        Some \<lparr>reasoning_content = think_reasoning (parseThinkTags s), duration = 0\<rparr> else r)"

lemma stream_step:
  assumes "msg_status m \<noteq> Some Error"
  shows "stream_update Content_Chunk c m =
    (updateCurrentVersionContent m (content (getCurrentVersion m) @ c))
      \<lparr>reasoning := tag_reasoning (content (getCurrentVersion m) @ c) (reasoning m),
       isReasoningStreaming := Some (hasUnclosedTag (parseThinkTags (content (getCurrentVersion m) @ c))),
       msg_status := Some Streaming\<rparr>"
  using assms by (simp add: stream_update_def processStreamingContent_def Let_def tag_reasoning_def)

text \<open>The reply behind some chunks: it keeps everything but the fields the stream owns.\<close>

lemma stream_contents_snoc:
  assumes "msg_status m \<noteq> Some Error"
  shows "\<exists>r0. stream_contents (cs @ [c]) m =
    (updateCurrentVersionContent m (content (getCurrentVersion m) @ concat cs @ c))
      \<lparr>reasoning := tag_reasoning (content (getCurrentVersion m) @ concat cs @ c) r0,
       isReasoningStreaming := Some (hasUnclosedTag (parseThinkTags (content (getCurrentVersion m) @ concat cs @ c))),
       msg_status := Some Streaming\<rparr> \<and>
    (\<not> str_includes (content (getCurrentVersion m) @ concat cs @ c) open_tag \<longrightarrow> r0 = reasoning m)"
proof (induction cs arbitrary: c rule: rev_induct)
  case Nil
  show ?case using stream_step [OF assms, of c] by (auto simp: stream_contents_def)
next
  case (snoc d cs)
  let ?t = "content (getCurrentVersion m) @ concat cs @ d"
  from snoc [of d] obtain r0 where r0: "stream_contents (cs @ [d]) m =
      (updateCurrentVersionContent m ?t)\<lparr>reasoning := tag_reasoning ?t r0,
         isReasoningStreaming := Some (hasUnclosedTag (parseThinkTags ?t)), msg_status := Some Streaming\<rparr>"
    "\<not> str_includes ?t open_tag \<longrightarrow> r0 = reasoning m" by blast
  have "tag_reasoning ?t r0 = reasoning m" if "\<not> str_includes (?t @ c) open_tag"
  proof -
    have "\<not> str_includes ?t open_tag"
      using that sublist_order.order_trans [OF _ sublist_appendI, of open_tag ?t "[]" c]
      by (auto simp: str_includes_iff)
    then show ?thesis using r0(2) by (simp add: tag_reasoning_def parseThinkTags_def)
  qed
  moreover have "stream_contents ((cs @ [d]) @ [c]) m = stream_update Content_Chunk c (stream_contents (cs @ [d]) m)"
    by (simp add: stream_contents_def)
  ultimately show ?case
    by (intro exI [of _ "tag_reasoning ?t r0"]) (simp add: r0(1) stream_step)
qed


lemma reply_of_stream:
  assumes "think_reasoning (parseThinkTags (concat chunks)) \<noteq> [] \<or> \<not> str_includes (concat chunks) open_tag"
    and "m = createLoadingAssistantMessage a b"
  shows "stream_complete (stream_contents chunks m) = non_stream_reply (Some (concat chunks)) None m"
proof (cases chunks rule: rev_cases)
  case Nil
  then show ?thesis
    using assms(2)
    by (simp add: stream_contents_def stream_complete_def non_stream_reply_def createLoadingAssistantMessage_def
        str_alt_def getCurrentVersion_def createMessageVersion_def)
next
  case (snoc cs c)
  have m: "msg_status m \<noteq> Some Error" "content (getCurrentVersion m) = []" "reasoning m = None"
    using assms(2) by (simp_all add: createLoadingAssistantMessage_def getCurrentVersion_def createMessageVersion_def)
  let ?s = "concat chunks"
  from stream_contents_snoc [OF m(1), of cs c] snoc m obtain r0 where r0:
    "stream_contents chunks m = (updateCurrentVersionContent m ?s)\<lparr>reasoning := tag_reasoning ?s r0,
       isReasoningStreaming := Some (hasUnclosedTag (parseThinkTags ?s)), msg_status := Some Streaming\<rparr>"
    "\<not> str_includes ?s open_tag \<longrightarrow> r0 = None" by auto
  have whole: "str_alt (Some ?s) [] = ?s"
    "m\<lparr>versions := [(getCurrentVersion m)\<lparr>content := d\<rparr>]\<rparr> = updateCurrentVersionContent m d" for d
    by (simp_all add: str_alt_def updateCurrentVersionContent_def)
  show ?thesis
  proof (cases "think_reasoning (parseThinkTags ?s) = []")
    case True
    with assms(1) r0(2) have "tag_reasoning ?s r0 = None" by (simp add: tag_reasoning_def)
    with True m(3) show ?thesis
      by (simp add: r0(1) stream_complete_def non_stream_reply_def whole finalizeMessage_def Let_def)
  next
    case False
    then have "tag_reasoning ?s r0 = Some \<lparr>reasoning_content = think_reasoning (parseThinkTags ?s), duration = 0\<rparr>"
      by (simp add: tag_reasoning_def)
    with False m(3) show ?thesis
      by (simp add: r0(1) stream_complete_def non_stream_reply_def whole finalizeMessage_def Let_def)
  qed
qed


subsection \<open>Properties\<close>

text \<open>
  C13. How a reply is cut into chunks does not matter: a streamed reply that has reasoning
  between its tags, or no tag at all, ends as exactly the message that the same reply gives
  without streaming, content, reasoning, status and all.
\<close>

theorem stream_matches_whole:
  assumes "think_reasoning (parseThinkTags (concat chunks)) \<noteq> [] \<or> \<not> str_includes (concat chunks) open_tag"
  shows "stream_complete (stream_contents chunks (createLoadingAssistantMessage a b)) =
    non_stream_reply (Some (concat chunks)) None (createLoadingAssistantMessage a b)"
  using assms by (rule reply_of_stream) (rule refl)

theorem stream_matches_whole_witness:
  "stream_complete (stream_contents [''<thi'', ''nk>2+2</th'', ''ink>4''] (createLoadingAssistantMessage ''k'' ''v'')) =
   non_stream_reply (Some ''<think>2+2</think>4'') None (createLoadingAssistantMessage ''k'' ''v'') \<and>
   think_reasoning (parseThinkTags ''<think>2+2</think>4'') = ''2+2''"
proof -
  have "think_reasoning (parseThinkTags ''<think>2+2</think>4'') = ''2+2''" by code_simp
  then show ?thesis
    using stream_matches_whole [of "[''<thi'', ''nk>2+2</th'', ''ink>4'']" "''k''" "''v''"] by simp
qed

lemma empty_thought:
  assumes "\<not> str_includes v open_tag"
  shows "think_reasoning (parseThinkTags (open_tag @ close_tag @ v)) = []"
    "visibleContent (parseThinkTags (open_tag @ close_tag @ v)) = trim v"
proof -
  let ?s = "open_tag @ close_tag @ v"
  have "index_of open_tag ?s = Some 0" "index_of close_tag (close_tag @ v) = Some 0"
    by (simp_all add: open_tag_def close_tag_def index_of.simps)
  moreover have "segments v = (if v = [] then [] else [Visible v])"
    using assms by (subst segments.simps) (simp add: str_includes_def)
  ultimately have "segments ?s = Thought [] # (if v = [] then [] else [Visible v])"
    by (subst segments.simps) simp
  moreover have "str_includes ?s open_tag" by (simp add: str_includes_iff)
  ultimately show "think_reasoning (parseThinkTags ?s) = []" "visibleContent (parseThinkTags ?s) = trim v"
    by (simp_all add: parse_segments map_filter_simps)
qed

lemma tag_fragment:
  assumes "0 < k" "k < length close_tag"
  shows "think_reasoning (parseThinkTags (open_tag @ take k close_tag)) = take k close_tag"
proof -
  have "list_all (\<lambda>k. think_reasoning (parseThinkTags (open_tag @ take k close_tag)) = take k close_tag) [1..<8]"
    by code_simp
  then show ?thesis using assms by (simp add: list_all_iff)
qed

text \<open>
  C25. A reply whose thought is empty is not safe from its chunks: wherever the closing tag is cut
  in two, its first piece, which was taken for reasoning meanwhile, stays as the reasoning of the
  finished message, where the same reply without streaming has none; the contents agree.
\<close>

theorem stream_keeps_tag_fragment:
  assumes "0 < k" "k < length close_tag" "\<not> str_includes v open_tag"
    and "m = createLoadingAssistantMessage a b"
    and "streamed = stream_complete (stream_contents [open_tag @ take k close_tag, drop k close_tag @ v] m)"
    and "whole = non_stream_reply (Some (open_tag @ close_tag @ v)) None m"
  shows "content (getCurrentVersion streamed) = trim v \<and> content (getCurrentVersion whole) = trim v \<and>
    reasoning streamed = Some \<lparr>reasoning_content = take k close_tag, duration = 0\<rparr> \<and> reasoning whole = None"
proof -
  have m: "msg_status m \<noteq> Some Error" "content (getCurrentVersion m) = []" "reasoning m = None"
    using assms(4) by (simp_all add: createLoadingAssistantMessage_def getCurrentVersion_def createMessageVersion_def)
  define p q where pq: "p = take k close_tag" "q = drop k close_tag"
  have piece: "p \<noteq> []" using assms(1) by (auto simp: pq)
  have joined: "p @ q @ v = close_tag @ v" unfolding pq by (metis append.assoc append_take_drop_id)
  note thought = empty_thought [OF assms(3)] tag_fragment [OF assms(1,2), folded pq]
  let ?n = "stream_contents [open_tag @ p, q @ v] m"
  have "content (getCurrentVersion ?n) = open_tag @ close_tag @ v" "msg_status ?n = Some Streaming"
    "reasoning ?n = Some \<lparr>reasoning_content = p, duration = 0\<rparr>"
    using m thought piece by (simp_all add: joined stream_contents_def stream_step tag_reasoning_def)
  then have "content (getCurrentVersion streamed) = trim v" "reasoning streamed = Some \<lparr>reasoning_content = p, duration = 0\<rparr>"
    using thought piece by (simp_all add: assms(5) pq [symmetric] stream_complete_def finalizeMessage_def Let_def)
  moreover have "content (getCurrentVersion whole) = trim v" "reasoning whole = None"
    using m thought by (simp_all add: assms(6) non_stream_reply_def finalizeMessage_def Let_def getCurrentVersion_def updateCurrentVersionContent_def)
  ultimately show ?thesis by (simp add: pq)
qed

theorem stream_keeps_tag_fragment_witness:
  "reasoning (stream_complete (stream_contents [''<think></thi'', ''nk>hi''] (createLoadingAssistantMessage ''k'' ''v''))) =
     Some \<lparr>reasoning_content = ''</thi'', duration = 0\<rparr> \<and>
   reasoning (non_stream_reply (Some ''<think></think>hi'') None (createLoadingAssistantMessage ''k'' ''v'')) = None"
proof -
  have "\<not> str_includes ''hi'' open_tag" by code_simp
  from stream_keeps_tag_fragment [OF _ _ this refl refl refl, of 5 "''k''" "''v''"]
  show ?thesis by (simp add: open_tag_def close_tag_def)
qed

text \<open>
  C12. With streaming, no message is left loading: from stored messages of which at most the last
  is unfinished, while no suggestion is clicked and no editor saved during a generation, every
  reachable state has all its messages finished when no reply is being generated, and reloading
  the page at any moment, also in the middle of a reply, brings up only finished messages.
\<close>

theorem chat_settles:
  assumes "stored_ok stored" and "reach chat_calm_step (chat_init True stored) s"
  shows "(\<not> isGenerating s \<longrightarrow> list_all (\<lambda>m. \<not> stuck m) (messages s)) \<and>
    stored_ok (messages s) \<and> list_all (\<lambda>m. \<not> stuck m) (messages (chat_init stream (messages s)))"
proof -
  have inv: "chat_inv s" using chat.inv_reach [OF assms(2)] assms(1) by blast
  have "messages (chat_init stream (messages s)) = sanitizeMessagesOnLoad (messages s)" by (simp add: chat_init_def)
  then show ?thesis
    using chat_invD(1,2) [OF inv] sanitize_settles [of "messages s"] by (simp add: isGenerating_def stored_ok_def)
qed

definition sample_chunk :: "string \<Rightarrow> string" where
  "sample_chunk s = ''{\"choices\":[{\"delta\":{\"content\":\"'' @ s @ ''\"}}]}''"

lemma sample_chunk_read: "read_chunk (sample_chunk ''A'') = Some (None, Some ''A'')"
  "read_chunk (sample_chunk ''B'') = Some (None, Some ''B'')"
  by code_simp+

lemma content_message:
  assumes "read_chunk data = Some (None, Some c)" and "data \<noteq> ''[DONE]''"
  shows "on_message i data s = s\<lparr>messages := handleStreamUpdate Content_Chunk c (messages s)\<rparr>"
  using assms by (simp add: on_message_def on_update_def)

lemma sample_message:
  "on_message i (sample_chunk ''A'') s = s\<lparr>messages := handleStreamUpdate Content_Chunk ''A'' (messages s)\<rparr>"
  "on_message i (sample_chunk ''B'') s = s\<lparr>messages := handleStreamUpdate Content_Chunk ''B'' (messages s)\<rparr>"
  by (rule content_message, rule sample_chunk_read, simp add: sample_chunk_def)+

definition sample_chat :: chat where
  "sample_chat = on_message 0 (sample_chunk ''A'')
     (handleSendMessage True (''u1'', ''v1'') (''a1'', ''w1'') ''hello'' (chat_init True []))"

lemma sample_chat_reached: "reach chat_calm_step (chat_init True []) sample_chat"
proof -
  have "chat_calm_step (chat_init True []) (Submit True (''u1'', ''v1'') (''a1'', ''w1'') ''hello'')
      (handleSendMessage True (''u1'', ''v1'') (''a1'', ''w1'') ''hello'' (chat_init True []))"
    unfolding chat_calm_step_def by (intro conjI chat_submit) (code_simp, code_simp, simp)
  with reach_init have "reach chat_calm_step (chat_init True [])
      (handleSendMessage True (''u1'', ''v1'') (''a1'', ''w1'') ''hello'' (chat_init True []))" by (rule reach_step)
  then show ?thesis
    unfolding sample_chat_def
    by (rule reach_step [where step = chat_calm_step, where e = "Source_Message 0 (sample_chunk ''A'')"])
      (auto simp: chat_calm_step_def handleSendMessage_def sendChat_def sendStreamRequest_def chat_init_def Let_def
        sanitizeMessagesOnLoad_def intro!: chat_message)
qed

theorem chat_settles_witness:
  "isGenerating sample_chat \<and> \<not> list_all (\<lambda>m. \<not> stuck m) (messages sample_chat) \<and>
   list_all (\<lambda>m. \<not> stuck m) (messages (chat_init True (messages sample_chat)))"
proof -
  have "stored_ok []" by (simp add: stored_ok_def)
  moreover have "isGenerating sample_chat" "\<not> list_all (\<lambda>m. \<not> stuck m) (messages sample_chat)"
    unfolding sample_chat_def by code_simp+
  ultimately show ?thesis using chat_settles [OF _ sample_chat_reached] by blast
qed

text \<open>A prompt, a suggestion clicked while it is answered, and one chunk for each of the two.\<close>

definition two_sent :: chat where
  "two_sent = handleSendMessage True (''u2'', ''v2'') (''a2'', ''w2'') ''Ideas''
     (handleSendMessage True (''u1'', ''v1'') (''a1'', ''w1'') ''hello'' (chat_init True []))"

definition two_chunks :: chat where
  "two_chunks = on_message 1 (sample_chunk ''B'') (on_message 0 (sample_chunk ''A'') two_sent)"

definition earlier :: "Message list" where
  "earlier = [createUserMessage ''u1'' ''v1'' ''hello'', createLoadingAssistantMessage ''a1'' ''w1'',
    createUserMessage ''u2'' ''v2'' ''Ideas'']"

definition second_reply :: Message where
  "second_reply = createLoadingAssistantMessage ''a2'' ''w2''"

lemma two_sent: "messages two_sent = earlier @ [second_reply]" "liveSources two_sent = [0, 1]"
  by (simp_all add: two_sent_def earlier_def second_reply_def handleSendMessage_def sendChat_def sendStreamRequest_def chat_init_def
      Let_def sanitizeMessagesOnLoad_def)

lemma reply_role: "from_role second_reply = Assistant" "from_role (stream_update Content_Chunk c m) = from_role m"
  by (simp_all add: second_reply_def createLoadingAssistantMessage_def stream_update_def processStreamingContent_def Let_def)

lemma two_chunks: "messages two_chunks = earlier @ [stream_contents [''A'', ''B''] second_reply]" "liveSources two_chunks = [0, 1]"
  by (simp_all add: two_chunks_def sample_message two_sent reply_role handleStreamUpdate_def
      updateLastAssistantMessage_def stream_contents_def)

lemma two_chunks_reached: "reach chat_step (chat_init True []) two_chunks"
proof -
  have "reach chat_step (chat_init True []) (handleSendMessage True (''u1'', ''v1'') (''a1'', ''w1'') ''hello'' (chat_init True []))"
    by (rule reach_step [where step = chat_step], rule reach_init, rule chat_submit) code_simp+
  then have "reach chat_step (chat_init True []) two_sent"
    unfolding two_sent_def by (rule reach_step [where step = chat_step, OF _ chat_suggest])
  then have "reach chat_step (chat_init True []) (on_message 0 (sample_chunk ''A'') two_sent)"
    by (rule reach_step [where step = chat_step, OF _ chat_message]) (simp add: two_sent)
  then show ?thesis
    unfolding two_chunks_def
    by (rule reach_step [where step = chat_step, OF _ chat_message]) (simp add: sample_message two_sent)
qed

text \<open>
  C24. A suggestion clicked while a reply is generated breaks that: the first stream is neither
  stopped nor kept apart, both replies run together in the second answer, the first answer
  stays loading, and when the first stream is done the page takes the generation for finished
  although the second stream still delivers.
\<close>

theorem suggestion_mixes_replies:
  "\<exists>s. reach chat_step (chat_init True []) s \<and>
     map (\<lambda>m. content (getCurrentVersion m)) (messages s) = [''hello'', [], ''Ideas'', ''AB''] \<and>
     msg_status (messages s ! 1) = Some Loading \<and> msg_status (messages s ! 3) = Some Complete \<and>
     \<not> isGenerating s \<and> liveSources s = [1]"
proof -
  let ?s = "on_message 0 ''[DONE]'' two_chunks" and ?r = "non_stream_reply (Some ''AB'') None second_reply"
  have plain: "parseThinkTags ''AB'' = \<lparr>visibleContent = ''AB'', think_reasoning = [], hasUnclosedTag = False\<rparr>"
    "\<not> str_includes ''AB'' open_tag" by code_simp+
  have whole: "stream_complete (stream_contents [''A'', ''B''] second_reply) = ?r"
    using reply_of_stream [OF _ second_reply_def, of "[''A'', ''B'']"] plain(2) by simp
  have "from_role (stream_contents [''A'', ''B''] second_reply) = Assistant"
    by (simp add: stream_contents_def reply_role)
  then have s: "messages ?s = earlier @ [?r]" "liveSources ?s = [1]" "\<not> isGenerating ?s"
    by (simp_all add: two_chunks whole on_message_def closeSource_def handleStreamComplete_def isGenerating_def
        updateLastAssistantMessage_def Let_def)
  have "reach chat_step (chat_init True []) ?s"
    using two_chunks_reached
    by (rule reach_step [where step = chat_step, OF _ chat_message]) (simp add: two_chunks)
  moreover have "content (getCurrentVersion ?r) = ''AB''" "msg_status ?r = Some Complete"
    by (simp_all add: non_stream_reply_def finalizeMessage_def Let_def plain updateCurrentVersionContent_def getCurrentVersion_def)
  moreover have "map (\<lambda>m. content (getCurrentVersion m)) earlier = [''hello'', [], ''Ideas'']"
    "msg_status (earlier ! 1) = Some Loading" "length earlier = 3"
    by (simp_all add: earlier_def createUserMessage_def createLoadingAssistantMessage_def createMessageVersion_def getCurrentVersion_def)
  ultimately show ?thesis
    by (intro exI [of _ ?s]) (simp add: s nth_append)
qed

text \<open>
  C28. Without streaming, a response that has no choice is dropped in silence: the page awaits nothing
  and does not show that it generates, but the reply it has appended stays loading.  This is so from
  every reachable state, and it happens for no other response: one with a choice completes the reply
  and one that is null turns it into an error.
\<close>

theorem unstreamed_reply_stays_loading:
  assumes "reach chat_step (chat_init False stored) s" and "pendingReplies s = 0" and "trim txt \<noteq> []"
    and "t = reply_arrived thrown response (handleSendMessage True ids ids' txt s)"
  shows "reach chat_step (chat_init False stored) t \<and> pendingReplies t = 0 \<and> liveSources t = [] \<and> \<not> isGenerating t \<and>
    (stuck (last (messages t)) \<longleftrightarrow>
       response \<noteq> JNull \<and> response \<noteq> JUndefined \<and> \<not> truthy (at_0 (js_get response ''choices'')))"
proof -
  let ?u = "handleSendMessage True ids ids' txt s"
  have inv: "unstreamed_inv s" by (rule unstreamed.inv_reach [OF assms(1)])
  then have u: "pendingReplies ?u = 1" "last (messages ?u) = createLoadingAssistantMessage (fst ids') (snd ids')" "messages ?u \<noteq> []"
    using assms(2) by (simp_all add: handleSendMessage_def sendChat_def unstreamed_inv_def)
  have "\<not> isGenerating s" using inv by (simp add: unstreamed_inv_def isGenerating_def)
  with assms(1,3) have "reach chat_step (chat_init False stored) ?u" by (auto intro: reach_step chat_submit)
  then have t: "reach chat_step (chat_init False stored) t"
    unfolding assms(4) by (rule reach_step [where step = chat_step, OF _ chat_reply]) (simp add: u(1))
  moreover have "pendingReplies t = 0" using u(1)
    by (auto simp: assms(4) reply_arrived_def reply_failed_def handleStreamError_def split: option.split prod.split)
  moreover have "read_reply response = Some None \<longleftrightarrow>
      response \<noteq> JNull \<and> response \<noteq> JUndefined \<and> \<not> truthy (at_0 (js_get response ''choices''))"
    by (simp add: read_reply_def Let_def)
  ultimately show ?thesis
    using unstreamed.inv_reach [OF t] reply_settles [OF u(2,3), of thrown response]
    by (simp add: assms(4) unstreamed_inv_def isGenerating_def)
qed

theorem unstreamed_reply_stays_loading_witness:
  "\<exists>t. reach chat_step (chat_init False []) t \<and> pendingReplies t = 0 \<and> \<not> isGenerating t \<and> stuck (last (messages t))"
proof -
  have "pendingReplies (chat_init False []) = 0" by (simp add: chat_init_def)
  moreover have "trim ''hello'' \<noteq> []" by code_simp
  ultimately show ?thesis
    using unstreamed_reply_stays_loading [OF reach_init, of "[]" "''hello''" _ "[]" "JObj [(''choices'', JArr [])]" "(''u'', ''v'')" "(''a'', ''w'')"]
    by (auto simp: obj_get_def)
qed

end
