(* ===== verification/Js_Pretty.thy ===== *)
theory Js_Pretty
  imports Js_Json
begin

section \<open>Indented JSON and the shape of parsed values\<close>

text \<open>
  \<open>JSON.stringify(v, null, 2)\<close>, and that \<open>JSON.parse\<close> reads it back; the shape of the values that
  \<open>JSON.parse\<close> returns; and that the text of a value has no white space at its ends, so that
  trimming does not touch it.
\<close>

definition newline :: string where
  "newline = [CHR 0x0A]"

text \<open>The first argument is the indentation of the line the value starts in.\<close>

fun json_indented :: "string \<Rightarrow> jsval \<Rightarrow> string" where
  "json_indented ind (JArr vs) =
     (if vs = [] then ''[]''
      else ''['' @ newline @ (ind @ ''  '')
           @ join ('','' @ newline @ ind @ ''  '') (map (json_indented (ind @ ''  '')) vs)
           @ newline @ ind @ '']'')"
| "json_indented ind (JObj ps) =
     (let ms = filter (\<lambda>(k, v). \<not> is_undefined v) ps
      in if ms = [] then ''{}''
         else ''{'' @ newline @ (ind @ ''  '')
              @ join ('','' @ newline @ ind @ ''  '')
                  (map (\<lambda>(k, v). json_quote k @ '': '' @ json_indented (ind @ ''  '') v) ms)
              @ newline @ ind @ ''}'')"
| "json_indented ind v = json_text v"

definition json_pretty :: "jsval \<Rightarrow> string" where
  "json_pretty v = json_indented [] v"

subsection \<open>Reading indented text\<close>

lemma skip_ws_blank: "list_all json_ws b \<Longrightarrow> skip_ws (b @ s) = skip_ws s"
  by (induction b) (auto simp: skip_ws_def)

lemma json_ws_blank [simp]: "json_ws CHR 0x20" "json_ws CHR 0x0A"
  by (auto simp: json_ws_def)

lemma skip_ws_blank1 [simp]:
  "skip_ws (CHR 0x20 # s) = skip_ws s" "skip_ws (CHR 0x0A # s) = skip_ws s"
  by (simp_all add: skip_ws_def)

lemma number_ends_blank [simp]: "number_ends (CHR 0x0A # s)"
  by (simp add: number_ends_def is_digit_def)

text \<open>White space in front of what is read.\<close>

lemma p_blank:
  assumes "skip_ws s' = skip_ws s"
  shows "p_value n s' = p_value n s" "p_elems n s' = p_elems n s" "p_members n s' = p_members n s"
proof -
  show v: "p_value n s' = p_value n s" for n by (cases n) (simp_all add: assms)
  show "p_elems n s' = p_elems n s" by (cases n) (simp_all add: v)
  show "p_members n s' = p_members n s" by (cases n) (simp_all add: assms)
qed

lemma enough_blank:
  assumes "list_all json_ws b"
  shows "enough p_value s v r \<Longrightarrow> enough p_value (b @ s) v r"
    "enough p_elems s vs r \<Longrightarrow> enough p_elems (b @ s) vs r"
    "enough p_members s ps r \<Longrightarrow> enough p_members (b @ s) ps r"
  using p_blank [OF skip_ws_blank [OF assms, of s]] by (auto simp: enough_def)

text \<open>The indented text of a value is read back in front of every text that cannot continue a number.\<close>

definition indent_reads :: "string \<Rightarrow> jsval \<Rightarrow> bool" where
  "indent_reads ind v \<longleftrightarrow> (\<forall>s. number_ends s \<longrightarrow> enough p_value (json_indented ind v @ s) v s)"

lemma p_elems_indented:
  assumes "list_all json_ws ind" "list_all json_ws out" "vs \<noteq> []" "\<forall>v\<in>set vs. indent_reads ind v"
  shows "enough p_elems (ind @ join ('','' @ newline @ ind) (map (json_indented ind) vs) @ newline @ out @ CHR '']'' # s) vs s"
  using assms(3, 4)
proof (induction vs)
  case (Cons v vs)
  then have v: "enough p_value (ind @ json_indented ind v @ u) v u" if "number_ends u" for u
    using that by (intro enough_blank(1) [OF assms(1)]) (simp add: indent_reads_def)
  show ?case
  proof (cases "vs = []")
    case True
    then show ?thesis
      using p_elems_enough [OF v [of "newline @ out @ CHR '']'' # s"], of "CHR '']''" s] assms(2)
      by (simp add: newline_def skip_ws_blank)
  next
    case False
    then have "enough p_elems (newline @ ind @ join ('','' @ newline @ ind) (map (json_indented ind) vs) @ newline @ out @ CHR '']'' # s) vs s"
      using Cons by (intro enough_blank(2) [of newline]) (auto simp: newline_def)
    with False show ?thesis
      using p_elems_enough [OF v [of "'','' @ newline @ ind @ join ('','' @ newline @ ind) (map (json_indented ind) vs) @ newline @ out @ CHR '']'' # s"]]
      by (simp add: join_Cons)
  qed
qed simp

definition indented_member :: "string \<Rightarrow> string \<times> jsval \<Rightarrow> string" where
  "indented_member ind = (\<lambda>(k, v). json_quote k @ '': '' @ json_indented ind v)"

lemma p_members_indented:
  assumes "list_all json_ws ind" "list_all json_ws out" "ps \<noteq> []" "\<forall>(k, v)\<in>set ps. indent_reads ind v"
  shows "enough p_members (ind @ join ('','' @ newline @ ind) (map (indented_member ind) ps) @ newline @ out @ CHR ''}'' # s) ps s"
  using assms(3, 4)
proof (induction ps)
  case (Cons p ps)
  obtain k v where p: "p = (k, v)" by (cases p)
  have v: "enough p_value (CHR 0x20 # json_indented ind v @ u) v u" if "number_ends u" for u
    using that Cons.prems p enough_blank(1) [of "[CHR 0x20]"] by (auto simp: indent_reads_def)
  have quote: "skip_ws (ind @ indented_member ind p @ u)
      = CHR 0x22 # concat (map json_escape k) @ CHR 0x22 # CHR '':'' # CHR 0x20 # json_indented ind v @ u" for u
    using assms(1) by (simp add: indented_member_def p json_quote_def skip_ws_blank)
  show ?case
  proof (cases "ps = []")
    case True
    then show ?thesis
      using p_members_enough [OF quote p_string_quote skip_ws_sep(4) v [of "newline @ out @ CHR ''}'' # s"], of "CHR ''}''" s]
        p assms(2) by (simp add: newline_def skip_ws_blank)
  next
    case False
    then have "enough p_members (newline @ ind @ join ('','' @ newline @ ind) (map (indented_member ind) ps) @ newline @ out @ CHR ''}'' # s) ps s"
      using Cons by (intro enough_blank(3) [of newline]) (auto simp: newline_def)
    with False show ?thesis
      using p_members_enough [OF quote p_string_quote skip_ws_sep(4)
          v [of "'','' @ newline @ ind @ join ('','' @ newline @ ind) (map (indented_member ind) ps) @ newline @ out @ CHR ''}'' # s"]] p
      by (simp add: join_Cons)
  qed
qed simp

lemma json_indented_hd:
  assumes "wf_json v"
  shows "json_indented ind v \<noteq> []" "\<not> json_ws (hd (json_indented ind v))"
    "hd (json_indented ind v) \<noteq> CHR '']''"
  using json_text_hd [OF assms] assms by (cases v; simp add: json_ws_def Let_def)+

lemma indent_reads_arr:
  assumes "list_all json_ws ind" "wf_json (JArr vs)" "\<forall>v\<in>set vs. indent_reads (ind @ ''  '') v"
  shows "indent_reads ind (JArr vs)"
proof (cases "vs = []")
  case True
  then show ?thesis unfolding indent_reads_def
    by (intro allI impI enough_I) (auto simp: skip_ws_def json_ws_def)
next
  case False
  let ?ind = "ind @ ''  ''"
  let ?body = "join ('','' @ newline @ ?ind) (map (json_indented ?ind) vs)"
  have blank: "list_all json_ws ?ind" "list_all json_ws newline" using assms(1) by (simp_all add: newline_def)
  have hd: "?body \<noteq> []" "\<not> json_ws (hd ?body)" "hd ?body \<noteq> CHR '']''"
    using False assms(2) json_indented_hd [of "hd vs" ?ind] by (cases vs; cases "tl vs"; auto)+
  show ?thesis unfolding indent_reads_def
  proof (intro allI impI)
    fix s assume "number_ends s"
    let ?t = "newline @ ?ind @ ?body @ newline @ ind @ CHR '']'' # s"
    have e: "enough p_elems ?t vs s"
      using p_elems_indented [OF blank(1) assms(1) False assms(3)] by (rule enough_blank(2) [OF blank(2)])
    have w: "skip_ws ?t = ?body @ newline @ ind @ CHR '']'' # s"
      using skip_ws_blank [OF blank(2)] skip_ws_blank [OF blank(1)] skip_ws_append [OF hd(1, 2)] by simp
    show "enough p_value (json_indented ind (JArr vs) @ s) (JArr vs) s"
      using e hd w False by (intro enough_I) (auto simp: skip_ws_open enough_def)
  qed
qed

lemma indent_reads_obj:
  assumes "list_all json_ws ind" "wf_json (JObj ps)" "\<forall>(k, v)\<in>set ps. indent_reads (ind @ ''  '') v"
  shows "indent_reads ind (JObj ps)"
proof (cases "ps = []")
  case True
  then show ?thesis unfolding indent_reads_def
    by (intro allI impI enough_I) (auto simp: skip_ws_def json_ws_def)
next
  case False
  let ?ind = "ind @ ''  ''"
  let ?body = "join ('','' @ newline @ ?ind) (map (indented_member ?ind) ps)"
  have "filter (\<lambda>(k, v). \<not> is_undefined v) ps = ps"
    using assms(2) by (fastforce simp: list_all_iff filter_id_conv is_undefined_def split: jsval.splits)
  then have shape: "json_indented ind (JObj ps) = ''{'' @ newline @ ?ind @ ?body @ newline @ ind @ ''}''"
    using False by (simp add: indented_member_def Let_def)
  have blank: "list_all json_ws ?ind" "list_all json_ws newline" using assms(1) by (simp_all add: newline_def)
  have hd: "?body \<noteq> []" "\<not> json_ws (hd ?body)" "hd ?body \<noteq> CHR ''}''"
    using False by (cases ps; cases "tl ps"; auto simp: indented_member_def json_quote_def json_ws_def)+
  show ?thesis unfolding indent_reads_def
  proof (intro allI impI)
    fix s assume "number_ends s"
    let ?t = "newline @ ?ind @ ?body @ newline @ ind @ CHR ''}'' # s"
    have e: "enough p_members ?t ps s"
      using p_members_indented [OF blank(1) assms(1) False assms(3)] by (rule enough_blank(3) [OF blank(2)])
    have w: "skip_ws ?t = ?body @ newline @ ind @ CHR ''}'' # s"
      using skip_ws_blank [OF blank(2)] skip_ws_blank [OF blank(1)] skip_ws_append [OF hd(1, 2)] by simp
    have "obj_of ps = ps" using assms(2) by (simp add: obj_of_wf)
    then show "enough p_value (json_indented ind (JObj ps) @ s) (JObj ps) s"
      using e hd w False unfolding shape by (intro enough_I) (auto simp: skip_ws_open enough_def)
  qed
qed

lemma p_value_indented: "wf_json v \<Longrightarrow> list_all json_ws ind \<Longrightarrow> indent_reads ind v"
proof (induction v arbitrary: ind)
  case (JArr vs)
  then show ?case by (intro indent_reads_arr) (auto simp: list_all_iff)
next
  case (JObj ps)
  then show ?case by (intro indent_reads_obj) (fastforce simp: list_all_iff)+
qed (use p_value_text in \<open>simp_all add: indent_reads_def reads_back_def del: json_text.simps\<close>)

theorem json_parse_pretty: "wf_json v \<Longrightarrow> json_parse (json_pretty v) = Some v"
proof -
  assume "wf_json v"
  then have "indent_reads [] v" by (intro p_value_indented) simp_all
  then have "enough p_value (json_pretty v @ []) v []"
    unfolding indent_reads_def json_pretty_def using number_ends_sep(4) by blast
  then have "p_value (length (json_pretty v)) (json_pretty v) = Some (v, [])" by (auto dest: enough_D)
  then show ?thesis unfolding json_parse_iff using skip_ws_sep(6) by blast
qed

subsection \<open>Texts without white space at their ends\<close>

lemma graphic_bracket [simp]:
  "graphic CHR ''{''" "graphic CHR ''}''" "graphic CHR ''[''" "graphic CHR '']''" "graphic CHR 0x22" "graphic CHR ''-''"
  by (simp_all add: graphic_def)

lemma graphic_rat_text:
  assumes "dec_rat q"
  shows "rat_text q \<noteq> []" "graphic (hd (rat_text q))" "graphic (last (rat_text q))"
proof -
  show "rat_text q \<noteq> []" "graphic (hd (rat_text q))" using rat_text_hd [OF assms] graphic_digit by auto
  have "wf_decimal (num_parts \<bar>q\<bar>)" using wf_decimal_num_parts [of "\<bar>q\<bar>"] assms by (simp add: abs_if)
  then have "graphic (last (decimal_text (num_parts \<bar>q\<bar>)))" "decimal_text (num_parts \<bar>q\<bar>) \<noteq> []"
    using graphic_digit decimal_text_last decimal_text_hd by blast+
  then show "graphic (last (rat_text q))" by (auto simp: rat_text_def abs_if split: if_splits)
qed

lemma trim_json_text: "wf_json v \<Longrightarrow> trim (json_text v) = json_text v"
proof (cases v)
  case (JNum n)
  moreover assume "wf_json v"
  ultimately obtain q where "v = JNum (Fin q)" "dec_rat q" by (cases n) auto
  then show ?thesis using graphic_rat_text trim_graphic by simp
qed (auto intro!: trim_graphic simp: json_quote_def graphic_def)

lemma trim_json_pretty:
  "wf_json v \<Longrightarrow> is_object v \<Longrightarrow> trim (json_pretty v) = json_pretty v"
  by (cases v) (auto intro!: trim_graphic simp: json_pretty_def Let_def)

lemma json_pretty_neq_Nil: "wf_json v \<Longrightarrow> json_pretty v \<noteq> []"
  unfolding json_pretty_def by (rule json_indented_hd)

subsection \<open>Values that were parsed\<close>

text \<open>Every number of the value is a finite decimal (as every double is).\<close>

fun plain_numbers :: "jsval \<Rightarrow> bool" where
  "plain_numbers (JNum n) = (case n of Fin r \<Rightarrow> dec_rat r | _ \<Rightarrow> False)"
| "plain_numbers (JArr vs) = list_all plain_numbers vs"
| "plain_numbers (JObj ps) = list_all (\<lambda>(k, v). plain_numbers v) ps"
| "plain_numbers _ = True"

lemma values_obj_put: "snd ` set (obj_put k v ps) \<subseteq> insert v (snd ` set ps)"
proof -
  have "snd ` set (obj_insert k v ps) \<subseteq> insert v (snd ` set ps)" for ps
    by (induction k v ps rule: obj_insert.induct) auto
  moreover have "snd ` set (map (\<lambda>(k', v'). if k' = k then (k, v) else (k', v')) ps) \<subseteq> insert v (snd ` set ps)"
    by (auto split: if_splits)
  ultimately show ?thesis by (simp add: obj_put.simps)
qed

lemma values_obj_of: "snd ` set (obj_of ps) \<subseteq> snd ` set ps"
proof -
  have "snd ` set (foldl (\<lambda>acc (k, v). obj_put k v acc) acc ps) \<subseteq> snd ` set acc \<union> snd ` set ps" for acc
  proof (induction ps arbitrary: acc)
    case (Cons p ps)
    obtain k v where p: "p = (k, v)" by (cases p)
    show ?case
      using Cons.IH [of "obj_put k v acc"] values_obj_put [of k v acc] by (simp add: p) blast
  qed simp
  from this [of "[]"] show ?thesis by (simp add: obj_of_def)
qed

lemma p_wf:
  "p_value n s = Some (v, r) \<Longrightarrow> plain_numbers v \<longrightarrow> wf_json v"
  "p_elems n s = Some (vs, r) \<Longrightarrow> \<forall>v\<in>set vs. plain_numbers v \<longrightarrow> wf_json v"
  "p_members n s = Some (ps, r) \<Longrightarrow> \<forall>v\<in>snd ` set ps. plain_numbers v \<longrightarrow> wf_json v"
proof (induction n s and n s and n s arbitrary: v r and vs r and ps r
    rule: p_value_p_elems_p_members.induct)
  case (2 n s)
  then obtain c t where ct: "skip_ws s = c # t" by (auto split: list.splits)
  have atom: "plain_numbers v \<longrightarrow> wf_json v" if "p_atom u = Some (v, r)" for u
    using that by (auto simp: p_atom_def split: if_splits)
  have arr: "plain_numbers v \<longrightarrow> wf_json v"
    if "c = CHR ''[''" "\<not> (skip_ws t \<noteq> [] \<and> hd (skip_ws t) = CHR '']'')" "p_elems n t = Some (vs, r)" "v = JArr vs" for vs
    using 2(1) [of c t vs r] ct that by (auto simp: list_all_iff)
  have obj: "plain_numbers v \<longrightarrow> wf_json v"
    if "c = CHR ''{''" "\<not> (skip_ws t \<noteq> [] \<and> hd (skip_ws t) = CHR ''}'')" "p_members n t = Some (ps, r)"
      "v = JObj (obj_of ps)" for ps
    using 2(2) [of c t ps r] ct that values_obj_of [of ps] by (fastforce simp: list_all_iff)
  show ?case using 2(3) ct atom arr obj by (auto split: if_splits)
next
  case (4 n s)
  then obtain v q c t where v: "p_value n s = Some (v, q)" "skip_ws q = c # t"
    by (auto split: option.splits list.splits)
  then show ?case using 4 by (auto split: if_splits)
next
  case (6 n s)
  then obtain s' k q t v u d w where kv: "skip_ws s = CHR 0x22 # s'" "p_string s' = Some (k, q)"
    "skip_ws q = CHR '':'' # t" "p_value n t = Some (v, u)" "skip_ws u = d # w"
    by (auto split: option.splits list.splits if_splits)
  obtain ps' where "ps = (k, v) # ps'"
    "d = CHR '','' \<and> p_members n w = Some (ps', r) \<or> d = CHR ''}'' \<and> ps' = [] \<and> r = w"
    using 6(3) kv by (auto split: if_splits)
  moreover have "plain_numbers v \<longrightarrow> wf_json v" using 6(1) kv by auto
  moreover have "\<forall>v\<in>snd ` set ps'. plain_numbers v \<longrightarrow> wf_json v"
    if "d = CHR '',''" "p_members n w = Some (ps', r)"
    using 6(2) kv that by blast
  ultimately show ?case by auto
qed auto

lemma json_parse_wf: "json_parse s = Some v \<Longrightarrow> plain_numbers v \<Longrightarrow> wf_json v"
  unfolding json_parse_iff using p_wf(1) by blast

lemma wf_json_plain: "wf_json v \<Longrightarrow> plain_numbers v"
  by (induction v) (auto simp: list_all_iff)

end
