(* ===== verification/Param_Override.thy ===== *)
theory Param_Override
  imports Js_Pretty
begin

section \<open>Parameter override rules\<close>

text \<open>
  The rules that rewrite a request before it is relayed, as the console edits them
  (\<open>features/channels/components/dialogs/param-override-editor-dialog.tsx\<close>): the tables of modes,
  values as text, and the readers of a stored rule and of a stored condition.  The sub-editors of
  single modes are in \<open>Param_Drafts\<close>, the document of rules in \<open>Param_Document\<close>, the component with
  its state in \<open>Param_Editor\<close>.

  \<open>nextLocalId\<close> reads the clock and counts a seed up.  Every reading of the clock belongs to one
  value of the seed, so the clock is a function of the seed; it is an argument and nothing is
  assumed of it.  The seed is passed through.  Reading a property of \<open>null\<close> is a \<open>TypeError\<close>: None.
  The tables are objects of the language; they are looked up with known modes only.
\<close>

subsection \<open>Types and tables\<close>

record param_condition =
  c_id :: string
  c_path :: string
  c_mode :: string
  c_value_text :: string
  c_invert :: bool
  c_pass_missing_key :: bool

record param_operation =
  o_id :: string
  o_description :: string
  o_path :: string
  o_mode :: string
  o_from :: string
  o_to :: string
  o_value_text :: string
  o_keep_origin :: bool
  o_logic :: string
  o_conditions :: "param_condition list"

definition OPERATION_MODE_OPTIONS :: "(string \<times> string) list" where
  "OPERATION_MODE_OPTIONS =
     [(''set'', ''Set Field''), (''delete'', ''Delete Field''), (''append'', ''Append to End''),
      (''prepend'', ''Prepend to Start''), (''copy'', ''Copy Field''), (''move'', ''Move Field''),
      (''replace'', ''String Replace''), (''regex_replace'', ''Regex Replace''),
      (''trim_prefix'', ''Trim Prefix''), (''trim_suffix'', ''Trim Suffix''),
      (''ensure_prefix'', ''Ensure Prefix''), (''ensure_suffix'', ''Ensure Suffix''),
      (''trim_space'', ''Trim Space''), (''to_lower'', ''To Lowercase''), (''to_upper'', ''To Uppercase''),
      (''return_error'', ''Return Custom Error''), (''prune_objects'', ''Prune Object Items''),
      (''pass_headers'', ''Pass Through Headers''), (''sync_fields'', ''Sync Fields''),
      (''set_header'', ''Set Request Header''), (''delete_header'', ''Delete Request Header''),
      (''copy_header'', ''Copy Request Header''), (''move_header'', ''Move Request Header'')]"

definition OPERATION_MODE_VALUES :: "string list" where
  "OPERATION_MODE_VALUES = map fst OPERATION_MODE_OPTIONS"

definition OPERATION_MODE_LABEL_MAP :: "string \<Rightarrow> string option" where
  "OPERATION_MODE_LABEL_MAP = map_of OPERATION_MODE_OPTIONS"

definition CONDITION_MODE_OPTIONS :: "(string \<times> string) list" where
  "CONDITION_MODE_OPTIONS =
     [(''full'', ''Exact Match''), (''prefix'', ''Prefix''), (''suffix'', ''Suffix''),
      (''contains'', ''Contains''), (''gt'', ''Greater Than''), (''gte'', ''Greater Than or Equal''),
      (''lt'', ''Less Than''), (''lte'', ''Less Than or Equal'')]"

definition CONDITION_MODE_VALUES :: "string list" where
  "CONDITION_MODE_VALUES = map fst CONDITION_MODE_OPTIONS"

text \<open>What a mode uses.  An entry \<open>to: false\<close> of the table means the same as no entry for the checks
  and the writer.\<close>

record mode_meta =
  m_path :: bool
  m_pathOptional :: bool
  m_value :: bool
  m_from :: bool
  m_to :: bool
  m_keepOrigin :: bool
  m_pathAlias :: bool

definition no_meta :: mode_meta where
  "no_meta = \<lparr>m_path = False, m_pathOptional = False, m_value = False, m_from = False, m_to = False,
     m_keepOrigin = False, m_pathAlias = False\<rparr>"

definition MODE_META :: "(string \<times> mode_meta) list" where
  "MODE_META =
     (let path = no_meta\<lparr>m_path := True\<rparr>;
          path_value = path\<lparr>m_value := True\<rparr>;
          path_value_keep = path_value\<lparr>m_keepOrigin := True\<rparr>;
          ends = no_meta\<lparr>m_from := True, m_to := True\<rparr>;
          header_ends = ends\<lparr>m_keepOrigin := True, m_pathAlias := True\<rparr>;
          path_from = path\<lparr>m_from := True\<rparr>
      in [(''delete'', path), (''set'', path_value_keep), (''append'', path_value_keep),
          (''prepend'', path_value_keep), (''copy'', ends), (''move'', ends),
          (''replace'', path_from), (''regex_replace'', path_from),
          (''trim_prefix'', path_value), (''trim_suffix'', path_value),
          (''ensure_prefix'', path_value), (''ensure_suffix'', path_value),
          (''trim_space'', path), (''to_lower'', path), (''to_upper'', path),
          (''return_error'', no_meta\<lparr>m_value := True\<rparr>),
          (''prune_objects'', no_meta\<lparr>m_pathOptional := True, m_value := True\<rparr>),
          (''pass_headers'', no_meta\<lparr>m_value := True, m_keepOrigin := True\<rparr>),
          (''sync_fields'', ends), (''set_header'', path_value_keep), (''delete_header'', path),
          (''copy_header'', header_ends), (''move_header'', header_ends)])"

text \<open>\<open>MODE_META[mode] || MODE_META.set\<close>.\<close>

definition mode_meta_of :: "string \<Rightarrow> mode_meta" where
  "mode_meta_of mode =
     (case map_of MODE_META mode of Some m \<Rightarrow> m | None \<Rightarrow> the (map_of MODE_META ''set''))"

definition VALUE_REQUIRED_MODES :: "string list" where
  "VALUE_REQUIRED_MODES =
     [''trim_prefix'', ''trim_suffix'', ''ensure_prefix'', ''ensure_suffix'', ''set_header'',
      ''return_error'', ''prune_objects'', ''pass_headers'']"

definition FROM_REQUIRED_MODES :: "string list" where
  "FROM_REQUIRED_MODES =
     [''copy'', ''move'', ''replace'', ''regex_replace'', ''copy_header'', ''move_header'', ''sync_fields'']"

definition TO_REQUIRED_MODES :: "string list" where
  "TO_REQUIRED_MODES = [''copy'', ''move'', ''copy_header'', ''move_header'', ''sync_fields'']"

subsection \<open>Identifiers\<close>

type_synonym clock = "nat \<Rightarrow> nat"

definition nextLocalId :: "clock \<Rightarrow> nat \<Rightarrow> string" where
  "nextLocalId now seed = ''po_'' @ digits_of_nat (now seed) @ ''_'' @ digits_of_nat seed"

text \<open>\<open>xs.map(f)\<close> where f draws identifiers and may throw.\<close>

fun map_seed :: "(nat \<Rightarrow> 'a \<Rightarrow> ('b \<times> nat) option) \<Rightarrow> nat \<Rightarrow> 'a list \<Rightarrow> ('b list \<times> nat) option" where
  "map_seed f n [] = Some ([], n)"
| "map_seed f n (x # xs) =
     (case f n x of None \<Rightarrow> None
      | Some (y, n') \<Rightarrow> map_option (\<lambda>(ys, m). (y # ys, m)) (map_seed f n' xs))"

subsection \<open>Values as text\<close>

definition toValueText :: "jsval \<Rightarrow> string" where
  "toValueText v =
     (case v of JUndefined \<Rightarrow> [] | JStr s \<Rightarrow> s | _ \<Rightarrow> json_text v)"

definition parseLooseValue :: "string \<Rightarrow> jsval" where
  "parseLooseValue valueText =
     (let raw = trim valueText
      in if raw = [] then JStr []
         else case json_parse raw of Some v \<Rightarrow> v | None \<Rightarrow> JStr raw)"

definition verifyJSON :: "string \<Rightarrow> bool" where
  "verifyJSON text = (json_parse text \<noteq> None)"

text \<open>\<open>s.toUpperCase() === k\<close> for the words AND and OR, \<open>s.toLowerCase() === k\<close> for the word header: no
  character outside ASCII has one of their letters as its upper or lower case.\<close>

definition ascii_upper :: "char \<Rightarrow> char" where
  "ascii_upper c = (if (97::nat) \<le> of_char c \<and> of_char c \<le> (122::nat) then char_of (of_char c - (32::nat)) else c)"

definition ascii_lower :: "char \<Rightarrow> char" where
  "ascii_lower c = (if (65::nat) \<le> of_char c \<and> of_char c \<le> (90::nat) then char_of (of_char c + (32::nat)) else c)"

definition upper_is :: "string \<Rightarrow> string \<Rightarrow> bool" where
  "upper_is s k \<longleftrightarrow> map ascii_upper s = k"

text \<open>\<open>typeof v === 'string' ? v : ''\<close>.\<close>

fun string_or_empty :: "jsval \<Rightarrow> string" where
  "string_or_empty (JStr s) = s"
| "string_or_empty _ = []"

text \<open>A word of a set, or a default.\<close>

definition word_or :: "string list \<Rightarrow> string \<Rightarrow> jsval \<Rightarrow> string" where
  "word_or ws d v = (case v of JStr s \<Rightarrow> if s \<in> set ws then s else d | _ \<Rightarrow> d)"

text \<open>\<open>if (b) payload[k] = v\<close> where the payload has no k yet.\<close>

definition opt_prop :: "bool \<Rightarrow> string \<Rightarrow> jsval \<Rightarrow> props" where
  "opt_prop b k v = (if b then [(k, v)] else [])"

subsection \<open>Reading rules\<close>

definition normalizeParamCondition :: "clock \<Rightarrow> nat \<Rightarrow> jsval \<Rightarrow> (param_condition \<times> nat) option" where
  "normalizeParamCondition now n v =
     (if v = JNull then None
      else Some
        (\<lparr>c_id = nextLocalId now n,
          c_path = string_or_empty (js_get v ''path''),
          c_mode = word_or CONDITION_MODE_VALUES ''full'' (js_get v ''mode''),
          c_value_text = toValueText (js_get v ''value''),
          c_invert = (js_get v ''invert'' = JBool True),
          c_pass_missing_key = (js_get v ''pass_missing_key'' = JBool True)\<rparr>, Suc n))"

definition normalizeOperation :: "clock \<Rightarrow> nat \<Rightarrow> jsval \<Rightarrow> (param_operation \<times> nat) option" where
  "normalizeOperation now n v =
     (if v = JNull then None
      else case js_string (js_or (js_get v ''logic'') (JStr ''OR'')) of None \<Rightarrow> None
      | Some logic \<Rightarrow>
         (case (case js_get v ''conditions'' of
                  JArr cs \<Rightarrow> map_seed (normalizeParamCondition now) (Suc n) cs
                | _ \<Rightarrow> Some ([], Suc n)) of None \<Rightarrow> None
          | Some (cs, n') \<Rightarrow> Some
             (\<lparr>o_id = nextLocalId now n,
               o_description = string_or_empty (js_get v ''description''),
               o_path = string_or_empty (js_get v ''path''),
               o_mode = word_or OPERATION_MODE_VALUES ''set'' (js_get v ''mode''),
               o_from = string_or_empty (js_get v ''from''),
               o_to = string_or_empty (js_get v ''to''),
               o_value_text = toValueText (js_get v ''value''),
               o_keep_origin = (js_get v ''keep_origin'' = JBool True),
               o_logic = (if upper_is logic ''AND'' then ''AND'' else ''OR''),
               o_conditions = cs\<rparr>, n')))"

text \<open>\<open>normalizeParamCondition({})\<close> and \<open>normalizeOperation({ mode: 'set' })\<close> cannot throw.\<close>

definition createDefaultCondition :: "clock \<Rightarrow> nat \<Rightarrow> param_condition \<times> nat" where
  "createDefaultCondition now n = the (normalizeParamCondition now n (JObj []))"

definition createDefaultOperation :: "clock \<Rightarrow> nat \<Rightarrow> param_operation \<times> nat" where
  "createDefaultOperation now n = the (normalizeOperation now n (JObj [(''mode'', JStr ''set'')]))"

subsection \<open>Laws\<close>

text \<open>A seed-independent view of what was mapped.\<close>

lemma map_seed_view:
  assumes "\<And>n x. x \<in> set xs \<Longrightarrow> \<exists>y m. f n x = Some (y, m) \<and> view y = g x"
  shows "\<exists>ys m. map_seed f n xs = Some (ys, m) \<and> map view ys = map g xs"
  using assms
proof (induction xs arbitrary: n)
  case (Cons x xs)
  obtain y m where y: "f n x = Some (y, m)" "view y = g x" using Cons.prems [of x n] by auto
  obtain ys m' where "map_seed f m xs = Some (ys, m')" "map view ys = map g xs"
    using Cons.IH [of m] Cons.prems by auto
  with y show ?case by simp
qed simp

lemma map_seed_map: "map_seed f n (map g xs) = map_seed (\<lambda>k x. f k (g x)) n xs"
  by (induction xs arbitrary: n) (auto split: option.splits)

text \<open>What a text stands for is written as a text that stands for the same, unless it is a string that
  reads as something else.\<close>

definition reads_as_itself :: "string \<Rightarrow> bool" where
  "reads_as_itself vt \<longleftrightarrow>
     (case parseLooseValue vt of
        JStr s \<Rightarrow> trim s = s \<and> json_parse s = None \<and> (s = [] \<longrightarrow> trim vt = [])
      | _ \<Rightarrow> True)"

definition plain_value :: "string \<Rightarrow> bool" where
  "plain_value vt \<longleftrightarrow> plain_numbers (parseLooseValue vt)"

lemma parseLooseValue_trim [simp]: "parseLooseValue (trim vt) = parseLooseValue vt"
  by (simp add: parseLooseValue_def)

lemma parseLooseValue_wf: "plain_value vt \<Longrightarrow> wf_json (parseLooseValue vt)"
  by (auto simp: plain_value_def parseLooseValue_def Let_def json_parse_wf split: if_splits option.splits)

lemma toValueText_simps [simp]: "toValueText JUndefined = []" "toValueText (JStr s) = s"
  by (simp_all add: toValueText_def)

lemma toValueText_wf: "wf_json v \<Longrightarrow> (\<And>s. v \<noteq> JStr s) \<Longrightarrow> toValueText v = json_text v"
  by (cases v) (auto simp: toValueText_def)

lemma json_text_neq_Nil: "wf_json v \<Longrightarrow> json_text v \<noteq> []"
  by (rule json_text_hd)

lemma parseLooseValue_json_text: "wf_json v \<Longrightarrow> parseLooseValue (json_text v) = v"
  by (simp add: parseLooseValue_def trim_json_text json_text_neq_Nil json_parse_text)

lemma loose_stable:
  assumes "plain_value vt" "reads_as_itself vt"
  shows "parseLooseValue (toValueText (parseLooseValue vt)) = parseLooseValue vt"
proof (cases "\<exists>s. parseLooseValue vt = JStr s")
  case True
  then obtain s where s: "parseLooseValue vt = JStr s" by blast
  with assms(2) have "trim s = s" "json_parse s = None" by (simp_all add: reads_as_itself_def)
  with s show ?thesis by (simp add: toValueText_def) (simp add: parseLooseValue_def)
next
  case False
  with parseLooseValue_wf [OF assms(1)] show ?thesis
    by (simp add: toValueText_wf parseLooseValue_json_text)
qed

lemma loose_blank:
  assumes "plain_value vt" "reads_as_itself vt"
  shows "trim (toValueText (parseLooseValue vt)) = [] \<longleftrightarrow> trim vt = []"
proof (cases "\<exists>s. parseLooseValue vt = JStr s")
  case True
  then obtain s where s: "parseLooseValue vt = JStr s" by blast
  with assms(2) have *: "trim s = s" "s = [] \<longrightarrow> trim vt = []" by (simp_all add: reads_as_itself_def)
  have "trim vt = [] \<Longrightarrow> s = []" using s by (simp add: parseLooseValue_def)
  moreover have "toValueText (parseLooseValue vt) = s" using s by (simp add: toValueText_def)
  ultimately show ?thesis using * by metis
next
  case False
  then have "trim vt \<noteq> []" by (auto simp: parseLooseValue_def)
  with False parseLooseValue_wf [OF assms(1)] show ?thesis
    by (simp add: toValueText_wf trim_json_text json_text_neq_Nil)
qed

lemma obj_get_Cons [simp]: "obj_get ((k, v) # ps) k' = (if k = k' then v else obj_get ps k')"
  by (simp add: obj_get_def)

lemma obj_get_opt [simp]:
  "obj_get (opt_prop b k v @ ps) k' = (if b \<and> k = k' then v else obj_get ps k')"
  "obj_get (opt_prop b k v) k' = (if b \<and> k = k' then v else JUndefined)"
  by (simp_all add: opt_prop_def)

lemma keys_opt [simp]: "k' \<in> fst ` set (opt_prop b k v) \<longleftrightarrow> b \<and> k' = k"
  by (cases b) (simp_all add: opt_prop_def)

text \<open>Distinct names that are no array indices: an object keeps them in the order of creation.\<close>

definition fresh_names :: "props \<Rightarrow> bool" where
  "fresh_names ps \<longleftrightarrow> distinct (map fst ps) \<and> (\<forall>k\<in>fst ` set ps. \<not> is_digit (hd k))"

lemma fresh_names_simps [simp]:
  "fresh_names []"
  "fresh_names ((k, v) # ps) \<longleftrightarrow> fresh_names ps \<and> k \<notin> fst ` set ps \<and> \<not> is_digit (hd k)"
  "fresh_names (opt_prop b k v @ ps) \<longleftrightarrow> fresh_names ps \<and> (b \<longrightarrow> k \<notin> fst ` set ps \<and> \<not> is_digit (hd k))"
  "fresh_names (opt_prop b k v) \<longleftrightarrow> (b \<longrightarrow> \<not> is_digit (hd k))"
  by (auto simp: fresh_names_def opt_prop_def)

lemma not_index_key: "k = [] \<or> \<not> is_digit (hd k) \<Longrightarrow> \<not> index_key k"
  by (cases k) (auto simp: index_key_def all_digits_def)

lemma sorted_names: "(\<And>k. k \<in> set ks \<Longrightarrow> \<not> index_key k) \<Longrightarrow> sorted_wrt key_before ks"
  by (induction ks) (auto simp: key_before_def)

lemma wf_props_names: "fresh_names ps \<Longrightarrow> wf_props ps"
proof -
  assume a: "fresh_names ps"
  then have "\<not> index_key k" if "k \<in> set (map fst ps)" for k
    using that not_index_key [of k] by (auto simp: fresh_names_def)
  with a show ?thesis by (simp add: fresh_names_def wf_props_def sorted_names del: set_map)
qed

lemma digit_names [simp]:
  "\<not> is_digit CHR ''a''" "\<not> is_digit CHR ''c''" "\<not> is_digit CHR ''d''" "\<not> is_digit CHR ''f''" "\<not> is_digit CHR ''i''"
  "\<not> is_digit CHR ''k''" "\<not> is_digit CHR ''l''" "\<not> is_digit CHR ''m''" "\<not> is_digit CHR ''o''" "\<not> is_digit CHR ''p''"
  "\<not> is_digit CHR ''r''" "\<not> is_digit CHR ''s''" "\<not> is_digit CHR ''t''" "\<not> is_digit CHR ''v''"
  by (simp_all add: is_digit_def)

lemma wf_values_opt [simp]: "list_all P (opt_prop b k v) \<longleftrightarrow> (b \<longrightarrow> P (k, v))"
  by (simp add: opt_prop_def)

lemma opt_prop_True [simp]: "opt_prop True k v = [(k, v)]" "opt_prop False k v = []"
  by (simp_all add: opt_prop_def)

lemma upper_is_words [simp]:
  "upper_is ''OR'' ''OR''" "upper_is ''AND'' ''AND''" "\<not> upper_is ''AND'' ''OR''" "\<not> upper_is ''OR'' ''AND''"
  by code_simp+

text \<open>The tables agree: every mode of the menu has an entry, and no other.\<close>

lemma mode_tables:
  "set (map fst MODE_META) = set OPERATION_MODE_VALUES" "distinct OPERATION_MODE_VALUES"
  "set VALUE_REQUIRED_MODES \<union> set FROM_REQUIRED_MODES \<union> set TO_REQUIRED_MODES \<subseteq> set OPERATION_MODE_VALUES"
proof -
  show "set (map fst MODE_META) = set OPERATION_MODE_VALUES"
    by code_simp
  show "distinct OPERATION_MODE_VALUES" by code_simp
  show "set VALUE_REQUIRED_MODES \<union> set FROM_REQUIRED_MODES \<union> set TO_REQUIRED_MODES \<subseteq> set OPERATION_MODE_VALUES"
    by code_simp
qed

lemma known_mode_neq_Nil [simp]: "[] \<notin> set OPERATION_MODE_VALUES" "[] \<notin> set CONDITION_MODE_VALUES"
  by (simp_all add: OPERATION_MODE_VALUES_def OPERATION_MODE_OPTIONS_def
      CONDITION_MODE_VALUES_def CONDITION_MODE_OPTIONS_def)

end
