(* ===== verification/Param_Drafts.thy ===== *)
theory Param_Drafts
  imports Param_Override
begin

section \<open>The sub-editors of single modes\<close>

text \<open>
  Four modes of an override rule keep a structured value in the value text and edit it through a
  draft that is read from the text and written back at every change
  (\<open>param-override-editor-dialog.tsx\<close>): the two ends of \<open>sync_fields\<close>, the answer of \<open>return_error\<close>,
  the conditions of \<open>prune_objects\<close> and the names of \<open>pass_headers\<close>.  The readers of the two drafts
  catch every exception; None inside them is the exception they catch.
\<close>

subsection \<open>The labels of the fields\<close>

definition getModePathLabel :: "string \<Rightarrow> string" where
  "getModePathLabel mode =
     (if mode = ''set_header'' \<or> mode = ''delete_header'' then ''Header Name''
      else if mode = ''prune_objects'' then ''Target Path (optional)''
      else ''Target Field Path'')"

definition getModeFromLabel :: "string \<Rightarrow> string" where
  "getModeFromLabel mode =
     (if mode = ''replace'' then ''Match Text''
      else if mode = ''regex_replace'' then ''Regex Pattern''
      else if mode = ''copy_header'' \<or> mode = ''move_header'' then ''Source Header''
      else ''Source Field'')"

definition getModeToLabel :: "string \<Rightarrow> string" where
  "getModeToLabel mode =
     (if mode = ''replace'' \<or> mode = ''regex_replace'' then ''Replace With''
      else if mode = ''copy_header'' \<or> mode = ''move_header'' then ''Target Header''
      else ''Target Field'')"

definition getModeValueLabel :: "string \<Rightarrow> string" where
  "getModeValueLabel mode =
     (if mode = ''set_header'' then ''Header Value (supports string or JSON mapping)''
      else if mode = ''pass_headers'' then ''Pass-through Headers (comma-separated or JSON array)''
      else if mode \<in> set [''trim_prefix'', ''trim_suffix'', ''ensure_prefix'', ''ensure_suffix''] then ''Prefix/Suffix Text''
      else if mode = ''prune_objects'' then ''Prune Rule (string or JSON object)''
      else ''Value (supports JSON or plain text)'')"

subsection \<open>\<open>sync_fields\<close>\<close>

text \<open>The kind of an end, and its key.\<close>

definition parseSyncTargetSpec :: "string \<Rightarrow> string \<times> string" where
  "parseSyncTargetSpec spec =
     (let raw = trim spec
      in if raw = [] then (''json'', [])
         else case index_of '':'' raw of None \<Rightarrow> (''json'', raw)
         | Some idx \<Rightarrow>
             let pre = map ascii_lower (trim (take idx raw));
                 key = trim (drop (idx + 1) raw)
             in if pre = ''header'' then (''header'', key) else (''json'', key))"

definition buildSyncTargetSpec :: "string \<Rightarrow> string \<Rightarrow> string" where
  "buildSyncTargetSpec type key =
     (let normalizedType = (if type = ''header'' then ''header'' else ''json'');
          normalizedKey = trim key
      in if normalizedKey = [] then [] else normalizedType @ '':'' @ normalizedKey)"

subsection \<open>\<open>return_error\<close>\<close>

record return_error_draft =
  r_message :: string
  r_statusCode :: jsnum
  r_code :: string
  r_type :: string
  r_skipRetry :: bool
  r_simpleMode :: bool

definition return_error_defaults :: return_error_draft where
  "return_error_defaults =
     \<lparr>r_message = [], r_statusCode = Fin 400, r_code = [], r_type = [], r_skipRetry = True, r_simpleMode = True\<rparr>"

text \<open>\<open>Number.isInteger(n) && n >= 100 && n <= 599 ? n : 400\<close>.\<close>

definition status_or_400 :: "jsnum \<Rightarrow> jsnum" where
  "status_or_400 n =
     (case n of Fin q \<Rightarrow> if snd (quotient_of q) = 1 \<and> 100 \<le> q \<and> q \<le> 599 then Fin q else Fin 400
      | _ \<Rightarrow> Fin 400)"

text \<open>The branch for a JSON object.\<close>

definition return_error_object :: "props \<Rightarrow> return_error_draft option" where
  "return_error_object parsed =
     (case js_Number (if obj_get parsed ''status_code'' \<noteq> JUndefined
                      then obj_get parsed ''status_code'' else obj_get parsed ''status'') of None \<Rightarrow> None
      | Some statusValue \<Rightarrow>
         (case js_string (js_or (js_or (obj_get parsed ''message'') (obj_get parsed ''msg'')) (JStr [])) of None \<Rightarrow> None
          | Some message \<Rightarrow>
             (case js_string (js_or (obj_get parsed ''code'') (JStr [])) of None \<Rightarrow> None
              | Some code \<Rightarrow>
                 (case js_string (js_or (obj_get parsed ''type'') (JStr [])) of None \<Rightarrow> None
                  | Some type \<Rightarrow> Some
                      \<lparr>r_message = trim message, r_statusCode = status_or_400 statusValue,
                       r_code = trim code, r_type = trim type,
                       r_skipRetry = (obj_get parsed ''skip_retry'' \<noteq> JBool False),
                       r_simpleMode = False\<rparr>))))"

definition parseReturnErrorDraft :: "string \<Rightarrow> return_error_draft" where
  "parseReturnErrorDraft valueText =
     (let raw = trim valueText;
          plain = return_error_defaults\<lparr>r_message := raw, r_simpleMode := True\<rparr>
      in if raw = [] then return_error_defaults
         else case json_parse raw of
           Some (JObj parsed) \<Rightarrow> (case return_error_object parsed of Some d \<Rightarrow> d | None \<Rightarrow> plain)
         | _ \<Rightarrow> plain)"

definition return_error_payload :: "return_error_draft \<Rightarrow> props" where
  "return_error_payload draft =
     [(''message'', JStr (trim (r_message draft))),
      (''status_code'', JNum (status_or_400 (r_statusCode draft)))]
     @ opt_prop (trim (r_code draft) \<noteq> []) ''code'' (JStr (trim (r_code draft)))
     @ opt_prop (trim (r_type draft) \<noteq> []) ''type'' (JStr (trim (r_type draft)))
     @ opt_prop (\<not> r_skipRetry draft) ''skip_retry'' (JBool False)"

definition buildReturnErrorValueText :: "return_error_draft \<Rightarrow> string" where
  "buildReturnErrorValueText draft =
     (if r_simpleMode draft then trim (r_message draft)
      else json_text (JObj (return_error_payload draft)))"

subsection \<open>\<open>prune_objects\<close>\<close>

text \<open>The type \<open>PruneRule\<close> has the fields of a condition.\<close>

type_synonym prune_rule = param_condition

record prune_draft =
  p_simpleMode :: bool
  p_typeText :: string
  p_logic :: string
  p_recursive :: bool
  p_rules :: "prune_rule list"

definition prune_defaults :: prune_draft where
  "prune_defaults = \<lparr>p_simpleMode = True, p_typeText = [], p_logic = ''AND'', p_recursive = True, p_rules = []\<rparr>"

text \<open>The argument is an object or an array.\<close>

definition normalizePruneRule :: "clock \<Rightarrow> nat \<Rightarrow> jsval \<Rightarrow> prune_rule" where
  "normalizePruneRule now n rule =
     \<lparr>c_id = nextLocalId now n,
      c_path = string_or_empty (js_get rule ''path''),
      c_mode = word_or CONDITION_MODE_VALUES ''full'' (js_get rule ''mode''),
      c_value_text = toValueText (js_get rule ''value''),
      c_invert = (js_get rule ''invert'' = JBool True),
      c_pass_missing_key = (js_get rule ''pass_missing_key'' = JBool True)\<rparr>"

text \<open>\<open>rules.push(normalizePruneRule(item))\<close> for each item of a list.\<close>

fun push_rules :: "clock \<Rightarrow> nat \<Rightarrow> jsval list \<Rightarrow> prune_rule list \<times> nat" where
  "push_rules now n [] = ([], n)"
| "push_rules now n (v # vs) =
     (case push_rules now (Suc n) vs of (rs, m) \<Rightarrow> (normalizePruneRule now n v # rs, m))"

text \<open>\<open>Object.entries(o)\<close> as the rules \<open>{ path, mode: 'full', value }\<close>.\<close>

definition entry_rules :: "props \<Rightarrow> jsval list" where
  "entry_rules ps = map (\<lambda>(path, value). JObj [(''path'', JStr path), (''mode'', JStr ''full''), (''value'', value)]) ps"

definition prune_rule_values :: "props \<Rightarrow> jsval list" where
  "prune_rule_values parsed =
     (case obj_get parsed ''where'' of JObj w \<Rightarrow> entry_rules w | _ \<Rightarrow> [])
     @ (case obj_get parsed ''conditions'' of
          JArr cs \<Rightarrow> filter is_object cs
        | JObj cs \<Rightarrow> entry_rules cs
        | _ \<Rightarrow> [])"

definition parsePruneObjectsDraft :: "clock \<Rightarrow> nat \<Rightarrow> string \<Rightarrow> prune_draft \<times> nat" where
  "parsePruneObjectsDraft now n valueText =
     (let raw = trim valueText;
          plain = prune_defaults\<lparr>p_typeText := raw\<rparr>
      in if raw = [] then (prune_defaults, n)
         else case json_parse raw of
           None \<Rightarrow> (plain, n)
         | Some (JStr s) \<Rightarrow> (prune_defaults\<lparr>p_typeText := trim s\<rparr>, n)
         | Some (JObj parsed) \<Rightarrow>
             (case push_rules now n (prune_rule_values parsed) of (rules, n') \<Rightarrow>
                (case if obj_get parsed ''type'' = JUndefined then Some []
                      else map_option trim (js_string (obj_get parsed ''type'')) of
                   None \<Rightarrow> (plain, n')
                 | Some typeText \<Rightarrow>
                    (case js_string (js_or (obj_get parsed ''logic'') (JStr ''AND'')) of
                       None \<Rightarrow> (plain, n')
                     | Some logic \<Rightarrow>
                        (\<lparr>p_simpleMode =
                            (obj_get parsed ''logic'' = JUndefined \<and> obj_get parsed ''recursive'' = JUndefined
                             \<and> obj_get parsed ''where'' = JUndefined \<and> obj_get parsed ''conditions'' = JUndefined),
                          p_typeText = typeText,
                          p_logic = (if upper_is logic ''OR'' then ''OR'' else ''AND''),
                          p_recursive = (obj_get parsed ''recursive'' \<noteq> JBool False),
                          p_rules = rules\<rparr>, n'))))
         | Some v \<Rightarrow>
             (case js_string (if v = JNull then JStr [] else v) of
                None \<Rightarrow> (plain, n)
              | Some s \<Rightarrow> (prune_defaults\<lparr>p_typeText := trim s\<rparr>, n)))"

definition prune_condition_payload :: "prune_rule \<Rightarrow> jsval" where
  "prune_condition_payload rule = JObj
     ([(''path'', JStr (trim (c_path rule))),
       (''mode'', JStr (if c_mode rule \<in> set CONDITION_MODE_VALUES then c_mode rule else ''full''))]
      @ opt_prop (trim (c_value_text rule) \<noteq> []) ''value'' (parseLooseValue (trim (c_value_text rule)))
      @ opt_prop (c_invert rule) ''invert'' (JBool True)
      @ opt_prop (c_pass_missing_key rule) ''pass_missing_key'' (JBool True))"

definition prune_payload :: "prune_draft \<Rightarrow> props" where
  "prune_payload draft =
     (let typeText = trim (p_typeText draft);
          conditions = map prune_condition_payload (filter (\<lambda>rule. trim (c_path rule) \<noteq> []) (p_rules draft))
      in opt_prop (typeText \<noteq> []) ''type'' (JStr typeText)
         @ opt_prop (upper_is (if p_logic draft = [] then ''AND'' else p_logic draft) ''OR'') ''logic'' (JStr ''OR'')
         @ opt_prop (\<not> p_recursive draft) ''recursive'' (JBool False)
         @ opt_prop (conditions \<noteq> []) ''conditions'' (JArr conditions))"

definition buildPruneObjectsValueText :: "prune_draft \<Rightarrow> string" where
  "buildPruneObjectsValueText draft =
     (if p_simpleMode draft then trim (p_typeText draft)
      else if obj_get (prune_payload draft) ''type'' = JUndefined \<and> obj_get (prune_payload draft) ''conditions'' = JUndefined
      then json_text (JObj [(''logic'', JStr ''AND'')])
      else json_text (JObj (prune_payload draft)))"

subsection \<open>\<open>pass_headers\<close>\<close>

text \<open>\<open>String(i ?? '').trim()\<close>.\<close>

definition header_text :: "jsval \<Rightarrow> string option" where
  "header_text v = (if v = JUndefined \<or> v = JNull then Some [] else map_option trim (js_string v))"

definition header_texts :: "jsval list \<Rightarrow> string list option" where
  "header_texts vs = map_option (filter (\<lambda>s. s \<noteq> [])) (those (map header_text vs))"

definition parsePassHeaderNames :: "jsval \<Rightarrow> string list option" where
  "parsePassHeaderNames rawValue =
     (case rawValue of
        JArr vs \<Rightarrow> header_texts vs
      | JObj obj \<Rightarrow>
          (case obj_get obj ''headers'' of
             JArr vs \<Rightarrow> header_texts vs
           | _ \<Rightarrow>
              if obj_get obj ''header'' \<noteq> JUndefined
              then map_option (\<lambda>single. if single = [] then [] else [single]) (header_text (obj_get obj ''header''))
              else Some [])
      | JStr s \<Rightarrow> Some (csv_parts s)
      | _ \<Rightarrow> Some [])"

subsection \<open>Laws of the ends of \<open>sync_fields\<close>\<close>

lemma graphic_not_in_ws: "graphic c \<Longrightarrow> w \<in> set js_ws \<Longrightarrow> c \<notin> set w"
  by (auto simp: js_ws_def graphic_def)

lemma ws_last_behind:
  assumes "graphic c" "k \<noteq> []" "ws_last k = 0"
  shows "ws_last (s @ c # k) = 0"
  unfolding ws_last_0_iff
proof (intro ballI notI)
  fix w assume w: "w \<in> set js_ws" "suffix w (s @ c # k)"
  have "\<not> suffix w k" using assms(3) w(1) by (simp add: ws_last_0_iff)
  moreover have "suffix k (s @ c # k)" "suffix (c # k) (s @ c # k)" by (auto simp: suffix_def)
  ultimately have "suffix k w" "w \<noteq> k" using w(2) suffix_same_cases by auto
  then have "suffix (c # k) w"
    using w(2) \<open>suffix (c # k) (s @ c # k)\<close>
    by (metis Suc_le_eq length_Cons order_le_less suffix_length_le suffix_length_suffix suffix_order.antisym)
  then show False using graphic_not_in_ws [OF assms(1) w(1)] by (auto simp: suffix_def)
qed

lemma trim_prefixed:
  assumes "graphic (hd pre)" "pre \<noteq> []" "graphic c" "trim k = k" "k \<noteq> []"
  shows "trim (pre @ c # k) = pre @ c # k"
proof (rule trim_fixed)
  show "ws_head (pre @ c # k) = 0" using assms(1, 2) by (cases pre) (auto simp: ws_head_graphic)
  have "ws_last k = 0" by (metis assms(4) ws_last_trim)
  then show "ws_last (pre @ c # k) = 0" using ws_last_behind assms(3, 5) by blast
qed

text \<open>C37. The two ends of a field synchronisation are kept through the text: the kind and the trimmed
  key that were chosen are read back, and an end without a key is the empty text.\<close>

theorem sync_target_roundtrip:
  "parseSyncTargetSpec (buildSyncTargetSpec type key) =
     (if trim key = [] then (''json'', []) else (if type = ''header'' then ''header'' else ''json'', trim key))"
proof (cases "trim key = []")
  case True
  then show ?thesis by (simp add: buildSyncTargetSpec_def parseSyncTargetSpec_def)
next
  case False
  have t: "trim (pre @ CHR '':'' # trim key) = pre @ CHR '':'' # trim key"
    if "pre = ''header'' \<or> pre = ''json''" for pre
    using that False by (intro trim_prefixed) (auto simp: graphic_def)
  have w: "trim ''header'' = ''header''" "trim ''json'' = ''json''"
    by (auto intro!: trim_graphic simp: graphic_def)
  show ?thesis
    using t [of "''header''"] t [of "''json''"] False w
    by (simp add: buildSyncTargetSpec_def parseSyncTargetSpec_def ascii_lower_def)
qed

subsection \<open>Laws of \<open>return_error\<close>\<close>

lemma status_or_400_cases:
  "\<exists>m. status_or_400 n = Fin (of_int m) \<and> 100 \<le> m \<and> m \<le> 599"
proof (cases "\<exists>q. n = Fin q \<and> snd (quotient_of q) = 1 \<and> 100 \<le> q \<and> q \<le> 599")
  case True
  then obtain q where q: "n = Fin q" "snd (quotient_of q) = 1" "100 \<le> q" "q \<le> 599" by blast
  then have "q = of_int (fst (quotient_of q))" by (metis quotient_of_div div_by_1 of_int_1 prod.collapse)
  with q show ?thesis
    by (intro exI [of _ "fst (quotient_of q)"] conjI)
      (simp add: status_or_400_def, metis of_int_le_iff of_int_numeral, metis of_int_le_iff of_int_numeral)
next
  case False
  then have "status_or_400 n = Fin 400" by (auto simp: status_or_400_def split: jsnum.splits)
  then show ?thesis by (intro exI [of _ 400]) simp
qed

lemma status_or_400_idem [simp]: "status_or_400 (status_or_400 n) = status_or_400 n"
  by (auto simp: status_or_400_def split: jsnum.splits)

lemma return_error_payload_wf: "wf_json (JObj (return_error_payload d))"
proof -
  obtain m where "status_or_400 (r_statusCode d) = Fin (of_int m)" using status_or_400_cases by blast
  then have "list_all (\<lambda>(k, v). wf_json v) (return_error_payload d)" by (simp add: return_error_payload_def)
  moreover have "wf_props (return_error_payload d)"
    by (rule wf_props_names) (simp add: return_error_payload_def image_Un)
  ultimately show ?thesis by simp
qed

lemma return_error_object_payload:
  "return_error_object (return_error_payload d) =
     Some (d\<lparr>r_message := trim (r_message d), r_statusCode := status_or_400 (r_statusCode d),
             r_code := trim (r_code d), r_type := trim (r_type d), r_simpleMode := False\<rparr>)"
proof -
  have "status_or_400 (r_statusCode d) \<noteq> NaN" using status_or_400_cases [of "r_statusCode d"] by auto
  then show ?thesis
    by (simp add: return_error_object_def return_error_payload_def js_or_def)
qed

lemma return_error_advanced:
  "\<not> r_simpleMode d \<Longrightarrow>
   parseReturnErrorDraft (buildReturnErrorValueText d) =
     d\<lparr>r_message := trim (r_message d), r_statusCode := status_or_400 (r_statusCode d),
       r_code := trim (r_code d), r_type := trim (r_type d)\<rparr>"
  using return_error_payload_wf [of d] return_error_object_payload [of d]
  by (simp add: parseReturnErrorDraft_def buildReturnErrorValueText_def trim_json_text
      json_parse_text json_text_neq_Nil Let_def del: json_text.simps wf_json.simps)

lemma return_error_simple:
  "r_simpleMode d \<Longrightarrow> json_object (trim (r_message d)) = None \<Longrightarrow>
   parseReturnErrorDraft (buildReturnErrorValueText d) = return_error_defaults\<lparr>r_message := trim (r_message d)\<rparr>"
  by (auto simp: parseReturnErrorDraft_def buildReturnErrorValueText_def json_object_def return_error_defaults_def
      Let_def split: option.splits jsval.splits)

subsection \<open>Laws of \<open>prune_objects\<close>\<close>

text \<open>A condition without its identifier.\<close>

definition anon :: "param_condition \<Rightarrow> param_condition" where
  "anon c = c\<lparr>c_id := []\<rparr>"

text \<open>What is kept of a condition that is written and read back.\<close>

definition stored_rule :: "prune_rule \<Rightarrow> prune_rule" where
  "stored_rule r = r\<lparr>c_path := trim (c_path r),
     c_mode := (if c_mode r \<in> set CONDITION_MODE_VALUES then c_mode r else ''full''),
     c_value_text := (if trim (c_value_text r) = [] then [] else toValueText (parseLooseValue (c_value_text r)))\<rparr>"

lemma full_known [simp]: "''full'' \<in> set CONDITION_MODE_VALUES"
  by (simp add: CONDITION_MODE_VALUES_def CONDITION_MODE_OPTIONS_def)

lemma normalizePruneRule_payload:
  "anon (normalizePruneRule now n (prune_condition_payload r)) = anon (stored_rule r)"
  by (cases r) (simp add: normalizePruneRule_def prune_condition_payload_def stored_rule_def anon_def
      word_or_def)

lemma push_rules_ids:
  "snd (push_rules now n vs) = n + length vs"
  "map c_id (fst (push_rules now n vs)) = map (nextLocalId now) [n..<n + length vs]"
proof (induction vs arbitrary: n)
  case (Cons v vs)
  { case 1 show ?case using Cons(1) [of "Suc n"] by (simp add: case_prod_unfold) }
  { case 2 show ?case using Cons(2) [of "Suc n"]
      by (simp add: normalizePruneRule_def upt_conv_Cons case_prod_unfold del: upt_Suc) }
qed simp_all

lemma push_rules_view:
  "map anon (fst (push_rules now n vs)) = map (\<lambda>v. anon (normalizePruneRule now 0 v)) vs"
proof (induction vs arbitrary: n)
  case (Cons v vs)
  then show ?case using Cons [of "Suc n"]
    by (simp add: normalizePruneRule_def anon_def case_prod_unfold)
qed simp

lemma nextLocalId_inject: "nextLocalId now m = nextLocalId now n \<Longrightarrow> m = n"
proof -
  assume eq: "nextLocalId now m = nextLocalId now n"
  have u: "CHR ''_'' \<notin> set (digits_of_nat k)" for k by (rule digits_of_nat_no) (simp add: is_digit_def)
  have "rev (takeWhile (\<lambda>c. c \<noteq> CHR ''_'') (rev (nextLocalId now k))) = digits_of_nat k" for k
  proof -
    have "takeWhile (\<lambda>c. c \<noteq> CHR ''_'') (rev (digits_of_nat k) @ CHR ''_'' # xs) = rev (digits_of_nat k)" for xs
      using u [of k] by (subst takeWhile_append2) auto
    then show ?thesis by (simp add: nextLocalId_def)
  qed
  then show ?thesis using eq digits_of_nat_inject by metis
qed

lemma prune_condition_payload_wf: "plain_value (c_value_text r) \<Longrightarrow> wf_json (prune_condition_payload r)"
proof -
  assume "plain_value (c_value_text r)"
  from parseLooseValue_wf [OF this] show ?thesis
    unfolding prune_condition_payload_def wf_json.simps
    by (intro conjI wf_props_names) (simp_all add: image_Un)
qed

lemma prune_payload_wf:
  assumes "\<And>r. r \<in> set (p_rules d) \<Longrightarrow> plain_value (c_value_text r)"
  shows "wf_json (JObj (prune_payload d))"
proof -
  have "list_all wf_json (map prune_condition_payload (filter (\<lambda>rule. trim (c_path rule) \<noteq> []) (p_rules d)))"
    using assms prune_condition_payload_wf by (auto simp: list_all_iff)
  then have "list_all (\<lambda>(k, v). wf_json v) (prune_payload d)" by (simp add: prune_payload_def Let_def)
  moreover have "wf_props (prune_payload d)"
    by (rule wf_props_names) (simp add: prune_payload_def Let_def image_Un)
  ultimately show ?thesis by simp
qed

text \<open>What the draft becomes when it is written and read back; the rules lose their identifiers.\<close>

definition stored_rules :: "prune_draft \<Rightarrow> prune_rule list" where
  "stored_rules d = map (\<lambda>r. anon (stored_rule r)) (filter (\<lambda>r. trim (c_path r) \<noteq> []) (p_rules d))"

lemma payload_rule_values:
  "prune_rule_values (prune_payload d) = map prune_condition_payload (filter (\<lambda>r. trim (c_path r) \<noteq> []) (p_rules d))"
proof -
  have "is_object (prune_condition_payload r)" for r by (simp add: prune_condition_payload_def)
  then show ?thesis
    by (simp add: prune_rule_values_def prune_payload_def Let_def filter_id_conv)
qed

lemma prune_advanced:
  assumes "\<not> p_simpleMode d" "\<And>r. r \<in> set (p_rules d) \<Longrightarrow> plain_value (c_value_text r)"
    "p_logic d = ''AND'' \<or> p_logic d = ''OR''"
  defines "bare \<equiv> trim (p_typeText d) = [] \<and> stored_rules d = []"
  obtains d' n' where "parsePruneObjectsDraft now n (buildPruneObjectsValueText d) = (d', n')"
    "map anon (p_rules d') = stored_rules d" "p_typeText d' = trim (p_typeText d)"
    "p_logic d' = (if bare then ''AND'' else p_logic d)" "p_recursive d' = (bare \<or> p_recursive d)"
    "p_simpleMode d' = (\<not> bare \<and> p_logic d = ''AND'' \<and> p_recursive d \<and> stored_rules d = [])"
proof (cases bare)
  case True
  have "wf_json (JObj [(''logic'', JStr ''AND'')])" by code_simp
  moreover have "buildPruneObjectsValueText d = json_text (JObj [(''logic'', JStr ''AND'')])"
    using True assms(1)
    by (simp add: bare_def buildPruneObjectsValueText_def stored_rules_def prune_payload_def Let_def
        del: json_text.simps)
  ultimately have "parsePruneObjectsDraft now n (buildPruneObjectsValueText d) = (prune_defaults\<lparr>p_simpleMode := False\<rparr>, n)"
    by (simp add: parsePruneObjectsDraft_def trim_json_text json_text_neq_Nil json_parse_text Let_def
        prune_rule_values_def js_or_def prune_defaults_def
        del: json_text.simps wf_json.simps)
  then show ?thesis using True by (intro that [of "prune_defaults\<lparr>p_simpleMode := False\<rparr>" n])
      (auto simp: prune_defaults_def bare_def)
next
  case False
  let ?rs = "filter (\<lambda>r. trim (c_path r) \<noteq> []) (p_rules d)"
  obtain rules n' where rules: "push_rules now n (map prune_condition_payload ?rs) = (rules, n')" by fastforce
  then have view: "map anon rules = stored_rules d"
    using push_rules_view [of now n "map prune_condition_payload ?rs"]
    by (simp add: normalizePruneRule_payload stored_rules_def)
  have wf: "wf_json (JObj (prune_payload d))" using prune_payload_wf assms(2) by blast
  have out: "buildPruneObjectsValueText d = json_text (JObj (prune_payload d))"
    using False assms(1)
    by (auto simp: bare_def buildPruneObjectsValueText_def stored_rules_def prune_payload_def Let_def
        simp del: json_text.simps)
  have get: "obj_get (prune_payload d) ''where'' = JUndefined"
    "obj_get (prune_payload d) ''type'' = (if trim (p_typeText d) = [] then JUndefined else JStr (trim (p_typeText d)))"
    "obj_get (prune_payload d) ''logic'' = (if p_logic d = ''OR'' then JStr ''OR'' else JUndefined)"
    "obj_get (prune_payload d) ''recursive'' = (if p_recursive d then JUndefined else JBool False)"
    "obj_get (prune_payload d) ''conditions'' = (if ?rs = [] then JUndefined else JArr (map prune_condition_payload ?rs))"
    using assms(3) by (auto simp: prune_payload_def Let_def)
  let ?d = "\<lparr>p_simpleMode = (p_logic d = ''AND'' \<and> p_recursive d \<and> ?rs = []), p_typeText = trim (p_typeText d),
       p_logic = p_logic d, p_recursive = p_recursive d, p_rules = rules\<rparr>"
  have "parsePruneObjectsDraft now n (json_text (JObj (prune_payload d))) = (?d, n')"
    using assms(3)
    by (auto simp: parsePruneObjectsDraft_def trim_json_text json_text_neq_Nil json_parse_text Let_def wf
        payload_rule_values rules get js_or_def
        simp del: json_text.simps wf_json.simps)
  with out view False show ?thesis
    by (intro that [of ?d n']) (simp_all add: stored_rules_def del: json_text.simps)
qed

end
