(* ===== verification/Param_Document.thy ===== *)
theory Param_Document
  imports Param_Drafts
begin

section \<open>Documents of override rules\<close>

text \<open>
  The rules as a list and as the stored JSON document (\<open>param-override-editor-dialog.tsx\<close>, the
  functions above the component): moving a rule, empty rules, the summary line, the check before a
  document is written, the writer and the reader.  The writer throws when the check fails, and
  the check itself throws a \<open>TypeError\<close> for a header name that cannot be converted to text; both are
  values of \<open>build_error\<close>.  The proofs show that what is written has the shape of a document, that
  it is read back as the same rules, and that writing it again changes nothing.
\<close>

subsection \<open>Lists of rules\<close>

datatype drop_position = Before | After

definition reorderOperations ::
  "param_operation list \<Rightarrow> string \<Rightarrow> string \<Rightarrow> drop_position \<Rightarrow> param_operation list" where
  "reorderOperations ops sourceId targetId position =
     (if sourceId = [] \<or> targetId = [] \<or> sourceId = targetId then ops
      else case find_index (\<lambda>r. o_id r = sourceId) ops of None \<Rightarrow> ops
      | Some srcIdx \<Rightarrow>
         (let moved = ops ! srcIdx;
              rest = take srcIdx ops @ drop (Suc srcIdx) ops
          in case find_index (\<lambda>r. o_id r = targetId) rest of None \<Rightarrow> ops
             | Some i \<Rightarrow>
                let insertIdx = (if position = After then i + 1 else i)
                in take insertIdx rest @ moved # drop insertIdx rest))"

definition isOperationBlank :: "param_operation \<Rightarrow> bool" where
  "isOperationBlank operation \<longleftrightarrow>
     (let hasCondition = list_ex (\<lambda>c. trim (c_path c) \<noteq> [] \<or> trim (c_value_text c) \<noteq> [] \<or> c_mode c \<noteq> ''full''
            \<or> c_invert c \<or> c_pass_missing_key c) (o_conditions operation)
      in o_mode operation = ''set'' \<and> trim (o_path operation) = [] \<and> trim (o_from operation) = []
         \<and> trim (o_to operation) = [] \<and> trim (o_value_text operation) = [] \<and> \<not> o_keep_origin operation
         \<and> \<not> hasCondition)"

text \<open>\<open>a || b\<close> on strings.\<close>

definition text_or :: "string \<Rightarrow> string \<Rightarrow> string" where
  "text_or a b = (if a = [] then b else a)"

text \<open>The summary line of a rule; the separator is a middle dot between blanks.\<close>

definition getOperationSummary :: "param_operation \<Rightarrow> nat \<Rightarrow> string" where
  "getOperationSummary operation index =
     (let mode = text_or (o_mode operation) ''set'';
          modeLabel = (case OPERATION_MODE_LABEL_MAP mode of Some l \<Rightarrow> text_or l mode | None \<Rightarrow> mode);
          front = digits_of_nat (index + 1) @ ''. '' @ modeLabel @ [CHR 0x20, CHR 0xC2, CHR 0xB7, CHR 0x20];
          path = trim (o_path operation);
          from = trim (o_from operation);
          to = trim (o_to operation)
      in if mode = ''sync_fields'' then front @ text_or from (text_or to ''-'')
         else front @ text_or path (text_or from (text_or to ''-'')))"

subsection \<open>The check\<close>

datatype rule_check = Check_ok | Check_error string | Check_throws

text \<open>One turn of the loop of \<open>validateOperations\<close>: the message without its line number.\<close>

definition validate_rule :: "param_operation \<Rightarrow> rule_check" where
  "validate_rule op =
     (let mode = text_or (o_mode op) ''set'';
          meta = mode_meta_of mode;
          pathValue = trim (o_path op);
          fromValue = trim (o_from op);
          toValue = trim (o_to op);
          raw = trim (o_value_text op)
      in if m_path meta \<and> pathValue = [] then Check_error ''is missing target path''
         else if mode \<in> set FROM_REQUIRED_MODES \<and> fromValue = [] \<and> \<not> (m_pathAlias meta \<and> pathValue \<noteq> [])
         then Check_error ''is missing source field''
         else if mode \<in> set TO_REQUIRED_MODES \<and> toValue = [] \<and> \<not> (m_pathAlias meta \<and> pathValue \<noteq> [])
         then Check_error ''is missing target field''
         else if mode \<in> set VALUE_REQUIRED_MODES \<and> raw = [] then Check_error ''is missing value''
         else if mode = ''return_error'' then
           (if raw = [] then Check_error ''is missing value''
            else case json_parse raw of
              Some (JObj parsed) \<Rightarrow>
                (case js_string (js_or (obj_get parsed ''message'') (JStr [])) of
                   Some m \<Rightarrow> if trim m = [] then Check_error ''return_error requires a message field'' else Check_ok
                 | None \<Rightarrow> Check_ok)
            | _ \<Rightarrow> Check_ok)
         else if mode = ''prune_objects'' then
           (if raw = [] then Check_error ''prune_objects is missing conditions'' else Check_ok)
         else if mode = ''pass_headers'' then
           (if raw = [] then Check_error ''pass_headers is missing header names''
            else case parsePassHeaderNames (parseLooseValue raw) of None \<Rightarrow> Check_throws
            | Some headers \<Rightarrow> if headers = [] then Check_error ''pass_headers format is invalid'' else Check_ok)
         else Check_ok)"

datatype build_error = Rule_error nat string | Type_error

fun validate_from :: "nat \<Rightarrow> param_operation list \<Rightarrow> build_error option" where
  "validate_from i [] = None"
| "validate_from i (op # ops) =
     (case validate_rule op of
        Check_ok \<Rightarrow> validate_from (i + 1) ops
      | Check_error m \<Rightarrow> Some (Rule_error (i + 1) m)
      | Check_throws \<Rightarrow> Some Type_error)"

definition validateOperations :: "param_operation list \<Rightarrow> build_error option" where
  "validateOperations operations = validate_from 0 operations"

subsection \<open>Writing\<close>

definition buildConditionPayload :: "param_condition \<Rightarrow> jsval option" where
  "buildConditionPayload condition =
     (let path = trim (c_path condition)
      in if path = [] then None
         else Some (JObj
           ([(''path'', JStr path), (''mode'', JStr (text_or (c_mode condition) ''full'')),
             (''value'', parseLooseValue (c_value_text condition))]
            @ opt_prop (c_invert condition) ''invert'' (JBool True)
            @ opt_prop (c_pass_missing_key condition) ''pass_missing_key'' (JBool True))))"

text \<open>\<open>if (b) payload[k] = v\<close>.\<close>

definition put_if :: "bool \<Rightarrow> string \<Rightarrow> jsval \<Rightarrow> props \<Rightarrow> props" where
  "put_if b k v payload = (if b then obj_put k v payload else payload)"

definition operation_payload :: "param_operation \<Rightarrow> props" where
  "operation_payload operation =
     (let mode = text_or (o_mode operation) ''set'';
          meta = mode_meta_of mode;
          descriptionValue = trim (o_description operation);
          pathValue = trim (o_path operation);
          fromValue = trim (o_from operation);
          toValue = trim (o_to operation);
          p0 = [(''mode'', JStr mode)];
          p1 = put_if (descriptionValue \<noteq> []) ''description'' (JStr descriptionValue) p0;
          p2 = put_if (m_path meta) ''path'' (JStr pathValue) p1;
          p3 = put_if (m_pathOptional meta \<and> pathValue \<noteq> []) ''path'' (JStr pathValue) p2;
          p4 = put_if (m_value meta) ''value'' (parseLooseValue (o_value_text operation)) p3;
          p5 = put_if (m_keepOrigin meta \<and> o_keep_origin operation) ''keep_origin'' (JBool True) p4;
          p6 = put_if (m_from meta) ''from'' (JStr fromValue) p5;
          p7 = put_if (\<not> m_to meta \<and> toValue \<noteq> []) ''to'' (JStr toValue) p6;
          p8 = put_if (m_to meta) ''to'' (JStr toValue) p7;
          p9 = put_if (m_pathAlias meta \<and> \<not> truthy (obj_get p8 ''from'') \<and> pathValue \<noteq> []) ''from'' (JStr pathValue) p8;
          p10 = put_if (m_pathAlias meta \<and> \<not> truthy (obj_get p9 ''to'') \<and> pathValue \<noteq> []) ''to'' (JStr pathValue) p9;
          conditions = List.map_filter buildConditionPayload (o_conditions operation);
          p11 = put_if (conditions \<noteq> []) ''conditions'' (JArr conditions) p10
      in put_if (conditions \<noteq> []) ''logic'' (JStr (if o_logic operation = ''AND'' then ''AND'' else ''OR'')) p11)"

definition operations_document :: "param_operation list \<Rightarrow> jsval" where
  "operations_document ops = JObj [(''operations'', JArr (map (\<lambda>r. JObj (operation_payload r)) ops))]"

definition buildOperationsJson :: "param_operation list \<Rightarrow> bool \<Rightarrow> build_error + string" where
  "buildOperationsJson sourceOperations validate =
     (let filteredOps = filter (\<lambda>r. \<not> isOperationBlank r) sourceOperations
      in if filteredOps = [] then Inr []
         else case (if validate then validateOperations filteredOps else None) of
           Some e \<Rightarrow> Inl e
         | None \<Rightarrow> Inr (json_pretty (operations_document filteredOps)))"

subsection \<open>Reading\<close>

datatype edit_mode = Visual | Json_text
datatype visual_mode = Operations | Legacy

record editor_state =
  e_editMode :: edit_mode
  e_visualMode :: visual_mode
  e_legacyValue :: string
  e_operations :: "param_operation list"
  e_jsonText :: string
  e_jsonError :: string

text \<open>\<open>parsed.operations.length > 0 ? parsed.operations.map(normalizeOperation) : [createDefaultOperation()]\<close>.\<close>

definition read_operations :: "clock \<Rightarrow> nat \<Rightarrow> jsval list \<Rightarrow> (param_operation list \<times> nat) option" where
  "read_operations now n vs =
     (if vs = [] then Some (case createDefaultOperation now n of (r, n') \<Rightarrow> ([r], n'))
      else map_seed (normalizeOperation now) n vs)"

definition parseInitialState :: "clock \<Rightarrow> nat \<Rightarrow> string \<Rightarrow> (editor_state \<times> nat) option" where
  "parseInitialState now n rawValue =
     (let trimmed = trim rawValue;
          start = (\<lambda>em vm legacy text err. case createDefaultOperation now n of (r, n') \<Rightarrow>
            Some (\<lparr>e_editMode = em, e_visualMode = vm, e_legacyValue = legacy, e_operations = [r],
              e_jsonText = text, e_jsonError = err\<rparr>, n'))
      in if trimmed = [] then start Visual Operations [] [] []
         else case json_parse trimmed of
           None \<Rightarrow> start Json_text Operations [] rawValue ''Invalid JSON format''
         | Some parsed \<Rightarrow>
            (let pretty = json_pretty parsed
             in case parsed of
               JObj ps \<Rightarrow>
                 (case obj_get ps ''operations'' of
                    JArr vs \<Rightarrow>
                      map_option (\<lambda>(ops, n').
                        (\<lparr>e_editMode = Visual, e_visualMode = Operations, e_legacyValue = [], e_operations = ops,
                          e_jsonText = pretty, e_jsonError = []\<rparr>, n')) (read_operations now n vs)
                  | _ \<Rightarrow> start Visual Legacy pretty pretty [])
             | _ \<Rightarrow> start Json_text Operations [] pretty []))"

subsection \<open>Laws of the tables\<close>

lemmas meta_table = MODE_META_def no_meta_def Let_def

lemma mode_meta_of_in: "mode_meta_of mode \<in> snd ` set MODE_META"
proof -
  have *: "m \<in> snd ` set MODE_META" if "map_of MODE_META k = Some m" for k m
    using map_of_SomeD [OF that] by force
  have "map_of MODE_META ''set'' \<noteq> None" by code_simp
  then show ?thesis by (cases "map_of MODE_META mode") (auto simp: mode_meta_of_def intro: *)
qed

lemma meta_all: "list_all (\<lambda>(k, m). P m) MODE_META \<Longrightarrow> P (mode_meta_of mode)"
  using mode_meta_of_in [of mode] by (auto simp: list_all_iff)

lemma meta_alias: "m_pathAlias (mode_meta_of mode) \<Longrightarrow>
    m_from (mode_meta_of mode) \<and> m_to (mode_meta_of mode) \<and> \<not> m_path (mode_meta_of mode)
    \<and> \<not> m_pathOptional (mode_meta_of mode) \<and> \<not> m_value (mode_meta_of mode)"
  using meta_all [of "\<lambda>m. m_pathAlias m \<longrightarrow> m_from m \<and> m_to m \<and> \<not> m_path m \<and> \<not> m_pathOptional m \<and> \<not> m_value m" mode]
  by (simp add: meta_table)

lemma known_meta:
  assumes "list_all (\<lambda>(k, m). P k m) MODE_META" "mode \<in> set OPERATION_MODE_VALUES"
  shows "P mode (mode_meta_of mode)"
proof -
  have "mode \<in> set (map fst MODE_META)" using assms(2) mode_tables(1) by simp
  then obtain m where m: "map_of MODE_META mode = Some m" by (metis map_of_eq_None_iff not_None_eq set_map)
  then show ?thesis using assms(1) map_of_SomeD [OF m] by (auto simp: mode_meta_of_def list_all_iff)
qed

subsection \<open>The payload as a list\<close>

lemma obj_put_new: "k \<notin> fst ` set ps \<Longrightarrow> \<not> index_key k \<Longrightarrow> obj_put k v ps = ps @ [(k, v)]"
proof -
  assume a: "k \<notin> fst ` set ps" "\<not> index_key k"
  have "obj_insert k v ps = ps @ [(k, v)]" using a(2) by (induction ps) auto
  with a(1) show ?thesis by (simp add: obj_put.simps)
qed

lemma put_if_new:
  "k \<notin> fst ` set ps \<Longrightarrow> \<not> is_digit (hd k) \<Longrightarrow> put_if b k v ps = ps @ opt_prop b k v"
  by (simp add: put_if_def opt_prop_def obj_put_new not_index_key del: obj_put.simps)

lemma obj_put_mid:
  assumes "k \<notin> fst ` set xs" "k \<notin> fst ` set ys"
  shows "obj_put k v (xs @ (k, u) # ys) = xs @ (k, v) # ys"
proof -
  have "map (\<lambda>(k', v'). if k' = k then (k, v) else (k', v')) zs = zs" if "k \<notin> fst ` set zs" for zs
    using that by (induction zs) auto
  with assms show ?thesis by (simp add: obj_put.simps)
qed

text \<open>The source and the target of a payload; the path stands in where it may.\<close>

definition end_field :: "bool \<Rightarrow> string \<Rightarrow> string \<Rightarrow> string" where
  "end_field alias v path = (if alias then text_or v path else v)"

definition payload_list :: "param_operation \<Rightarrow> props" where
  "payload_list r =
     (let mode = text_or (o_mode r) ''set''; meta = mode_meta_of mode; path = trim (o_path r);
          from = end_field (m_pathAlias meta) (trim (o_from r)) path;
          to = end_field (m_pathAlias meta) (trim (o_to r)) path;
          conditions = List.map_filter buildConditionPayload (o_conditions r)
      in [(''mode'', JStr mode)]
         @ opt_prop (trim (o_description r) \<noteq> []) ''description'' (JStr (trim (o_description r)))
         @ opt_prop (m_path meta \<or> m_pathOptional meta \<and> path \<noteq> []) ''path'' (JStr path)
         @ opt_prop (m_value meta) ''value'' (parseLooseValue (o_value_text r))
         @ opt_prop (m_keepOrigin meta \<and> o_keep_origin r) ''keep_origin'' (JBool True)
         @ opt_prop (m_from meta) ''from'' (JStr from)
         @ opt_prop (m_to meta \<or> to \<noteq> []) ''to'' (JStr to)
         @ opt_prop (conditions \<noteq> []) ''conditions'' (JArr conditions)
         @ opt_prop (conditions \<noteq> []) ''logic'' (JStr (if o_logic r = ''AND'' then ''AND'' else ''OR'')))"

lemma obj_get_behind: "k \<notin> fst ` set xs \<Longrightarrow> obj_get (xs @ ys) k = obj_get ys k"
  by (induction xs) (auto simp: obj_get_def)

lemma put_if_mid:
  "k \<notin> fst ` set xs \<Longrightarrow> k \<notin> fst ` set ys \<Longrightarrow>
   put_if b k v (xs @ (k, u) # ys) = xs @ (k, if b then v else u) # ys"
  by (simp add: put_if_def obj_put_mid del: obj_put.simps)

lemma alias_ends:
  assumes "''from'' \<notin> fst ` set xs" "''to'' \<notin> fst ` set xs"
    "p8 = xs @ [(''from'', JStr f), (''to'', JStr t)]"
    "p9 = put_if (\<not> truthy (obj_get p8 ''from'') \<and> path \<noteq> []) ''from'' (JStr path) p8"
  shows "put_if (\<not> truthy (obj_get p9 ''to'') \<and> path \<noteq> []) ''to'' (JStr path) p9
    = xs @ [(''from'', JStr (text_or f path)), (''to'', JStr (text_or t path))]"
proof -
  have p9: "p9 = (xs @ [(''from'', JStr (text_or f path))]) @ [(''to'', JStr t)]"
    using assms put_if_mid [of "''from''" xs "[(''to'', JStr t)]"] by (auto simp: obj_get_behind text_or_def)
  show ?thesis
    unfolding p9 using assms(2) put_if_mid [of "''to''" "xs @ [(''from'', JStr (text_or f path))]" "[]"]
    by (auto simp: obj_get_behind text_or_def)
qed

lemma operation_payload_list: "operation_payload r = payload_list r"
proof -
  define mode where "mode = text_or (o_mode r) ''set''"
  define meta where "meta = mode_meta_of mode"
  define path where "path = trim (o_path r)"
  define cs where "cs = List.map_filter buildConditionPayload (o_conditions r)"
  let ?pre = "(''mode'', JStr mode) # opt_prop (trim (o_description r) \<noteq> []) ''description'' (JStr (trim (o_description r)))"
  let ?p3 = "?pre @ opt_prop (m_path meta \<or> m_pathOptional meta \<and> path \<noteq> []) ''path'' (JStr path)"
  let ?p5 = "?p3 @ opt_prop (m_value meta) ''value'' (parseLooseValue (o_value_text r))
     @ opt_prop (m_keepOrigin meta \<and> o_keep_origin r) ''keep_origin'' (JBool True)"
  let ?ends = "\<lambda>f t. opt_prop (m_from meta) ''from'' (JStr f) @ opt_prop (m_to meta \<or> t \<noteq> []) ''to'' (JStr t)"
  let ?from = "trim (o_from r)"
  let ?to = "trim (o_to r)"
  have one_path: "\<not> (m_path meta \<and> m_pathOptional meta)"
    unfolding meta_def by (rule meta_all) (simp add: meta_table)
  have p1: "put_if (trim (o_description r) \<noteq> []) ''description'' (JStr (trim (o_description r))) [(''mode'', JStr mode)] = ?pre"
    by (simp add: put_if_new)
  have p3: "put_if (m_pathOptional meta \<and> path \<noteq> []) ''path'' (JStr path) (put_if (m_path meta) ''path'' (JStr path) ?pre) = ?p3"
    using one_path by (cases "m_path meta") (simp_all add: put_if_new image_Un, simp add: put_if_def)
  have p5: "put_if (m_keepOrigin meta \<and> o_keep_origin r) ''keep_origin'' (JBool True)
      (put_if (m_value meta) ''value'' (parseLooseValue (o_value_text r)) ?p3) = ?p5"
    by (simp add: put_if_new image_Un)
  have p8: "put_if (m_to meta) ''to'' (JStr ?to) (put_if (\<not> m_to meta \<and> ?to \<noteq> []) ''to'' (JStr ?to)
      (put_if (m_from meta) ''from'' (JStr ?from) ?p5)) = ?p5 @ ?ends ?from ?to"
    by (cases "m_to meta") (simp_all add: put_if_new image_Un put_if_def [of False])
  have p10: "put_if (m_pathAlias meta \<and> \<not> truthy (obj_get p9 ''to'') \<and> path \<noteq> []) ''to'' (JStr path) p9 =
      ?p5 @ ?ends (end_field (m_pathAlias meta) ?from path) (end_field (m_pathAlias meta) ?to path)"
    if "p9 = put_if (m_pathAlias meta \<and> \<not> truthy (obj_get (?p5 @ ?ends ?from ?to) ''from'') \<and> path \<noteq> [])
      ''from'' (JStr path) (?p5 @ ?ends ?from ?to)" for p9
  proof (cases "m_pathAlias meta")
    case False
    with that show ?thesis by (simp add: put_if_def end_field_def)
  next
    case True
    then have ends: "m_from meta" "m_to meta" using meta_alias [of mode] by (simp_all add: meta_def)
    show ?thesis
      using alias_ends [of ?p5 _ ?from ?to p9 path, OF _ _ refl] that True ends
      by (simp add: image_Un end_field_def)
  qed
  have p12: "put_if (cs \<noteq> []) ''logic'' l (put_if (cs \<noteq> []) ''conditions'' (JArr cs) (?p5 @ ?ends f t)) =
      ?p5 @ ?ends f t @ opt_prop (cs \<noteq> []) ''conditions'' (JArr cs) @ opt_prop (cs \<noteq> []) ''logic'' l" for l f t
    by (simp add: put_if_new image_Un)
  show ?thesis
    unfolding operation_payload_def payload_list_def Let_def mode_def [symmetric] meta_def [symmetric]
      path_def [symmetric] cs_def [symmetric] p1 p3 p5 p8 p10 [OF refl] p12
    by simp
qed

subsection \<open>What is stored of a rule\<close>

definition anon_rule :: "param_operation \<Rightarrow> param_operation" where
  "anon_rule r = r\<lparr>o_id := [], o_conditions := map anon (o_conditions r)\<rparr>"

definition stored_condition :: "param_condition \<Rightarrow> param_condition" where
  "stored_condition c = c\<lparr>c_id := [], c_path := trim (c_path c), c_value_text := toValueText (parseLooseValue (c_value_text c))\<rparr>"

definition stored_conditions :: "param_operation \<Rightarrow> param_condition list" where
  "stored_conditions r = map stored_condition (filter (\<lambda>c. trim (c_path c) \<noteq> []) (o_conditions r))"

definition stored_operation :: "param_operation \<Rightarrow> param_operation" where
  "stored_operation r =
     (let meta = mode_meta_of (o_mode r); path = trim (o_path r)
      in \<lparr>o_id = [], o_description = trim (o_description r),
          o_path = (if m_path meta \<or> m_pathOptional meta then path else []),
          o_mode = o_mode r,
          o_from = (if m_from meta then end_field (m_pathAlias meta) (trim (o_from r)) path else []),
          o_to = end_field (m_pathAlias meta) (trim (o_to r)) path,
          o_value_text = (if m_value meta then toValueText (parseLooseValue (o_value_text r)) else []),
          o_keep_origin = (m_keepOrigin meta \<and> o_keep_origin r),
          o_logic = (if stored_conditions r \<noteq> [] \<and> o_logic r = ''AND'' then ''AND'' else ''OR''),
          o_conditions = stored_conditions r\<rparr>)"

text \<open>The modes come from the menus, and the numbers in the value texts are doubles.\<close>

definition known_rule :: "param_operation \<Rightarrow> bool" where
  "known_rule r \<longleftrightarrow> o_mode r \<in> set OPERATION_MODE_VALUES \<and> list_all (\<lambda>c. c_mode c \<in> set CONDITION_MODE_VALUES) (o_conditions r)"

definition plain_rule :: "param_operation \<Rightarrow> bool" where
  "plain_rule r \<longleftrightarrow> plain_value (o_value_text r) \<and> list_all (\<lambda>c. plain_value (c_value_text c)) (o_conditions r)"

lemma text_or_known [simp]:
  "m \<in> set OPERATION_MODE_VALUES \<Longrightarrow> text_or m ''set'' = m" "m \<in> set CONDITION_MODE_VALUES \<Longrightarrow> text_or m ''full'' = m"
  by (auto simp: text_or_def)

lemma buildConditionPayload_wf:
  assumes "plain_value (c_value_text c)" "buildConditionPayload c = Some v"
  shows "wf_json v"
proof -
  have "v = JObj ([(''path'', JStr (trim (c_path c))), (''mode'', JStr (text_or (c_mode c) ''full'')),
             (''value'', parseLooseValue (c_value_text c))]
            @ opt_prop (c_invert c) ''invert'' (JBool True) @ opt_prop (c_pass_missing_key c) ''pass_missing_key'' (JBool True))"
    using assms(2) by (auto simp: buildConditionPayload_def Let_def split: if_splits)
  then show ?thesis
    using parseLooseValue_wf [OF assms(1)] by (simp add: wf_props_names image_Un)
qed

lemma map_filter_conditions:
  "List.map_filter buildConditionPayload cs =
     map (\<lambda>c. the (buildConditionPayload c)) (filter (\<lambda>c. trim (c_path c) \<noteq> []) cs)"
  by (induction cs) (auto simp: map_filter_simps buildConditionPayload_def Let_def)

lemma operation_payload_wf: "plain_rule r \<Longrightarrow> wf_json (JObj (operation_payload r))"
proof -
  assume a: "plain_rule r"
  then have "wf_json (parseLooseValue (o_value_text r))" by (simp add: plain_rule_def parseLooseValue_wf)
  moreover have "list_all wf_json (List.map_filter buildConditionPayload (o_conditions r))"
    using a buildConditionPayload_wf by (fastforce simp: list_all_iff set_map_filter plain_rule_def)
  moreover have "wf_props (operation_payload r)"
    by (rule wf_props_names) (simp add: operation_payload_list payload_list_def Let_def image_Un)
  ultimately show ?thesis by (simp add: operation_payload_list payload_list_def Let_def)
qed

lemma normalize_condition_payload:
  assumes "c_mode c \<in> set CONDITION_MODE_VALUES" "trim (c_path c) \<noteq> []"
  shows "\<exists>d m. normalizeParamCondition now n (the (buildConditionPayload c)) = Some (d, m) \<and> anon d = stored_condition c"
  using assms
  by (cases c) (simp add: normalizeParamCondition_def buildConditionPayload_def Let_def stored_condition_def anon_def word_or_def)

lemma normalize_conditions_payload:
  assumes "list_all (\<lambda>c. c_mode c \<in> set CONDITION_MODE_VALUES) (o_conditions r)"
  shows "\<exists>ds m. map_seed (normalizeParamCondition now) n (List.map_filter buildConditionPayload (o_conditions r)) = Some (ds, m)
    \<and> map anon ds = stored_conditions r"
proof -
  let ?cs = "filter (\<lambda>c. trim (c_path c) \<noteq> []) (o_conditions r)"
  have "\<exists>d m. normalizeParamCondition now k v = Some (d, m) \<and> anon d = stored_condition c"
    if "c \<in> set ?cs" "v = the (buildConditionPayload c)" for c v k
    using normalize_condition_payload [of c now k] that assms by (auto simp: list_all_iff)
  then have "\<exists>ds m. map_seed (\<lambda>k c. normalizeParamCondition now k (the (buildConditionPayload c))) n ?cs = Some (ds, m)
      \<and> map anon ds = map stored_condition ?cs"
    by (intro map_seed_view) blast
  then show ?thesis by (simp add: map_filter_conditions stored_conditions_def map_seed_map)
qed

lemma normalize_operation_payload:
  assumes "known_rule r"
  shows "\<exists>r' m. normalizeOperation now n (JObj (operation_payload r)) = Some (r', m) \<and> anon_rule r' = stored_operation r"
proof -
  let ?meta = "mode_meta_of (o_mode r)"
  let ?cs = "List.map_filter buildConditionPayload (o_conditions r)"
  have mode: "o_mode r \<in> set OPERATION_MODE_VALUES"
    and cmodes: "list_all (\<lambda>c. c_mode c \<in> set CONDITION_MODE_VALUES) (o_conditions r)"
    using assms by (simp_all add: known_rule_def)
  obtain ds m where ds: "map_seed (normalizeParamCondition now) (Suc n) ?cs = Some (ds, m)" "map anon ds = stored_conditions r"
    using normalize_conditions_payload [OF cmodes] by blast
  have empty: "?cs = [] \<longleftrightarrow> stored_conditions r = []" by (simp add: map_filter_conditions stored_conditions_def)
  note get = operation_payload_list payload_list_def Let_def text_or_known(1) [OF mode]
  have logic: "js_string (js_or (obj_get (operation_payload r) ''logic'') (JStr ''OR''))
      = Some (if stored_conditions r \<noteq> [] \<and> o_logic r = ''AND'' then ''AND'' else ''OR'')"
    by (simp add: get empty js_or_def)
  have conds: "(case obj_get (operation_payload r) ''conditions'' of JArr cs \<Rightarrow> map_seed (normalizeParamCondition now) (Suc n) cs
       | _ \<Rightarrow> Some ([], Suc n)) = (if ?cs = [] then Some ([], Suc n) else Some (ds, m))"
    by (simp add: get ds(1))
  obtain ds' m' where ds': "(if ?cs = [] then Some ([], Suc n) else Some (ds, m)) = Some (ds', m')" "map anon ds' = stored_conditions r"
    using ds(2) empty by (cases "?cs = []") auto
  show ?thesis
    unfolding normalizeOperation_def js_get.simps logic conds ds'(1)
    using ds'(2) mode by (simp add: get stored_operation_def anon_rule_def word_or_def)
qed

lemma operations_document_wf: "list_all plain_rule ops \<Longrightarrow> wf_json (operations_document ops)"
proof -
  assume "list_all plain_rule ops"
  then have "list_all wf_json (map (\<lambda>r. JObj (operation_payload r)) ops)"
    using operation_payload_wf by (simp add: list_all_iff del: wf_json.simps(4))
  then show ?thesis unfolding operations_document_def wf_json.simps(4) by (simp add: wf_props_names)
qed

text \<open>Reading a document gives the stored rules, with new identifiers.\<close>

lemma read_payloads:
  assumes "list_all known_rule ops" "ops \<noteq> []"
  obtains rs m where "read_operations now n (map (\<lambda>r. JObj (operation_payload r)) ops) = Some (rs, m)"
    "map anon_rule rs = map stored_operation ops"
proof -
  have "\<exists>r' m. normalizeOperation now k (JObj (operation_payload r)) = Some (r', m) \<and> anon_rule r' = stored_operation r"
    if "r \<in> set ops" for k r using normalize_operation_payload that assms(1) by (auto simp: list_all_iff)
  then have "\<exists>rs m. map_seed (\<lambda>k r. normalizeOperation now k (JObj (operation_payload r))) n ops = Some (rs, m)
      \<and> map anon_rule rs = map stored_operation ops"
    by (intro map_seed_view) blast
  then show ?thesis using assms(2) that by (auto simp: read_operations_def map_seed_map)
qed

lemma document_text:
  assumes "list_all plain_rule ops"
  shows "json_parse (json_pretty (operations_document ops)) = Some (operations_document ops)"
    "trim (json_pretty (operations_document ops)) = json_pretty (operations_document ops)"
    "json_pretty (operations_document ops) \<noteq> []"
proof -
  have wf: "wf_json (operations_document ops)" by (rule operations_document_wf [OF assms])
  show "json_parse (json_pretty (operations_document ops)) = Some (operations_document ops)"
    "json_pretty (operations_document ops) \<noteq> []"
    using json_parse_pretty [OF wf] json_pretty_neq_Nil [OF wf] by blast+
  show "trim (json_pretty (operations_document ops)) = json_pretty (operations_document ops)"
    using wf by (rule trim_json_pretty) (simp add: operations_document_def)
qed

lemma read_document:
  assumes "list_all known_rule ops" "list_all plain_rule ops" "ops \<noteq> []"
  shows "\<exists>st n'. parseInitialState now n (json_pretty (operations_document ops)) = Some (st, n')
    \<and> e_editMode st = Visual \<and> e_visualMode st = Operations \<and> e_legacyValue st = [] \<and> e_jsonError st = []
    \<and> e_jsonText st = json_pretty (operations_document ops)
    \<and> map anon_rule (e_operations st) = map stored_operation ops"
proof -
  obtain rs m where "read_operations now n (map (\<lambda>r. JObj (operation_payload r)) ops) = Some (rs, m)"
    "map anon_rule rs = map stored_operation ops" using read_payloads [OF assms(1, 3)] .
  then show ?thesis
    using document_text [OF assms(2)]
    by (simp add: parseInitialState_def Let_def) (simp add: operations_document_def)
qed

subsection \<open>Writing what was read\<close>

definition literal_rule :: "param_operation \<Rightarrow> bool" where
  "literal_rule r \<longleftrightarrow> reads_as_itself (o_value_text r) \<and> list_all (\<lambda>c. reads_as_itself (c_value_text c)) (o_conditions r)"

text \<open>Identifiers play no role in what is written.\<close>

lemma buildConditionPayload_anon [simp]: "buildConditionPayload (anon c) = buildConditionPayload c"
  by (simp add: buildConditionPayload_def anon_def Let_def)

lemma map_filter_anon [simp]:
  "List.map_filter buildConditionPayload (map anon cs) = List.map_filter buildConditionPayload cs"
  by (induction cs) (simp_all add: map_filter_simps split: option.splits)

lemma anon_rule_writes [simp]:
  "operation_payload (anon_rule r) = operation_payload r" "validate_rule (anon_rule r) = validate_rule r"
  "isOperationBlank (anon_rule r) = isOperationBlank r"
  by (simp_all add: operation_payload_list payload_list_def validate_rule_def isOperationBlank_def anon_rule_def Let_def)
    (simp add: list_ex_iff anon_def)

lemma validate_from_anon: "validate_from i (map anon_rule ops) = validate_from i ops"
  by (induction ops arbitrary: i) (auto split: rule_check.splits)

lemma operations_document_anon: "operations_document (map anon_rule ops) = operations_document ops"
  by (simp add: operations_document_def)

lemma buildOperationsJson_anon: "buildOperationsJson (map anon_rule ops) b = buildOperationsJson ops b"
  by (simp add: buildOperationsJson_def filter_map comp_def validateOperations_def validate_from_anon
      operations_document_anon Let_def split: option.splits)

lemma stored_condition_payload:
  assumes "plain_value (c_value_text c)" "reads_as_itself (c_value_text c)"
  shows "buildConditionPayload (stored_condition c) = buildConditionPayload c"
  using loose_stable [OF assms] by (simp add: buildConditionPayload_def stored_condition_def Let_def)

lemma stored_conditions_payload:
  assumes "plain_rule r" "literal_rule r"
  shows "List.map_filter buildConditionPayload (stored_conditions r) = List.map_filter buildConditionPayload (o_conditions r)"
proof -
  have "\<forall>c\<in>set (o_conditions r). buildConditionPayload (stored_condition c) = buildConditionPayload c"
    using assms stored_condition_payload by (auto simp: plain_rule_def literal_rule_def list_all_iff)
  moreover have "trim (c_path (stored_condition c)) = trim (c_path c)" for c by (simp add: stored_condition_def)
  ultimately show ?thesis
    unfolding map_filter_conditions stored_conditions_def by (simp add: filter_map comp_def)
qed

lemma text_or_simps [simp]:
  "text_or a [] = a" "text_or [] b = b" "trim (text_or (trim a) (trim b)) = text_or (trim a) (trim b)"
  by (simp_all add: text_or_def)

lemma stored_operation_payload:
  assumes "known_rule r" "plain_rule r" "literal_rule r"
  shows "operation_payload (stored_operation r) = operation_payload r"
proof -
  let ?meta = "mode_meta_of (o_mode r)"
  have mode: "o_mode r \<in> set OPERATION_MODE_VALUES" using assms(1) by (simp add: known_rule_def)
  have v: "parseLooseValue (toValueText (parseLooseValue (o_value_text r))) = parseLooseValue (o_value_text r)"
    using assms(2, 3) by (intro loose_stable) (simp_all add: plain_rule_def literal_rule_def)
  have cs: "List.map_filter buildConditionPayload (stored_conditions r) = List.map_filter buildConditionPayload (o_conditions r)"
    using stored_conditions_payload assms(2, 3) .
  have empty: "stored_conditions r = [] \<longleftrightarrow> List.map_filter buildConditionPayload (o_conditions r) = []"
    by (simp add: map_filter_conditions stored_conditions_def)
  show ?thesis
  proof (cases "m_pathAlias ?meta")
    case True
    then show ?thesis
      using meta_alias [OF True] mode
      by (simp add: operation_payload_list payload_list_def stored_operation_def Let_def v cs empty end_field_def)
  next
    case False
    then show ?thesis
      using mode
      by (simp add: operation_payload_list payload_list_def stored_operation_def Let_def v cs empty end_field_def)
  qed
qed

subsection \<open>The check, declaratively\<close>

text \<open>A rule has what its mode needs: a path; a source and a target, for which the path may stand in;
  a value; a message; a header name.\<close>

definition complete_rule :: "param_operation \<Rightarrow> bool" where
  "complete_rule r \<longleftrightarrow>
     (let mode = text_or (o_mode r) ''set''; meta = mode_meta_of mode; path = trim (o_path r);
          v = parseLooseValue (o_value_text r)
      in (m_path meta \<longrightarrow> path \<noteq> [])
         \<and> (mode \<in> set FROM_REQUIRED_MODES \<longrightarrow> end_field (m_pathAlias meta) (trim (o_from r)) path \<noteq> [])
         \<and> (mode \<in> set TO_REQUIRED_MODES \<longrightarrow> end_field (m_pathAlias meta) (trim (o_to r)) path \<noteq> [])
         \<and> (mode \<in> set VALUE_REQUIRED_MODES \<longrightarrow> trim (o_value_text r) \<noteq> [])
         \<and> (mode = ''return_error'' \<longrightarrow>
              (case v of JObj ps \<Rightarrow>
                 (case js_string (js_or (obj_get ps ''message'') (JStr [])) of Some m \<Rightarrow> trim m \<noteq> [] | None \<Rightarrow> True)
               | _ \<Rightarrow> True))
         \<and> (mode = ''pass_headers'' \<longrightarrow>
              (case parsePassHeaderNames v of Some hs \<Rightarrow> hs \<noteq> [] | None \<Rightarrow> False)))"

lemma parse_object_loose:
  "trim vt \<noteq> [] \<Longrightarrow> (case json_parse (trim vt) of Some (JObj ps) \<Rightarrow> f ps | _ \<Rightarrow> c) = (case parseLooseValue vt of JObj ps \<Rightarrow> f ps | _ \<Rightarrow> c)"
  by (auto simp: parseLooseValue_def split: option.splits jsval.splits)

lemma special_modes:
  "''return_error'' \<in> set VALUE_REQUIRED_MODES" "''pass_headers'' \<in> set VALUE_REQUIRED_MODES"
  "''prune_objects'' \<in> set VALUE_REQUIRED_MODES"
  by (simp_all add: VALUE_REQUIRED_MODES_def)

lemma return_error_check_ok:
  "raw \<noteq> [] \<Longrightarrow>
   ((case json_parse raw of
       Some (JObj parsed) \<Rightarrow>
         (case js_string (js_or (obj_get parsed ''message'') (JStr [])) of
            Some m \<Rightarrow> if trim m = [] then Check_error e else Check_ok
          | None \<Rightarrow> Check_ok)
     | _ \<Rightarrow> Check_ok) = Check_ok) =
   (case json_parse raw of
       Some (JObj ps) \<Rightarrow>
         (case js_string (js_or (obj_get ps ''message'') (JStr [])) of Some m \<Rightarrow> trim m \<noteq> [] | None \<Rightarrow> True)
     | _ \<Rightarrow> True)"
  by (auto split: option.splits jsval.splits)

lemma pass_headers_check_ok:
  "((case hs of None \<Rightarrow> Check_throws | Some headers \<Rightarrow> if headers = [] then Check_error e else Check_ok) = Check_ok)
   = (case hs of Some hs \<Rightarrow> hs \<noteq> [] | None \<Rightarrow> False)"
  by (auto split: option.splits)

lemma end_field_Nil: "end_field a v p = [] \<longleftrightarrow> v = [] \<and> \<not> (a \<and> p \<noteq> [])"
  by (simp add: end_field_def text_or_def)

lemma if_ok: "(if b then Check_error e else c) = Check_ok \<longleftrightarrow> \<not> b \<and> c = Check_ok"
  by simp

lemma if_mode_ok: "(if m = k then c else d) = Check_ok \<longleftrightarrow> (m = k \<longrightarrow> c = Check_ok) \<and> (m \<noteq> k \<longrightarrow> d = Check_ok)"
  by simp

lemma validate_rule_ok: "validate_rule r = Check_ok \<longleftrightarrow> complete_rule r"
proof -
  define mode where "mode = text_or (o_mode r) ''set''"
  define raw where "raw = trim (o_value_text r)"
  have v: "parseLooseValue raw = parseLooseValue (o_value_text r)" by (simp add: raw_def)
  show ?thesis
  proof (cases "raw = []")
    case True
    with special_modes show ?thesis
      unfolding validate_rule_def complete_rule_def Let_def mode_def [symmetric] raw_def [symmetric] if_ok end_field_Nil
      by (cases "mode \<in> set VALUE_REQUIRED_MODES") auto
  next
    case False
    then have obj: "(case json_parse raw of Some (JObj ps) \<Rightarrow> f ps | _ \<Rightarrow> True) = (case parseLooseValue raw of JObj ps \<Rightarrow> f ps | _ \<Rightarrow> True)" for f
      using parse_object_loose [of "o_value_text r"] v by (simp add: raw_def)
    show ?thesis
      unfolding validate_rule_def complete_rule_def Let_def mode_def [symmetric] raw_def [symmetric] v [symmetric]
        if_ok end_field_Nil if_mode_ok pass_headers_check_ok return_error_check_ok [OF False] obj
      using False by auto
  qed
qed

lemma stored_complete:
  assumes "known_rule r" "plain_rule r" "literal_rule r" "complete_rule r"
  shows "complete_rule (stored_operation r)"
proof -
  let ?mode = "o_mode r"
  let ?meta = "mode_meta_of ?mode"
  have mode: "?mode \<in> set OPERATION_MODE_VALUES" using assms(1) by (simp add: known_rule_def)
  have vt: "plain_value (o_value_text r)" "reads_as_itself (o_value_text r)"
    using assms(2, 3) by (simp_all add: plain_rule_def literal_rule_def)
  have "list_all (\<lambda>(k, m). (k \<in> set FROM_REQUIRED_MODES \<longrightarrow> m_from m) \<and> (k \<in> set VALUE_REQUIRED_MODES \<longrightarrow> m_value m)) MODE_META"
    by code_simp
  from known_meta [OF this mode]
  have from_mode: "?mode \<in> set FROM_REQUIRED_MODES \<Longrightarrow> m_from ?meta"
    and val: "?mode \<in> set VALUE_REQUIRED_MODES \<Longrightarrow> m_value ?meta" by blast+
  let ?s = "stored_operation r"
  have fields: "o_mode ?s = ?mode" "trim (o_path ?s) = (if m_path ?meta \<or> m_pathOptional ?meta then trim (o_path r) else [])"
    "end_field (m_pathAlias ?meta) (trim (o_to ?s)) p = (if m_pathAlias ?meta then text_or (text_or (trim (o_to r)) (trim (o_path r))) p else trim (o_to r))"
    "m_from ?meta \<Longrightarrow> end_field (m_pathAlias ?meta) (trim (o_from ?s)) p
      = (if m_pathAlias ?meta then text_or (text_or (trim (o_from r)) (trim (o_path r))) p else trim (o_from r))"
    "m_value ?meta \<Longrightarrow> parseLooseValue (o_value_text ?s) = parseLooseValue (o_value_text r)"
    "m_value ?meta \<Longrightarrow> trim (o_value_text ?s) = [] \<longleftrightarrow> trim (o_value_text r) = []" for p
    using loose_stable [OF vt] loose_blank [OF vt] by (simp_all add: stored_operation_def Let_def end_field_def)
  have ends: "end_field (m_pathAlias ?meta) (trim (o_from r)) (trim (o_path r)) \<noteq> [] \<Longrightarrow> m_from ?meta
      \<Longrightarrow> end_field (m_pathAlias ?meta) (trim (o_from ?s)) p \<noteq> []"
    "end_field (m_pathAlias ?meta) (trim (o_to r)) (trim (o_path r)) \<noteq> [] \<Longrightarrow> end_field (m_pathAlias ?meta) (trim (o_to ?s)) p \<noteq> []" for p
    unfolding fields(3) by (auto simp: fields(4)) (auto simp: end_field_def text_or_def split: if_splits)
  note complete = assms(4) [unfolded complete_rule_def Let_def text_or_known(1) [OF mode]]
  show ?thesis
    unfolding complete_rule_def Let_def fields(1) text_or_known(1) [OF mode]
  proof (intro conjI impI)
    assume "m_path ?meta"
    then show "trim (o_path ?s) \<noteq> []" using complete fields(2) by simp
  next
    assume "?mode \<in> set FROM_REQUIRED_MODES"
    then show "end_field (m_pathAlias ?meta) (trim (o_from ?s)) (trim (o_path ?s)) \<noteq> []" using complete ends(1) from_mode by blast
  next
    assume "?mode \<in> set TO_REQUIRED_MODES"
    then show "end_field (m_pathAlias ?meta) (trim (o_to ?s)) (trim (o_path ?s)) \<noteq> []" using complete ends(2) by blast
  next
    assume "?mode \<in> set VALUE_REQUIRED_MODES"
    then show "trim (o_value_text ?s) \<noteq> []" using complete val fields(6) by blast
  next
    assume m: "?mode = ''return_error''"
    then have "m_value ?meta" using val special_modes(1) by metis
    then show "case parseLooseValue (o_value_text ?s) of JObj ps \<Rightarrow>
        (case js_string (js_or (obj_get ps ''message'') (JStr [])) of Some m \<Rightarrow> trim m \<noteq> [] | None \<Rightarrow> True) | _ \<Rightarrow> True"
      using complete m fields(5) by metis
  next
    assume m: "?mode = ''pass_headers''"
    then have "m_value ?meta" using val special_modes(2) by metis
    then show "case parsePassHeaderNames (parseLooseValue (o_value_text ?s)) of Some hs \<Rightarrow> hs \<noteq> [] | None \<Rightarrow> False"
      using complete m fields(5) by metis
  qed
qed

lemma complete_not_blank: "complete_rule r \<Longrightarrow> \<not> isOperationBlank r"
proof
  assume a: "complete_rule r" "isOperationBlank r"
  then have "o_mode r = ''set''" "trim (o_path r) = []" by (simp_all add: isOperationBlank_def Let_def)
  moreover have "m_path (mode_meta_of ''set'')" by code_simp
  ultimately show False using a(1) by (simp add: complete_rule_def Let_def text_or_def)
qed

lemma validate_from_ok: "validate_from i ops = None \<longleftrightarrow> list_all complete_rule ops"
  by (induction ops arbitrary: i) (auto simp flip: validate_rule_ok split: rule_check.splits)

lemma written_document:
  assumes "buildOperationsJson ops validate = Inr t" "t \<noteq> []"
  shows "t = json_pretty (operations_document (filter (\<lambda>r. \<not> isOperationBlank r) ops))"
    "filter (\<lambda>r. \<not> isOperationBlank r) ops \<noteq> []"
    "validate \<Longrightarrow> list_all complete_rule (filter (\<lambda>r. \<not> isOperationBlank r) ops)"
  using assms validate_from_ok
  by (auto simp: buildOperationsJson_def Let_def validateOperations_def split: if_splits option.splits)

text \<open>C6. A document that was written is read back: the dialog opens in the visual mode with exactly the
  rules that were not empty, in their order, each with what its mode stores, and shows the text itself.\<close>

theorem override_roundtrip:
  assumes "buildOperationsJson ops validate = Inr t" "t \<noteq> []"
    "\<forall>r\<in>set ops. known_rule r \<and> plain_rule r"
  shows "\<exists>st n'. parseInitialState now n t = Some (st, n')
    \<and> e_editMode st = Visual \<and> e_visualMode st = Operations \<and> e_jsonText st = t \<and> e_jsonError st = []
    \<and> map anon_rule (e_operations st) = map stored_operation (filter (\<lambda>r. \<not> isOperationBlank r) ops)"
proof -
  note doc = written_document [OF assms(1, 2)]
  have "list_all known_rule (filter (\<lambda>r. \<not> isOperationBlank r) ops)"
    "list_all plain_rule (filter (\<lambda>r. \<not> isOperationBlank r) ops)"
    using assms(3) by (auto simp: list_all_iff)
  from read_document [OF this doc(2), of now n] doc(1) show ?thesis by auto
qed

text \<open>C5. Saving, reopening and saving again changes nothing, as long as no value text is a quoted string
  that without its quotes reads as something else.\<close>

theorem override_resave:
  assumes "buildOperationsJson ops True = Inr t" "t \<noteq> []"
    "\<forall>r\<in>set ops. known_rule r \<and> plain_rule r \<and> literal_rule r"
  shows "\<exists>st n'. parseInitialState now n t = Some (st, n') \<and> buildOperationsJson (e_operations st) True = Inr t"
proof -
  note doc = written_document [OF assms(1, 2)]
  let ?ops = "filter (\<lambda>r. \<not> isOperationBlank r) ops"
  have rules: "list_all known_rule ?ops" "list_all plain_rule ?ops" "list_all literal_rule ?ops"
    using assms(3) by (auto simp: list_all_iff)
  obtain st n' where st: "parseInitialState now n t = Some (st, n')"
    "map anon_rule (e_operations st) = map stored_operation ?ops"
    using read_document [OF rules(1, 2) doc(2), of now n] doc(1) by auto
  have complete: "list_all complete_rule (map stored_operation ?ops)"
    using stored_complete rules doc(3) by (simp add: list_all_iff)
  then have "filter (\<lambda>r. \<not> isOperationBlank r) (map stored_operation ?ops) = map stored_operation ?ops"
    using complete_not_blank by (simp add: list_all_iff filter_id_conv)
  moreover have "operations_document (map stored_operation ?ops) = operations_document ?ops"
    using stored_operation_payload rules by (simp add: operations_document_def list_all_iff)
  moreover have "validate_from 0 (map stored_operation ?ops) = None" using complete validate_from_ok by blast
  ultimately have "buildOperationsJson (map stored_operation ?ops) True = Inr t"
    using doc(1, 2) by (simp add: buildOperationsJson_def validateOperations_def Let_def)
  then show ?thesis using st buildOperationsJson_anon [of "e_operations st" True] by auto
qed

subsection \<open>The type of a document\<close>

text \<open>A text that is trimmed and not empty; a flag that is only ever written as true.\<close>

fun text_value :: "jsval \<Rightarrow> bool" where
  "text_value (JStr s) \<longleftrightarrow> s \<noteq> [] \<and> trim s = s"
| "text_value _ \<longleftrightarrow> False"

definition flag_value :: "jsval \<Rightarrow> bool" where
  "flag_value v \<longleftrightarrow> v = JUndefined \<or> v = JBool True"

definition typed_condition :: "jsval \<Rightarrow> bool" where
  "typed_condition v =
     (case v of JObj ps \<Rightarrow>
        fresh_names ps \<and> fst ` set ps \<subseteq> set [''path'', ''mode'', ''value'', ''invert'', ''pass_missing_key'']
        \<and> text_value (obj_get ps ''path'')
        \<and> (case obj_get ps ''mode'' of JStr m \<Rightarrow> m \<in> set CONDITION_MODE_VALUES | _ \<Rightarrow> False)
        \<and> wf_json (obj_get ps ''value'') \<and> flag_value (obj_get ps ''invert'') \<and> flag_value (obj_get ps ''pass_missing_key'')
      | _ \<Rightarrow> False)"

text \<open>The fields of a mode: those it must have, those it may have, and no other.  Only \<open>replace\<close> and
  \<open>regex_replace\<close>, whose table entry has \<open>to: false\<close>, may have a \<open>to\<close> that they need not have; the flag
  tolerates one in every mode.\<close>

definition optional_to :: "string \<Rightarrow> bool" where
  "optional_to m \<longleftrightarrow> m = ''replace'' \<or> m = ''regex_replace''"

definition typed_fields :: "bool \<Rightarrow> string \<Rightarrow> props \<Rightarrow> bool" where
  "typed_fields lax m ps \<longleftrightarrow>
     (let meta = mode_meta_of m
      in (if m_path meta then text_value (obj_get ps ''path'')
          else if m_pathOptional meta then obj_get ps ''path'' = JUndefined \<or> text_value (obj_get ps ''path'')
          else obj_get ps ''path'' = JUndefined)
         \<and> (if m_value meta then wf_json (obj_get ps ''value'') else obj_get ps ''value'' = JUndefined)
         \<and> (if m_keepOrigin meta then flag_value (obj_get ps ''keep_origin'') else obj_get ps ''keep_origin'' = JUndefined)
         \<and> (if m_from meta then text_value (obj_get ps ''from'') else obj_get ps ''from'' = JUndefined)
         \<and> (if m_to meta then text_value (obj_get ps ''to'')
            else obj_get ps ''to'' = JUndefined \<or> (lax \<or> optional_to m) \<and> text_value (obj_get ps ''to'')))"

definition typed_operation :: "bool \<Rightarrow> jsval \<Rightarrow> bool" where
  "typed_operation lax v =
     (case v of JObj ps \<Rightarrow>
        fresh_names ps
        \<and> fst ` set ps \<subseteq> set [''mode'', ''description'', ''path'', ''value'', ''keep_origin'', ''from'', ''to'', ''conditions'', ''logic'']
        \<and> (case obj_get ps ''mode'' of JStr m \<Rightarrow> m \<in> set OPERATION_MODE_VALUES \<and> typed_fields lax m ps | _ \<Rightarrow> False)
        \<and> (obj_get ps ''description'' = JUndefined \<or> text_value (obj_get ps ''description''))
        \<and> (case obj_get ps ''conditions'' of
             JUndefined \<Rightarrow> obj_get ps ''logic'' = JUndefined
           | JArr cs \<Rightarrow> cs \<noteq> [] \<and> list_all typed_condition cs \<and> obj_get ps ''logic'' \<in> set [JStr ''AND'', JStr ''OR'']
           | _ \<Rightarrow> False)
      | _ \<Rightarrow> False)"

definition typed_document :: "bool \<Rightarrow> jsval \<Rightarrow> bool" where
  "typed_document lax v =
     (case v of JObj [(k, JArr ops)] \<Rightarrow> k = ''operations'' \<and> ops \<noteq> [] \<and> list_all (typed_operation lax) ops | _ \<Rightarrow> False)"

text \<open>A rule whose mode has no \<open>to\<close> and that has one, from a mode it had before.\<close>

definition leftover_to :: "param_operation \<Rightarrow> bool" where
  "leftover_to r \<longleftrightarrow> \<not> m_to (mode_meta_of (o_mode r)) \<and> \<not> optional_to (o_mode r) \<and> trim (o_to r) \<noteq> []"

lemma keys_opt_subset [simp]: "fst ` set (opt_prop b k v) \<subseteq> A \<longleftrightarrow> (b \<longrightarrow> k \<in> A)"
  by (cases b) simp_all

lemma buildConditionPayload_typed:
  assumes "plain_value (c_value_text c)" "c_mode c \<in> set CONDITION_MODE_VALUES" "buildConditionPayload c = Some v"
  shows "typed_condition v"
proof -
  have "trim (c_path c) \<noteq> []" and
    "v = JObj ([(''path'', JStr (trim (c_path c))), (''mode'', JStr (c_mode c)), (''value'', parseLooseValue (c_value_text c))]
            @ opt_prop (c_invert c) ''invert'' (JBool True) @ opt_prop (c_pass_missing_key c) ''pass_missing_key'' (JBool True))"
    using assms(2, 3) by (auto simp: buildConditionPayload_def Let_def split: if_splits)
  then show ?thesis
    using parseLooseValue_wf [OF assms(1)] assms(2)
    by (auto simp: typed_condition_def flag_value_def image_Un)
qed

lemma operation_payload_fields:
  assumes "known_rule r" "plain_rule r" "complete_rule r"
  shows "typed_fields lax (o_mode r) (operation_payload r) \<longleftrightarrow> lax \<or> \<not> leftover_to r"
proof -
  let ?mode = "o_mode r"
  let ?meta = "mode_meta_of ?mode"
  have mode: "?mode \<in> set OPERATION_MODE_VALUES" using assms(1) by (simp add: known_rule_def)
  have "list_all (\<lambda>(k, m). (m_from m \<longrightarrow> k \<in> set FROM_REQUIRED_MODES) \<and> (m_to m \<longrightarrow> k \<in> set TO_REQUIRED_MODES)) MODE_META"
    by code_simp
  from known_meta [OF this mode] assms(3)
  have ends: "m_from ?meta \<Longrightarrow> end_field (m_pathAlias ?meta) (trim (o_from r)) (trim (o_path r)) \<noteq> []"
    "m_to ?meta \<Longrightarrow> end_field (m_pathAlias ?meta) (trim (o_to r)) (trim (o_path r)) \<noteq> []"
    "m_path ?meta \<Longrightarrow> trim (o_path r) \<noteq> []"
    unfolding complete_rule_def Let_def text_or_known(1) [OF mode] by blast+
  have one_path: "\<not> (m_path ?meta \<and> m_pathOptional ?meta)"
    by (rule meta_all) (simp add: meta_table)
  have no_alias: "\<not> m_to ?meta \<Longrightarrow> \<not> m_pathAlias ?meta" using meta_alias by blast
  have trims: "trim (end_field a (trim x) (trim y)) = end_field a (trim x) (trim y)" for a x y
    by (simp add: end_field_def)
  have "wf_json (parseLooseValue (o_value_text r))" using assms(2) by (simp add: plain_rule_def parseLooseValue_wf)
  then show ?thesis
    unfolding typed_fields_def Let_def operation_payload_list payload_list_def text_or_known(1) [OF mode]
    using ends one_path no_alias by (auto simp: trims flag_value_def leftover_to_def end_field_def)
qed

lemma operation_payload_typed:
  assumes "known_rule r" "plain_rule r" "complete_rule r"
  shows "typed_operation lax (JObj (operation_payload r)) \<longleftrightarrow> lax \<or> \<not> leftover_to r"
proof -
  have mode: "o_mode r \<in> set OPERATION_MODE_VALUES" using assms(1) by (simp add: known_rule_def)
  let ?cs = "List.map_filter buildConditionPayload (o_conditions r)"
  have "list_all typed_condition ?cs"
    using assms(1, 2) buildConditionPayload_typed
    by (fastforce simp: list_all_iff set_map_filter plain_rule_def known_rule_def)
  moreover have "fresh_names (operation_payload r)"
    "fst ` set (operation_payload r) \<subseteq> set [''mode'', ''description'', ''path'', ''value'', ''keep_origin'', ''from'', ''to'', ''conditions'', ''logic'']"
    by (simp_all add: operation_payload_list payload_list_def Let_def image_Un)
  moreover have "obj_get (operation_payload r) ''mode'' = JStr (o_mode r)"
    "obj_get (operation_payload r) ''description'' = JUndefined \<or> text_value (obj_get (operation_payload r) ''description'')"
    "obj_get (operation_payload r) ''conditions'' = (if ?cs = [] then JUndefined else JArr ?cs)"
    "obj_get (operation_payload r) ''logic'' = (if ?cs = [] then JUndefined else JStr (if o_logic r = ''AND'' then ''AND'' else ''OR''))"
    using mode by (simp_all add: operation_payload_list payload_list_def Let_def)
  ultimately show ?thesis
    using operation_payload_fields [OF assms, of lax] mode by (simp add: typed_operation_def)
qed

lemma document_typed:
  assumes "list_all known_rule ops" "list_all plain_rule ops" "list_all complete_rule ops" "ops \<noteq> []"
  shows "typed_document lax (operations_document ops) \<longleftrightarrow> lax \<or> list_all (\<lambda>r. \<not> leftover_to r) ops"
proof -
  have "list_all (typed_operation lax) (map (\<lambda>r. JObj (operation_payload r)) ops) \<longleftrightarrow> lax \<or> list_all (\<lambda>r. \<not> leftover_to r) ops"
    using operation_payload_typed assms(1-3) by (auto simp: list_all_iff)
  then show ?thesis using assms(4) by (simp add: typed_document_def operations_document_def)
qed

text \<open>C2. Every document that passes the check and is written is well-typed: a nonempty list of operations
  with known modes, with the fields their mode has, the required ones trimmed and not empty, and no
  others but a \<open>to\<close>; conditions come with a logic, and have a path, a known mode and a value.  It has no
  \<open>to\<close> in a mode without one exactly if no written rule has kept one from another mode.\<close>

theorem override_document_typed:
  assumes "buildOperationsJson ops True = Inr t" "t \<noteq> []"
    "\<forall>r\<in>set ops. known_rule r \<and> plain_rule r"
  shows "\<exists>doc. json_parse t = Some doc \<and> typed_document True doc
    \<and> (typed_document False doc \<longleftrightarrow> (\<forall>r\<in>set ops. isOperationBlank r \<or> \<not> leftover_to r))"
proof -
  note doc = written_document [OF assms(1, 2)]
  have rules: "list_all known_rule (filter (\<lambda>r. \<not> isOperationBlank r) ops)"
    "list_all plain_rule (filter (\<lambda>r. \<not> isOperationBlank r) ops)" using assms(3) by (auto simp: list_all_iff)
  show ?thesis
    using document_typed [OF rules doc(3) doc(2)] document_text(1) [OF rules(2)] doc(1)
    by (auto simp: list_all_iff)
qed

text \<open>C7. The check stops at the first rule that lacks something its mode needs, and names its line; it
  passes exactly the lists without such a rule.\<close>

theorem validate_first_incomplete:
  "validateOperations ops =
     (case find_index (\<lambda>r. \<not> complete_rule r) ops of
        None \<Rightarrow> None
      | Some i \<Rightarrow> Some (case validate_rule (ops ! i) of Check_error m \<Rightarrow> Rule_error (i + 1) m | _ \<Rightarrow> Type_error))"
proof -
  have "validate_from k ops =
     (case find_index (\<lambda>r. \<not> complete_rule r) ops of
        None \<Rightarrow> None
      | Some i \<Rightarrow> Some (case validate_rule (ops ! i) of Check_error m \<Rightarrow> Rule_error (k + i + 1) m | _ \<Rightarrow> Type_error))" for k
  proof (induction ops arbitrary: k)
    case (Cons r ops)
    show ?case
    proof (cases "validate_rule r = Check_ok")
      case True
      then have "complete_rule r" by (simp add: validate_rule_ok)
      with True Cons [of "k + 1"] show ?thesis by (auto split: option.splits rule_check.splits)
    next
      case False
      then have "\<not> complete_rule r" by (simp add: validate_rule_ok)
      with False show ?thesis by (auto split: rule_check.splits)
    qed
  qed simp
  from this [of 0] show ?thesis unfolding validateOperations_def add_0_left .
qed

text \<open>C35. A value that is entered as a quoted string is saved as that string, but when the saved rule is
  opened and saved again, the string is read as JSON: the text true becomes a truth value and 5 a number.\<close>

theorem override_string_retyped:
  assumes "buildOperationsJson [r] True = Inr t" "t \<noteq> []" "known_rule r" "m_value (mode_meta_of (o_mode r))"
    "o_value_text r = json_text (JStr s)" "trim s = s" "json_parse s = Some v" "\<nexists>u. v = JStr u" "plain_rule r"
  shows "\<exists>p st n' r'. json_parse t = Some (JObj [(''operations'', JArr [JObj p])]) \<and> obj_get p ''value'' = JStr s
    \<and> parseInitialState now n t = Some (st, n') \<and> e_operations st = [r']
    \<and> obj_get (operation_payload r') ''value'' = v \<and> v \<noteq> JStr s"
proof -
  have mode: "o_mode r \<in> set OPERATION_MODE_VALUES" using assms(3) by (simp add: known_rule_def)
  have "s \<noteq> []" using assms(7) by (auto simp: json_parse_def)
  then have s: "parseLooseValue s = v" using assms(6, 7) by (simp add: parseLooseValue_def)
  have q: "parseLooseValue (o_value_text r) = JStr s"
    unfolding assms(5) by (rule parseLooseValue_json_text) simp
  have val: "obj_get (operation_payload x) ''value'' = parseLooseValue (o_value_text x)"
    if "o_mode x = o_mode r" for x
    using that assms(4) mode by (simp add: operation_payload_list payload_list_def Let_def)
  have ops: "filter (\<lambda>r. \<not> isOperationBlank r) [r] = [r]"
    using written_document(2) [OF assms(1, 2)] by (simp split: if_splits)
  note t = written_document(1) [OF assms(1, 2), unfolded ops]
  have "list_all known_rule [r]" "list_all plain_rule [r]" "[r] \<noteq> []" using assms(3, 9) by simp_all
  from read_document [OF this, of now n] document_text(1) [OF this(2)]
  obtain st n' r' where st: "parseInitialState now n t = Some (st, n')" "e_operations st = [r']" "anon_rule r' = stored_operation r"
    and doc: "json_parse t = Some (operations_document [r])" unfolding t by (auto simp: map_eq_Cons_conv)
  have "operation_payload r' = operation_payload (stored_operation r)" using st(3) anon_rule_writes by metis
  then have "obj_get (operation_payload r') ''value'' = v"
    using val [of "stored_operation r"] assms(4) q s by (simp add: stored_operation_def Let_def)
  with st doc val [of r] q assms(8) show ?thesis by (auto simp: operations_document_def)
qed

subsection \<open>Moving a rule\<close>

lemma reorder_split:
  assumes "distinct (map o_id ops)" "src \<in> set ops" "tgt \<in> set ops" "o_id src \<noteq> o_id tgt"
    "o_id src \<noteq> []" "o_id tgt \<noteq> []"
  obtains xs ys where "filter (\<lambda>r. r \<noteq> src) ops = xs @ tgt # ys"
    "reorderOperations ops (o_id src) (o_id tgt) p = (if p = After then xs @ tgt # src # ys else xs @ src # tgt # ys)"
proof -
  obtain us vs where ops: "ops = us @ src # vs" using assms(2) by (auto simp: in_set_conv_decomp)
  have us: "o_id r \<noteq> o_id src" if "r \<in> set us \<union> set vs" for r
    using assms(1) that by (auto simp: ops image_iff)
  have src_at: "find_index (\<lambda>r. o_id r = o_id src) ops = Some (length us)"
    using us by (auto simp: find_index_Some ops nth_append)
  have at: "ops ! length us = src" by (simp add: ops)
  have rest: "take (length us) ops @ drop (Suc (length us)) ops = us @ vs" by (simp add: ops)
  have "tgt \<in> set (us @ vs)" using assms(3, 4) ops by auto
  then obtain xs ys where xy: "us @ vs = xs @ tgt # ys" by (meson split_list)
  have "distinct (map o_id (us @ vs))" using assms(1) by (simp add: ops)
  then have "\<forall>r\<in>set xs. o_id r \<noteq> o_id tgt" unfolding xy by (auto simp: image_iff)
  then have tgt_at: "find_index (\<lambda>r. o_id r = o_id tgt) (us @ vs) = Some (length xs)"
    by (auto simp: find_index_Some xy nth_append)
  have "filter (\<lambda>r. r \<noteq> src) us = us" "filter (\<lambda>r. r \<noteq> src) vs = vs"
    using us unfolding filter_id_conv by blast+
  then have "filter (\<lambda>r. r \<noteq> src) ops = us @ vs" by (simp add: ops)
  moreover have "reorderOperations ops (o_id src) (o_id tgt) p = (if p = After then xs @ tgt # src # ys else xs @ src # tgt # ys)"
    using assms(4-6) at tgt_at [unfolded xy]
    by (simp add: reorderOperations_def src_at rest [unfolded xy] Let_def)
  ultimately show ?thesis using that xy by simp
qed

text \<open>C36. Dragging a rule onto another puts it directly in front of it or behind it, as the position says,
  loses and doubles no rule and keeps the order of all others.\<close>

theorem reorder_places:
  assumes "distinct (map o_id ops)" "src \<in> set ops" "tgt \<in> set ops" "src \<noteq> tgt" "o_id src \<noteq> []" "o_id tgt \<noteq> []"
    "result = reorderOperations ops (o_id src) (o_id tgt) p"
  shows "mset result = mset ops \<and> filter (\<lambda>r. r \<noteq> src) result = filter (\<lambda>r. r \<noteq> src) ops
    \<and> (\<exists>xs ys. result = (if p = After then xs @ tgt # src # ys else xs @ src # tgt # ys))"
proof -
  have ids: "o_id src \<noteq> o_id tgt" using assms(1-4) by (auto simp: distinct_map inj_on_def)
  obtain xs ys where *: "filter (\<lambda>r. r \<noteq> src) ops = xs @ tgt # ys"
    "result = (if p = After then xs @ tgt # src # ys else xs @ src # tgt # ys)"
    using reorder_split [OF assms(1-3) ids assms(5, 6)] unfolding assms(7) by blast
  have no_src: "src \<notin> set (xs @ tgt # ys)" unfolding *(1) [symmetric] by simp
  have "distinct ops" using assms(1) by (simp add: distinct_map)
  then have "filter (\<lambda>r. r \<noteq> src) ops = remove1 src ops"
    by (simp add: distinct_remove1_removeAll removeAll_filter_not_eq eq_commute)
  then have "mset ops = add_mset src (mset (filter (\<lambda>r. r \<noteq> src) ops))" using assms(2) by simp
  moreover have "filter (\<lambda>r. r \<noteq> src) xs = xs" "filter (\<lambda>r. r \<noteq> src) ys = ys"
    using no_src unfolding filter_id_conv by auto
  ultimately show ?thesis using * no_src by auto
qed

subsection \<open>Concrete rules\<close>

definition sample_rule :: "string \<Rightarrow> string \<Rightarrow> param_operation" where
  "sample_rule ident v =
     \<lparr>o_id = ident, o_description = '' default '', o_path = ''temperature '', o_mode = ''set'', o_from = [], o_to = [],
      o_value_text = v, o_keep_origin = True, o_logic = ''AND'',
      o_conditions = [\<lparr>c_id = ''c1'', c_path = ''model'', c_mode = ''prefix'', c_value_text = ''openai/'',
        c_invert = False, c_pass_missing_key = True\<rparr>]\<rparr>"

lemma sample_json:
  "json_parse ''openai/'' = None" "json_parse ''7'' = Some (JNum (Fin 7))" "json_parse ''true'' = Some (JBool True)"
  "trim ''openai/'' = ''openai/''" "trim ''7'' = ''7''" "trim ''true'' = ''true''" "trim ''temperature '' = ''temperature''"
  by code_simp+

lemma sample_loose:
  "parseLooseValue ''openai/'' = JStr ''openai/''" "parseLooseValue ''7'' = JNum (Fin 7)"
  by (simp_all add: parseLooseValue_def sample_json)

lemma sample_ok:
  "known_rule (sample_rule i v)" "plain_rule (sample_rule i ''7'')" "literal_rule (sample_rule i ''7'')"
  "complete_rule (sample_rule i v)" "\<not> isOperationBlank (sample_rule i v)"
proof -
  show k: "known_rule (sample_rule i v)"
    by (simp add: known_rule_def sample_rule_def OPERATION_MODE_VALUES_def OPERATION_MODE_OPTIONS_def
        CONDITION_MODE_VALUES_def CONDITION_MODE_OPTIONS_def)
  have "dec_rat (of_int 7)" by (rule dec_rat_of_int)
  then show "plain_rule (sample_rule i ''7'')" by (simp add: plain_rule_def sample_rule_def plain_value_def sample_loose)
  show "literal_rule (sample_rule i ''7'')"
    by (simp add: literal_rule_def sample_rule_def reads_as_itself_def sample_loose sample_json)
  show c: "complete_rule (sample_rule i v)"
    by (simp add: complete_rule_def sample_rule_def Let_def text_or_def sample_json
        FROM_REQUIRED_MODES_def TO_REQUIRED_MODES_def VALUE_REQUIRED_MODES_def)
  then show "\<not> isOperationBlank (sample_rule i v)" by (rule complete_not_blank)
qed

lemma sample_written:
  "buildOperationsJson [sample_rule i ''7''] True = Inr (json_pretty (operations_document [sample_rule i ''7'']))"
  "json_pretty (operations_document [sample_rule i ''7'']) \<noteq> []"
  using sample_ok validate_from_ok [of 0 "[sample_rule i ''7'']"] operations_document_wf [of "[sample_rule i ''7'']"]
    json_pretty_neq_Nil
  by (simp_all add: buildOperationsJson_def validateOperations_def del: validate_from.simps)

theorem override_roundtrip_witness:
  "\<exists>st n'. parseInitialState (\<lambda>_. 0) 0 (json_pretty (operations_document [sample_rule ''a'' ''7''])) = Some (st, n')
    \<and> map anon_rule (e_operations st) = [stored_operation (sample_rule ''a'' ''7'')]"
  using override_roundtrip [OF sample_written [of "''a''"], of "\<lambda>_. 0" 0] sample_ok by auto

theorem override_resave_witness:
  "\<exists>st n'. parseInitialState (\<lambda>_. 0) 0 (json_pretty (operations_document [sample_rule ''a'' ''7''])) = Some (st, n')
    \<and> buildOperationsJson (e_operations st) True = Inr (json_pretty (operations_document [sample_rule ''a'' ''7'']))"
  using override_resave [OF sample_written [of "''a''"], of "\<lambda>_. 0" 0] sample_ok by auto

theorem override_document_typed_witness:
  "\<exists>doc. json_parse (json_pretty (operations_document [sample_rule ''a'' ''7''])) = Some doc \<and> typed_document False doc"
  using override_document_typed [OF sample_written [of "''a''"]] sample_ok
  by (auto simp: leftover_to_def sample_rule_def)

lemma quoted_sample:
  "buildOperationsJson [sample_rule ''a'' (json_text (JStr ''true''))] True =
     Inr (json_pretty (operations_document [sample_rule ''a'' (json_text (JStr ''true''))]))"
  "json_pretty (operations_document [sample_rule ''a'' (json_text (JStr ''true''))]) \<noteq> []"
  "plain_rule (sample_rule ''a'' (json_text (JStr ''true'')))"
proof -
  let ?r = "sample_rule ''a'' (json_text (JStr ''true''))"
  have "plain_value (json_text (JStr ''true''))" unfolding plain_value_def by (subst parseLooseValue_json_text) simp_all
  then show plain: "plain_rule ?r" by (simp add: plain_rule_def sample_rule_def plain_value_def sample_loose)
  show "buildOperationsJson [?r] True = Inr (json_pretty (operations_document [?r]))"
    using sample_ok validate_from_ok [of 0 "[?r]"]
    by (simp add: buildOperationsJson_def validateOperations_def del: validate_from.simps)
  show "json_pretty (operations_document [?r]) \<noteq> []" using plain document_text(3) [of "[?r]"] by simp
qed

theorem override_string_retyped_witness:
  "\<exists>st n' r'. parseInitialState (\<lambda>_. 0) 0 (json_pretty (operations_document [sample_rule ''a'' (json_text (JStr ''true''))])) = Some (st, n')
   \<and> e_operations st = [r'] \<and> obj_get (operation_payload r') ''value'' = JBool True"
proof -
  have "m_value (mode_meta_of ''set'')" by code_simp
  then show ?thesis
    using override_string_retyped [OF quoted_sample(1, 2), of "''true''" "JBool True" "\<lambda>_. 0" 0]
      quoted_sample(3) sample_ok(1) sample_json
    by (auto simp: sample_rule_def)
qed

theorem reorder_places_witness:
  "mset (reorderOperations [sample_rule ''a'' ''1'', sample_rule ''b'' ''2'', sample_rule ''c'' ''3''] ''a'' ''c'' After)
     = mset [sample_rule ''a'' ''1'', sample_rule ''b'' ''2'', sample_rule ''c'' ''3'']"
  using reorder_places [of "[sample_rule ''a'' ''1'', sample_rule ''b'' ''2'', sample_rule ''c'' ''3'']"
      "sample_rule ''a'' ''1''" "sample_rule ''c'' ''3''" _ After, OF _ _ _ _ _ _ refl]
  by (simp add: sample_rule_def)

end
