(* ===== verification/Param_Editor.thy ===== *)
theory Param_Editor
  imports Param_Document Transitions
begin

section \<open>The parameter override dialog\<close>

text \<open>
  The component of \<open>param-override-editor-dialog.tsx\<close>: its state variables, its handlers, the two
  effects, and the callbacks of its sub-editors as events of a machine.  The record has a field for
  each state variable, the seed of the identifiers, and what leaves the component: the saved texts,
  the closing, and the messages.  An event runs its handler and then the effect that keeps the
  selection valid.  A handler that throws outside a \<open>try\<close> (only the reader of rules does, on \<open>null\<close> in a
  list) ends the component: None.

  React may run the updater of \<open>duplicateOperation\<close> at once or while rendering; in the second case the
  new identifier is not known yet when the handler looks at it.  Which of the two happens is part of the
  event.  The menus offer the modes of the tables only, so an event carries no other mode.
\<close>

subsection \<open>Templates\<close>

datatype template_kind = Operations_template | Legacy_template

definition LEGACY_TEMPLATE :: props where
  "LEGACY_TEMPLATE = [(''temperature'', int_val 0), (''max_tokens'', int_val 1000)]"

definition condition_value :: "string \<Rightarrow> string \<Rightarrow> string \<Rightarrow> jsval" where
  "condition_value path mode v = JObj [(''path'', JStr path), (''mode'', JStr mode), (''value'', JStr v)]"

definition OPERATION_TEMPLATE :: props where
  "OPERATION_TEMPLATE =
     [(''operations'', JArr
        [JObj [(''description'', JStr ''Set default temperature for openai/* models.''),
               (''path'', JStr ''temperature''), (''mode'', JStr ''set''), (''value'', JNum (Fin (7 / 10))),
               (''conditions'', JArr [condition_value ''model'' ''prefix'' ''openai/'']),
               (''logic'', JStr ''AND'')]])]"

definition HEADER_PASSTHROUGH_TEMPLATE :: props where
  "HEADER_PASSTHROUGH_TEMPLATE =
     [(''operations'', JArr
        [JObj [(''description'', JStr ''Pass through X-Request-Id header to upstream.''),
               (''mode'', JStr ''pass_headers''), (''value'', JArr [JStr ''X-Request-Id'']),
               (''keep_origin'', JBool True)]])]"

definition GEMINI_IMAGE_4K_TEMPLATE :: props where
  "GEMINI_IMAGE_4K_TEMPLATE =
     [(''operations'', JArr
        [JObj [(''description'', JStr ''Set imageSize to 4K when model contains gemini/image and ends with 4k.''),
               (''mode'', JStr ''set''), (''path'', JStr ''generationConfig.imageConfig.imageSize''),
               (''value'', JStr ''4K''),
               (''conditions'', JArr
                  [condition_value ''original_model'' ''contains'' ''gemini'',
                   condition_value ''original_model'' ''contains'' ''image'',
                   condition_value ''original_model'' ''suffix'' ''4k'']),
               (''logic'', JStr ''AND'')]])]"

definition CODEX_CLI_HEADER_PASSTHROUGH_HEADERS :: "string list" where
  "CODEX_CLI_HEADER_PASSTHROUGH_HEADERS =
     [''Originator'', ''Session_id'', ''User-Agent'', ''X-Codex-Beta-Features'', ''X-Codex-Turn-Metadata'']"

definition CLAUDE_CLI_HEADER_PASSTHROUGH_HEADERS :: "string list" where
  "CLAUDE_CLI_HEADER_PASSTHROUGH_HEADERS =
     [''X-Stainless-Arch'', ''X-Stainless-Lang'', ''X-Stainless-Os'', ''X-Stainless-Package-Version'',
      ''X-Stainless-Retry-Count'', ''X-Stainless-Runtime'', ''X-Stainless-Runtime-Version'',
      ''X-Stainless-Timeout'', ''User-Agent'', ''X-App'', ''Anthropic-Beta'',
      ''Anthropic-Dangerous-Direct-Browser-Access'', ''Anthropic-Version'']"

definition buildPassHeadersTemplate :: "string list \<Rightarrow> props" where
  "buildPassHeadersTemplate headers =
     [(''operations'', JArr
        [JObj [(''mode'', JStr ''pass_headers''), (''value'', JArr (map JStr headers)), (''keep_origin'', JBool True)]])]"

definition BEDROCK_BETA_TOKENS :: "(string \<times> string option) list" where
  "BEDROCK_BETA_TOKENS =
     [(''advanced-tool-use-2025-11-20'', Some ''tool-search-tool-2025-10-19''),
      (''bash_20241022'', None), (''bash_20250124'', None), (''code-execution-2025-08-25'', None),
      (''compact-2026-01-12'', Some ''compact-2026-01-12''),
      (''computer-use-2025-01-24'', Some ''computer-use-2025-01-24''),
      (''computer-use-2025-11-24'', Some ''computer-use-2025-11-24''),
      (''context-1m-2025-08-07'', Some ''context-1m-2025-08-07''),
      (''context-management-2025-06-27'', Some ''context-management-2025-06-27''),
      (''effort-2025-11-24'', None), (''fast-mode-2026-02-01'', None), (''files-api-2025-04-14'', None),
      (''fine-grained-tool-streaming-2025-05-14'', None),
      (''interleaved-thinking-2025-05-14'', Some ''interleaved-thinking-2025-05-14''),
      (''mcp-client-2025-11-20'', None), (''mcp-client-2025-04-04'', None), (''mcp-servers-2025-12-04'', None),
      (''output-128k-2025-02-19'', None), (''structured-output-2024-03-01'', None),
      (''prompt-caching-scope-2026-01-05'', None), (''skills-2025-10-02'', None),
      (''structured-outputs-2025-11-13'', None), (''text_editor_20241022'', None),
      (''text_editor_20250124'', None), (''token-efficient-tools-2025-02-19'', None),
      (''tool-search-tool-2025-10-19'', Some ''tool-search-tool-2025-10-19''),
      (''web-fetch-2025-09-10'', None), (''web-search-2025-03-05'', None), (''oauth-2025-04-20'', None)]"

definition AWS_BEDROCK_ANTHROPIC_COMPAT_TEMPLATE :: props where
  "AWS_BEDROCK_ANTHROPIC_COMPAT_TEMPLATE =
     [(''operations'', JArr
        [JObj [(''description'', JStr ''Normalize anthropic-beta header tokens for Bedrock compatibility.''),
               (''mode'', JStr ''set_header''), (''path'', JStr ''anthropic-beta''),
               (''value'', JObj (map (\<lambda>(k, v). (k, case v of None \<Rightarrow> JNull | Some t \<Rightarrow> JStr t)) BEDROCK_BETA_TOKENS))],
         JObj [(''description'', JStr ''Remove all tools[*].custom.input_examples before upstream relay.''),
               (''mode'', JStr ''delete''), (''path'', JStr ''tools.*.custom.input_examples'')]])]"

definition TEMPLATE_PRESET_CONFIG :: "(string \<times> template_kind \<times> props) list" where
  "TEMPLATE_PRESET_CONFIG =
     [(''operations_default'', Operations_template, OPERATION_TEMPLATE),
      (''legacy_default'', Legacy_template, LEGACY_TEMPLATE),
      (''pass_headers_auth'', Operations_template, HEADER_PASSTHROUGH_TEMPLATE),
      (''gemini_image_4k'', Operations_template, GEMINI_IMAGE_4K_TEMPLATE),
      (''claude_cli_headers_passthrough'', Operations_template,
        buildPassHeadersTemplate CLAUDE_CLI_HEADER_PASSTHROUGH_HEADERS),
      (''codex_cli_headers_passthrough'', Operations_template,
        buildPassHeadersTemplate CODEX_CLI_HEADER_PASSTHROUGH_HEADERS),
      (''aws_bedrock_anthropic_beta_override'', Operations_template, AWS_BEDROCK_ANTHROPIC_COMPAT_TEMPLATE)]"

subsection \<open>State\<close>

text \<open>The messages of the component: a failed check, a \<open>TypeError\<close> of the check, and its own texts.\<close>

datatype editor_error = Build_failed build_error | Not_json | Legacy_not_object | Not_object | Append_invalid

fun error_message :: "editor_error \<Rightarrow> string" where
  "error_message (Build_failed (Rule_error line m)) = ''Rule '' @ digits_of_nat line @ '' '' @ m"
| "error_message (Build_failed Type_error) = ''Cannot convert object to primitive value''"
| "error_message Not_json = ''Parameter override must be valid JSON format''"
| "error_message Legacy_not_object = ''Legacy format must be a JSON object''"
| "error_message Not_object = ''Parameter override must be a valid JSON object''"
| "error_message Append_invalid = ''Current legacy JSON is invalid, cannot append''"

record editor =
  ed_open :: bool
  ed_editMode :: edit_mode
  ed_visualMode :: visual_mode
  ed_legacyValue :: string
  ed_operations :: "param_operation list"
  ed_jsonText :: string
  ed_jsonError :: string
  ed_operationSearch :: string
  ed_selectedOperationId :: string
  ed_expandedConditions :: "string \<Rightarrow> bool option"
  ed_draggedOperationId :: string
  ed_dragOverOperationId :: string
  ed_dragOverPosition :: drop_position
  ed_templatePresetKey :: string
  ed_seed :: nat
  ed_saved :: "string list"
  ed_toasts :: "editor_error list"

text \<open>What the component derives for rendering.\<close>

definition operationCount :: "editor \<Rightarrow> nat" where
  "operationCount s = length (filter (\<lambda>r. \<not> isOperationBlank r) (ed_operations s))"

definition selectedOperation :: "editor \<Rightarrow> param_operation option" where
  "selectedOperation s = find (\<lambda>r. o_id r = ed_selectedOperationId s) (ed_operations s)"

definition returnErrorDraft :: "editor \<Rightarrow> return_error_draft option" where
  "returnErrorDraft s =
     (case selectedOperation s of
        Some r \<Rightarrow> if o_mode r = ''return_error'' then Some (parseReturnErrorDraft (o_value_text r)) else None
      | None \<Rightarrow> None)"

definition pruneObjectsDraft :: "clock \<Rightarrow> editor \<Rightarrow> (prune_draft \<times> nat) option" where
  "pruneObjectsDraft now s =
     (case selectedOperation s of
        Some r \<Rightarrow> if o_mode r = ''prune_objects'' then Some (parsePruneObjectsDraft now (ed_seed s) (o_value_text r)) else None
      | None \<Rightarrow> None)"

text \<open>The counts of the modes in the order of their first rule, then the four most frequent.\<close>

definition topOperationModes :: "editor \<Rightarrow> (string \<times> nat) list" where
  "topOperationModes s =
     (let modes = map (\<lambda>r. text_or (o_mode r) ''set'') (ed_operations s);
          counts = map (\<lambda>m. (m, count_list modes m)) (uniq modes)
      in take 4 (sort_by (\<lambda>a b. int (snd b) - int (snd a)) counts))"

subsection \<open>The effects\<close>

text \<open>Rendering a selected \<open>prune_objects\<close> rule reads its draft and draws identifiers.\<close>

definition render :: "clock \<Rightarrow> editor \<Rightarrow> editor" where
  "render now s = (case pruneObjectsDraft now s of None \<Rightarrow> s | Some (d, n) \<Rightarrow> s\<lparr>ed_seed := n\<rparr>)"

definition keep_selection :: "editor \<Rightarrow> editor" where
  "keep_selection s =
     (if ed_operations s = [] then s\<lparr>ed_selectedOperationId := []\<rparr>
      else if list_ex (\<lambda>r. o_id r = ed_selectedOperationId s) (ed_operations s) then s
      else s\<lparr>ed_selectedOperationId := o_id (hd (ed_operations s))\<rparr>)"

definition first_id :: "param_operation list \<Rightarrow> string" where
  "first_id ops = (case ops of [] \<Rightarrow> [] | r # _ \<Rightarrow> o_id r)"

definition open_dialog :: "clock \<Rightarrow> string \<Rightarrow> editor \<Rightarrow> editor option" where
  "open_dialog now v s =
     map_option (\<lambda>(st, n).
       s\<lparr>ed_open := True,
         ed_editMode := e_editMode st,
         ed_visualMode := e_visualMode st,
         ed_legacyValue := e_legacyValue st,
         ed_operations := e_operations st,
         ed_jsonText := e_jsonText st,
         ed_jsonError := e_jsonError st,
         ed_operationSearch := [],
         ed_selectedOperationId := first_id (e_operations st),
         ed_expandedConditions := (\<lambda>_. None),
         ed_draggedOperationId := [],
         ed_dragOverOperationId := [],
         ed_dragOverPosition := Before,
         ed_templatePresetKey := (if e_visualMode st = Legacy then ''legacy_default'' else ''operations_default''),
         ed_seed := n\<rparr>) (parseInitialState now (ed_seed s) v)"

subsection \<open>Rules and conditions\<close>

text \<open>The patches that the rule editor hands to \<open>updateOperation\<close>.\<close>

datatype operation_patch =
    Patch_mode string
  | Patch_path string
  | Patch_description string
  | Patch_value_text string
  | Patch_keep_origin bool
  | Patch_from string
  | Patch_to string
  | Patch_ends string string
  | Patch_logic string

fun apply_patch :: "operation_patch \<Rightarrow> param_operation \<Rightarrow> param_operation" where
  "apply_patch (Patch_mode m) r = r\<lparr>o_mode := m\<rparr>"
| "apply_patch (Patch_path p) r = r\<lparr>o_path := p\<rparr>"
| "apply_patch (Patch_description d) r = r\<lparr>o_description := d\<rparr>"
| "apply_patch (Patch_value_text v) r = r\<lparr>o_value_text := v\<rparr>"
| "apply_patch (Patch_keep_origin b) r = r\<lparr>o_keep_origin := b\<rparr>"
| "apply_patch (Patch_from f) r = r\<lparr>o_from := f\<rparr>"
| "apply_patch (Patch_to t) r = r\<lparr>o_to := t\<rparr>"
| "apply_patch (Patch_ends f t) r = r\<lparr>o_from := f, o_to := t\<rparr>"
| "apply_patch (Patch_logic l) r = r\<lparr>o_logic := l\<rparr>"

text \<open>\<open>prev.map(o => o.id === operationId ? f(o) : o)\<close>.\<close>

definition map_rule :: "string \<Rightarrow> (param_operation \<Rightarrow> param_operation) \<Rightarrow> param_operation list \<Rightarrow> param_operation list" where
  "map_rule operationId f ops = map (\<lambda>r. if o_id r = operationId then f r else r) ops"

definition updateOperation :: "string \<Rightarrow> operation_patch \<Rightarrow> editor \<Rightarrow> editor" where
  "updateOperation operationId patch s = s\<lparr>ed_operations := map_rule operationId (apply_patch patch) (ed_operations s)\<rparr>"

definition addOperation :: "clock \<Rightarrow> editor \<Rightarrow> editor" where
  "addOperation now s =
     (case createDefaultOperation now (ed_seed s) of (created, n) \<Rightarrow>
        s\<lparr>ed_operations := ed_operations s @ [created], ed_selectedOperationId := o_id created, ed_seed := n\<rparr>)"

definition duplicate_value :: "param_operation \<Rightarrow> jsval" where
  "duplicate_value source = JObj
     [(''description'', JStr (o_description source)), (''path'', JStr (o_path source)), (''mode'', JStr (o_mode source)),
      (''value'', parseLooseValue (o_value_text source)), (''keep_origin'', JBool (o_keep_origin source)),
      (''from'', JStr (o_from source)), (''to'', JStr (o_to source)), (''logic'', JStr (o_logic source)),
      (''conditions'', JArr (map (\<lambda>c. JObj
         [(''path'', JStr (c_path c)), (''mode'', JStr (c_mode c)), (''value'', parseLooseValue (c_value_text c)),
          (''invert'', JBool (c_invert c)), (''pass_missing_key'', JBool (c_pass_missing_key c))]) (o_conditions source)))]"

definition duplicateOperation :: "clock \<Rightarrow> bool \<Rightarrow> string \<Rightarrow> editor \<Rightarrow> editor option" where
  "duplicateOperation now eager operationId s =
     (case find_index (\<lambda>r. o_id r = operationId) (ed_operations s) of None \<Rightarrow> Some s
      | Some idx \<Rightarrow>
         map_option (\<lambda>(cloned, n).
           s\<lparr>ed_operations := take (idx + 1) (ed_operations s) @ cloned # drop (idx + 1) (ed_operations s),
             ed_selectedOperationId := (if eager then o_id cloned else ed_selectedOperationId s),
             ed_seed := n\<rparr>)
         (normalizeOperation now (ed_seed s) (duplicate_value (ed_operations s ! idx))))"

definition removeOperation :: "clock \<Rightarrow> string \<Rightarrow> editor \<Rightarrow> editor" where
  "removeOperation now operationId s =
     (if length (ed_operations s) \<le> 1
      then (case createDefaultOperation now (ed_seed s) of (created, n) \<Rightarrow> s\<lparr>ed_operations := [created], ed_seed := n\<rparr>)
      else s\<lparr>ed_operations := filter (\<lambda>r. o_id r \<noteq> operationId) (ed_operations s)\<rparr>)"

datatype condition_patch =
    Cond_path string
  | Cond_mode string
  | Cond_value_text string
  | Cond_invert bool
  | Cond_pass_missing_key bool

fun apply_condition_patch :: "condition_patch \<Rightarrow> param_condition \<Rightarrow> param_condition" where
  "apply_condition_patch (Cond_path p) c = c\<lparr>c_path := p\<rparr>"
| "apply_condition_patch (Cond_mode m) c = c\<lparr>c_mode := m\<rparr>"
| "apply_condition_patch (Cond_value_text v) c = c\<lparr>c_value_text := v\<rparr>"
| "apply_condition_patch (Cond_invert b) c = c\<lparr>c_invert := b\<rparr>"
| "apply_condition_patch (Cond_pass_missing_key b) c = c\<lparr>c_pass_missing_key := b\<rparr>"

definition addCondition :: "clock \<Rightarrow> string \<Rightarrow> editor \<Rightarrow> editor" where
  "addCondition now operationId s =
     (case createDefaultCondition now (ed_seed s) of (created, n) \<Rightarrow>
        s\<lparr>ed_operations := map_rule operationId (\<lambda>r. r\<lparr>o_conditions := o_conditions r @ [created]\<rparr>) (ed_operations s),
          ed_expandedConditions := (ed_expandedConditions s)(c_id created \<mapsto> True),
          ed_seed := n\<rparr>)"

definition updateCondition :: "string \<Rightarrow> string \<Rightarrow> condition_patch \<Rightarrow> editor \<Rightarrow> editor" where
  "updateCondition operationId conditionId patch s =
     s\<lparr>ed_operations := map_rule operationId
       (\<lambda>r. r\<lparr>o_conditions := map (\<lambda>c. if c_id c = conditionId then apply_condition_patch patch c else c) (o_conditions r)\<rparr>)
       (ed_operations s)\<rparr>"

definition removeCondition :: "string \<Rightarrow> string \<Rightarrow> editor \<Rightarrow> editor" where
  "removeCondition operationId conditionId s =
     s\<lparr>ed_operations := map_rule operationId
       (\<lambda>r. r\<lparr>o_conditions := filter (\<lambda>c. c_id c \<noteq> conditionId) (o_conditions r)\<rparr>) (ed_operations s)\<rparr>"

definition set_expanded :: "string \<Rightarrow> bool \<Rightarrow> editor \<Rightarrow> editor" where
  "set_expanded conditionId b s = s\<lparr>ed_expandedConditions := (ed_expandedConditions s)(conditionId \<mapsto> b)\<rparr>"

definition expand_selected :: "bool \<Rightarrow> editor \<Rightarrow> editor" where
  "expand_selected b s =
     (case selectedOperation s of None \<Rightarrow> s
      | Some r \<Rightarrow> s\<lparr>ed_expandedConditions := ed_expandedConditions s ++ (\<lambda>k. if k \<in> c_id ` set (o_conditions r) then Some b else None)\<rparr>)"

subsection \<open>The typed editors of a value\<close>

text \<open>\<open>parseInt(s, 10)\<close>; the sum of the digits is not rounded to a double, which only matters above every
  status code.\<close>

definition parseInt :: "string \<Rightarrow> jsnum" where
  "parseInt s =
     (case scan_sign (trim s) of (sign, rest) \<Rightarrow>
        (let ds = takeWhile is_digit (if take 1 (trim s) = ''+'' then drop 1 rest else rest)
         in if ds = [] then NaN else Fin (sign * of_nat (nat_of_digits ds))))"

definition status_patch :: "string \<Rightarrow> jsnum" where
  "status_patch s = (case parseInt s of Fin q \<Rightarrow> if q = 0 then Fin 400 else Fin q | _ \<Rightarrow> Fin 400)"

definition RETURN_ERROR_PRESETS :: "(jsnum \<times> string \<times> string) list" where
  "RETURN_ERROR_PRESETS =
     [(Fin 400, ''invalid_request'', ''invalid_request_error''),
      (Fin 401, ''unauthorized'', ''authentication_error''),
      (Fin 429, ''rate_limited'', ''rate_limit_error'')]"

datatype return_patch =
    Ret_simpleMode bool
  | Ret_message string
  | Ret_statusCode string
  | Ret_code string
  | Ret_type string
  | Ret_skipRetry bool
  | Ret_preset jsnum string string

fun apply_return_patch :: "return_patch \<Rightarrow> return_error_draft \<Rightarrow> return_error_draft" where
  "apply_return_patch (Ret_simpleMode b) d = d\<lparr>r_simpleMode := b\<rparr>"
| "apply_return_patch (Ret_message m) d = d\<lparr>r_message := m\<rparr>"
| "apply_return_patch (Ret_statusCode s) d = d\<lparr>r_statusCode := status_patch s\<rparr>"
| "apply_return_patch (Ret_code c) d = d\<lparr>r_code := c\<rparr>"
| "apply_return_patch (Ret_type c) d = d\<lparr>r_type := c\<rparr>"
| "apply_return_patch (Ret_skipRetry b) d = d\<lparr>r_skipRetry := b\<rparr>"
| "apply_return_patch (Ret_preset st c ty) d = d\<lparr>r_statusCode := st, r_code := c, r_type := ty\<rparr>"

definition updateReturnErrorDraft :: "string \<Rightarrow> return_patch \<Rightarrow> editor \<Rightarrow> editor" where
  "updateReturnErrorDraft operationId draftPatch s =
     s\<lparr>ed_operations := map_rule operationId
       (\<lambda>r. r\<lparr>o_value_text := buildReturnErrorValueText (apply_return_patch draftPatch (parseReturnErrorDraft (o_value_text r)))\<rparr>)
       (ed_operations s)\<rparr>"

text \<open>The updater of a \<open>prune_objects\<close> draft may draw identifiers, as does the reading of the draft.\<close>

type_synonym prune_updater = "nat \<Rightarrow> prune_draft \<Rightarrow> prune_draft \<times> nat"

definition prune_value :: "clock \<Rightarrow> prune_updater \<Rightarrow> nat \<Rightarrow> string \<Rightarrow> string \<times> nat" where
  "prune_value now updater n vt =
     (case parsePruneObjectsDraft now n vt of (draft, n1) \<Rightarrow>
        (case updater n1 draft of (nextDraft, n2) \<Rightarrow> (buildPruneObjectsValueText nextDraft, n2)))"

fun prune_rules :: "clock \<Rightarrow> string \<Rightarrow> prune_updater \<Rightarrow> nat \<Rightarrow> param_operation list \<Rightarrow> param_operation list \<times> nat" where
  "prune_rules now operationId updater n [] = ([], n)"
| "prune_rules now operationId updater n (r # rs) =
     (if o_id r \<noteq> operationId
      then (case prune_rules now operationId updater n rs of (rs', m) \<Rightarrow> (r # rs', m))
      else (case prune_value now updater n (o_value_text r) of (vt, n') \<Rightarrow>
              (case prune_rules now operationId updater n' rs of (rs', m) \<Rightarrow> (r\<lparr>o_value_text := vt\<rparr> # rs', m))))"

definition updatePruneObjectsDraft :: "clock \<Rightarrow> string \<Rightarrow> prune_updater \<Rightarrow> editor \<Rightarrow> editor" where
  "updatePruneObjectsDraft now operationId updater s =
     (case prune_rules now operationId updater (ed_seed s) (ed_operations s) of (ops, n) \<Rightarrow>
        s\<lparr>ed_operations := ops, ed_seed := n\<rparr>)"

datatype prune_patch = Prune_simpleMode bool | Prune_typeText string | Prune_logic string | Prune_recursive bool

fun apply_prune_patch :: "prune_patch \<Rightarrow> prune_updater" where
  "apply_prune_patch (Prune_simpleMode b) n d = (d\<lparr>p_simpleMode := b\<rparr>, n)"
| "apply_prune_patch (Prune_typeText x) n d = (d\<lparr>p_typeText := x\<rparr>, n)"
| "apply_prune_patch (Prune_logic l) n d = (d\<lparr>p_logic := l\<rparr>, n)"
| "apply_prune_patch (Prune_recursive b) n d = (d\<lparr>p_recursive := b\<rparr>, n)"

definition add_rule :: "clock \<Rightarrow> prune_updater" where
  "add_rule now n d = (d\<lparr>p_simpleMode := False, p_rules := p_rules d @ [normalizePruneRule now n (JObj [])]\<rparr>, Suc n)"

definition edit_rule :: "string \<Rightarrow> condition_patch \<Rightarrow> prune_updater" where
  "edit_rule ruleId patch n d =
     (d\<lparr>p_rules := map (\<lambda>c. if c_id c = ruleId then apply_condition_patch patch c else c) (p_rules d)\<rparr>, n)"

definition drop_rule :: "string \<Rightarrow> prune_updater" where
  "drop_rule ruleId n d = (d\<lparr>p_rules := filter (\<lambda>c. c_id c \<noteq> ruleId) (p_rules d)\<rparr>, n)"

definition addPruneRule :: "clock \<Rightarrow> string \<Rightarrow> editor \<Rightarrow> editor" where
  "addPruneRule now operationId s = updatePruneObjectsDraft now operationId (add_rule now) s"

definition updatePruneRule :: "clock \<Rightarrow> string \<Rightarrow> string \<Rightarrow> condition_patch \<Rightarrow> editor \<Rightarrow> editor" where
  "updatePruneRule now operationId ruleId patch s = updatePruneObjectsDraft now operationId (edit_rule ruleId patch) s"

definition removePruneRule :: "clock \<Rightarrow> string \<Rightarrow> string \<Rightarrow> editor \<Rightarrow> editor" where
  "removePruneRule now operationId ruleId s = updatePruneObjectsDraft now operationId (drop_rule ruleId) s"

text \<open>The two ends of \<open>sync_fields\<close>: the kind from a menu or the key from a field, beside the other part
  of what the rule has now.\<close>

datatype sync_change = Sync_type string | Sync_key string

fun sync_spec :: "sync_change \<Rightarrow> string \<Rightarrow> string" where
  "sync_spec (Sync_type v) spec = buildSyncTargetSpec v (snd (parseSyncTargetSpec spec))"
| "sync_spec (Sync_key v) spec = buildSyncTargetSpec (fst (parseSyncTargetSpec spec)) v"

definition sync_from :: "sync_change \<Rightarrow> param_operation \<Rightarrow> operation_patch" where
  "sync_from ch r = Patch_from (sync_spec ch (o_from r))"

definition sync_to :: "sync_change \<Rightarrow> param_operation \<Rightarrow> operation_patch" where
  "sync_to ch r = Patch_to (sync_spec ch (o_to r))"

definition SYNC_PRESETS :: "operation_patch list" where
  "SYNC_PRESETS =
     [Patch_ends ''header:session_id'' ''json:prompt_cache_key'', Patch_ends ''json:prompt_cache_key'' ''header:session_id'']"

text \<open>The Format button.\<close>

definition format_value :: "param_operation \<Rightarrow> editor \<Rightarrow> editor" where
  "format_value r s =
     (case json_parse (o_value_text r) of
        Some parsed \<Rightarrow> updateOperation (o_id r) (Patch_value_text (json_pretty parsed)) s
      | None \<Rightarrow> s)"

subsection \<open>Dragging\<close>

definition resetDragState :: "editor \<Rightarrow> editor" where
  "resetDragState s = s\<lparr>ed_draggedOperationId := [], ed_dragOverOperationId := [], ed_dragOverPosition := Before\<rparr>"

definition handleDragStart :: "string \<Rightarrow> editor \<Rightarrow> editor" where
  "handleDragStart operationId s = s\<lparr>ed_draggedOperationId := operationId, ed_selectedOperationId := operationId\<rparr>"

text \<open>The half of the card that the pointer is in is an argument.\<close>

definition handleDragOver :: "string \<Rightarrow> drop_position \<Rightarrow> editor \<Rightarrow> editor" where
  "handleDragOver operationId position s =
     (if ed_draggedOperationId s = [] \<or> ed_draggedOperationId s = operationId then s
      else s\<lparr>ed_dragOverOperationId := operationId, ed_dragOverPosition := position\<rparr>)"

text \<open>The text of the drag's data transfer is an argument.\<close>

definition handleDrop :: "string \<Rightarrow> string \<Rightarrow> editor \<Rightarrow> editor" where
  "handleDrop data operationId s =
     (let sourceId = text_or (ed_draggedOperationId s) data;
          position = (if ed_dragOverOperationId s = operationId then ed_dragOverPosition s else Before);
          s' = (if sourceId \<noteq> [] \<and> operationId \<noteq> [] \<and> sourceId \<noteq> operationId
                then s\<lparr>ed_operations := reorderOperations (ed_operations s) sourceId operationId position,
                       ed_selectedOperationId := sourceId\<rparr>
                else s)
      in resetDragState s')"

subsection \<open>Modes and templates\<close>

definition buildVisualJson :: "editor \<Rightarrow> editor_error + string" where
  "buildVisualJson s =
     (if ed_visualMode s = Legacy
      then (let trimmed = trim (ed_legacyValue s)
            in if trimmed = [] then Inr []
               else case json_parse trimmed of None \<Rightarrow> Inl Not_json
               | Some (JObj ps) \<Rightarrow> Inr (json_pretty (JObj ps))
               | Some _ \<Rightarrow> Inl Legacy_not_object)
      else case buildOperationsJson (ed_operations s) True of Inl e \<Rightarrow> Inl (Build_failed e) | Inr text \<Rightarrow> Inr text)"

definition toast_error :: "editor_error \<Rightarrow> editor \<Rightarrow> editor" where
  "toast_error e s = s\<lparr>ed_toasts := ed_toasts s @ [e]\<rparr>"

text \<open>\<open>buildOperationsJson\<close> without the check, which does not throw.\<close>

definition unchecked_json :: "param_operation list \<Rightarrow> string" where
  "unchecked_json ops = (case buildOperationsJson ops False of Inr text \<Rightarrow> text | Inl _ \<Rightarrow> [])"

definition switchToJsonMode :: "editor \<Rightarrow> editor" where
  "switchToJsonMode s =
     (if ed_editMode s = Json_text then s
      else case buildVisualJson s of
        Inr text \<Rightarrow> s\<lparr>ed_jsonText := text, ed_jsonError := [], ed_editMode := Json_text\<rparr>
      | Inl e \<Rightarrow>
         (toast_error e s)\<lparr>
           ed_jsonText := (if ed_visualMode s = Legacy then ed_legacyValue s else unchecked_json (ed_operations s)),
           ed_jsonError := error_message e,
           ed_editMode := Json_text\<rparr>)"

definition switchToVisualMode :: "clock \<Rightarrow> editor \<Rightarrow> editor option" where
  "switchToVisualMode now s =
     (if ed_editMode s = Visual then Some s
      else let trimmed = trim (ed_jsonText s) in
        if trimmed = []
        then (case createDefaultOperation now (ed_seed s) of (fallback, n) \<Rightarrow> Some
          (s\<lparr>ed_visualMode := Operations, ed_operations := [fallback], ed_selectedOperationId := o_id fallback,
             ed_legacyValue := [], ed_jsonError := [], ed_editMode := Visual, ed_seed := n\<rparr>))
        else case json_parse trimmed of
          None \<Rightarrow> Some (toast_error Not_json s)
        | Some (JObj ps) \<Rightarrow>
            (case obj_get ps ''operations'' of
               JArr vs \<Rightarrow>
                 map_option (\<lambda>(nextOps, n).
                   s\<lparr>ed_visualMode := Operations, ed_operations := nextOps, ed_selectedOperationId := first_id nextOps,
                     ed_legacyValue := [], ed_jsonError := [], ed_editMode := Visual,
                     ed_templatePresetKey := ''operations_default'', ed_seed := n\<rparr>) (read_operations now (ed_seed s) vs)
             | _ \<Rightarrow>
                 (case createDefaultOperation now (ed_seed s) of (fallback, n) \<Rightarrow> Some
                   (s\<lparr>ed_visualMode := Legacy, ed_legacyValue := json_pretty (JObj ps), ed_operations := [fallback],
                      ed_selectedOperationId := o_id fallback, ed_jsonError := [], ed_editMode := Visual,
                      ed_templatePresetKey := ''legacy_default'', ed_seed := n\<rparr>)))
        | Some _ \<Rightarrow> Some (toast_error Not_object s))"

text \<open>The UTF-16 code units of a text, each as a string of its own, and the own properties that
  \<open>{ ...v }\<close> copies: an array and a string have their indices.\<close>

definition continuation :: "char \<Rightarrow> nat" where
  "continuation c = of_char c - 128"

fun utf16_units :: "string \<Rightarrow> string list" where
  "utf16_units [] = []"
| "utf16_units (c # s) =
     (let b = of_char c :: nat
      in if b < 0xC0 then [c] # utf16_units s
         else if b < 0xE0 then (c # take 1 s) # utf16_units (drop 1 s)
         else if b < 0xF0 then (c # take 2 s) # utf16_units (drop 2 s)
         else case map continuation (take 3 s) of
           [x, y, z] \<Rightarrow>
             (let n = (b - 0xF0) * 262144 + x * 4096 + y * 64 + z - 0x10000
              in utf8 (0xD800 + n div 1024) # utf8 (0xDC00 + n mod 1024) # utf16_units (drop 3 s))
         | _ \<Rightarrow> [c # s])"

definition indexed :: "jsval list \<Rightarrow> props" where
  "indexed vs = zip (map digits_of_nat [0..<length vs]) vs"

fun spread :: "jsval \<Rightarrow> props" where
  "spread (JObj ps) = ps"
| "spread (JArr vs) = indexed vs"
| "spread (JStr s) = indexed (map JStr (utf16_units s))"
| "spread _ = []"

definition merge_props :: "props \<Rightarrow> props \<Rightarrow> props" where
  "merge_props ps qs = foldl (\<lambda>acc (k, v). obj_put k v acc) ps qs"

datatype fill_mode = Fill | Append

definition set_legacy :: "clock \<Rightarrow> string \<Rightarrow> editor \<Rightarrow> editor" where
  "set_legacy now text s =
     (case createDefaultOperation now (ed_seed s) of (created, n) \<Rightarrow>
        s\<lparr>ed_visualMode := Legacy, ed_legacyValue := text, ed_operations := [created], ed_jsonText := text,
          ed_jsonError := [], ed_editMode := Visual, ed_seed := n\<rparr>)"

definition fill_legacy :: "clock \<Rightarrow> fill_mode \<Rightarrow> props \<Rightarrow> editor \<Rightarrow> editor" where
  "fill_legacy now mode payload s =
     (if mode = Append \<and> ed_visualMode s = Legacy
      then (let trimmed = trim (ed_legacyValue s)
            in case (if trimmed = [] then Some (JObj []) else json_parse trimmed) of
                 None \<Rightarrow> toast_error Append_invalid s
               | Some parsedCurrent \<Rightarrow> set_legacy now (json_pretty (JObj (merge_props payload (spread parsedCurrent)))) s)
      else set_legacy now (json_pretty (JObj payload)) s)"

definition fill_operations :: "clock \<Rightarrow> fill_mode \<Rightarrow> jsval list \<Rightarrow> editor \<Rightarrow> editor option" where
  "fill_operations now mode operationsPayload s =
     (if mode = Append
      then map_option (\<lambda>(appended, n).
        (let existing = (if ed_visualMode s = Operations then filter (\<lambda>r. \<not> isOperationBlank r) (ed_operations s) else []);
             nextOps = existing @ appended
         in s\<lparr>ed_visualMode := Operations,
              ed_operations := (if nextOps \<noteq> [] then nextOps else appended),
              ed_selectedOperationId := text_or (first_id nextOps) (first_id appended),
              ed_legacyValue := [], ed_jsonError := [], ed_editMode := Visual, ed_jsonText := [], ed_seed := n\<rparr>))
        (map_seed (normalizeOperation now) (ed_seed s) operationsPayload)
      else map_option (\<lambda>(finalOps, n).
        s\<lparr>ed_visualMode := Operations, ed_operations := finalOps, ed_selectedOperationId := first_id finalOps,
          ed_jsonText := json_pretty (JObj [(''operations'', JArr operationsPayload)]), ed_jsonError := [],
          ed_editMode := Visual, ed_seed := n\<rparr>)
        (read_operations now (ed_seed s) operationsPayload))"

definition fillTemplate :: "clock \<Rightarrow> fill_mode \<Rightarrow> editor \<Rightarrow> editor option" where
  "fillTemplate now mode s =
     (let (kind, payload) = (case map_of TEMPLATE_PRESET_CONFIG (ed_templatePresetKey s) of
            Some preset \<Rightarrow> preset | None \<Rightarrow> (Operations_template, OPERATION_TEMPLATE))
      in if kind = Legacy_template then Some (fill_legacy now mode payload s)
         else fill_operations now mode (case obj_get payload ''operations'' of JArr vs \<Rightarrow> vs | _ \<Rightarrow> []) s)"

definition resetEditorState :: "clock \<Rightarrow> editor \<Rightarrow> editor" where
  "resetEditorState now s =
     (case createDefaultOperation now (ed_seed s) of (fallback, n) \<Rightarrow>
        s\<lparr>ed_visualMode := Operations, ed_legacyValue := [], ed_operations := [fallback],
          ed_selectedOperationId := o_id fallback, ed_jsonText := [], ed_jsonError := [],
          ed_templatePresetKey := ''operations_default'', ed_editMode := Visual, ed_seed := n\<rparr>)"

definition handleJsonChange :: "string \<Rightarrow> editor \<Rightarrow> editor" where
  "handleJsonChange nextValue s =
     s\<lparr>ed_jsonText := nextValue,
       ed_jsonError := (if trim nextValue = [] \<or> verifyJSON (trim nextValue) then [] else ''JSON format error'')\<rparr>"

definition formatJson :: "editor \<Rightarrow> editor" where
  "formatJson s =
     (let trimmed = trim (ed_jsonText s)
      in if trimmed = [] then s
         else case json_parse trimmed of
           None \<Rightarrow> toast_error Not_json s
         | Some v \<Rightarrow> s\<lparr>ed_jsonText := json_pretty v, ed_jsonError := []\<rparr>)"

definition visualValidationError :: "editor \<Rightarrow> string" where
  "visualValidationError s =
     (if ed_editMode s \<noteq> Visual then []
      else case buildVisualJson s of Inr _ \<Rightarrow> [] | Inl e \<Rightarrow> error_message e)"

definition save_result :: "editor \<Rightarrow> editor_error + string" where
  "save_result s =
     (if ed_editMode s = Json_text
      then (let trimmed = trim (ed_jsonText s)
            in if trimmed = [] then Inr []
               else case json_parse trimmed of None \<Rightarrow> Inl Not_json | Some v \<Rightarrow> Inr (json_pretty v))
      else buildVisualJson s)"

text \<open>\<open>props.onSave\<close> is recorded; the parent closes the dialog.\<close>

definition handleSave :: "editor \<Rightarrow> editor" where
  "handleSave s =
     (case save_result s of
        Inl e \<Rightarrow> toast_error e s
      | Inr result \<Rightarrow> s\<lparr>ed_saved := ed_saved s @ [result], ed_open := False\<rparr>)"

subsection \<open>The dialog as a machine\<close>

datatype editor_event =
    Open_dialog string
  | Cancel
  | Render
  | Select_rule string
  | Search string
  | Patch_rule string operation_patch
  | Format_value string
  | Sync_from string sync_change
  | Sync_to string sync_change
  | Add_rule
  | Duplicate_rule bool string
  | Remove_rule string
  | Add_condition string
  | Patch_condition string string condition_patch
  | Remove_condition string string
  | Expand string bool
  | Expand_all bool
  | Patch_return string return_patch
  | Patch_prune string prune_patch
  | Add_prune_rule string
  | Patch_prune_rule string string condition_patch
  | Remove_prune_rule string string
  | Drag_start string
  | Drag_over string drop_position
  | Drop string string
  | Drag_end
  | To_json
  | To_visual
  | Choose_preset string
  | Fill_template fill_mode
  | Reset
  | Legacy_value string
  | Json_change string
  | Format_json
  | Save

definition with_rule :: "string \<Rightarrow> (param_operation \<Rightarrow> editor \<Rightarrow> editor) \<Rightarrow> editor \<Rightarrow> editor" where
  "with_rule k f s = (case find (\<lambda>r. o_id r = k) (ed_operations s) of None \<Rightarrow> s | Some r \<Rightarrow> f r s)"

fun editor_event_do :: "clock \<Rightarrow> editor_event \<Rightarrow> editor \<Rightarrow> editor option" where
  "editor_event_do now (Open_dialog v) s = open_dialog now v s"
| "editor_event_do now Cancel s = Some (s\<lparr>ed_open := False\<rparr>)"
| "editor_event_do now Render s = Some (render now s)"
| "editor_event_do now (Select_rule k) s = Some (s\<lparr>ed_selectedOperationId := k\<rparr>)"
| "editor_event_do now (Search q) s = Some (s\<lparr>ed_operationSearch := q\<rparr>)"
| "editor_event_do now (Patch_rule k patch) s = Some (updateOperation k patch s)"
| "editor_event_do now (Format_value k) s = Some (with_rule k format_value s)"
| "editor_event_do now (Sync_from k ch) s = Some (with_rule k (\<lambda>r. updateOperation k (sync_from ch r)) s)"
| "editor_event_do now (Sync_to k ch) s = Some (with_rule k (\<lambda>r. updateOperation k (sync_to ch r)) s)"
| "editor_event_do now Add_rule s = Some (addOperation now s)"
| "editor_event_do now (Duplicate_rule eager k) s = duplicateOperation now eager k s"
| "editor_event_do now (Remove_rule k) s = Some (removeOperation now k s)"
| "editor_event_do now (Add_condition k) s = Some (addCondition now k s)"
| "editor_event_do now (Patch_condition k c patch) s = Some (updateCondition k c patch s)"
| "editor_event_do now (Remove_condition k c) s = Some (removeCondition k c s)"
| "editor_event_do now (Expand c b) s = Some (set_expanded c b s)"
| "editor_event_do now (Expand_all b) s = Some (expand_selected b s)"
| "editor_event_do now (Patch_return k patch) s = Some (updateReturnErrorDraft k patch s)"
| "editor_event_do now (Patch_prune k patch) s = Some (updatePruneObjectsDraft now k (apply_prune_patch patch) s)"
| "editor_event_do now (Add_prune_rule k) s = Some (addPruneRule now k s)"
| "editor_event_do now (Patch_prune_rule k c patch) s = Some (updatePruneRule now k c patch s)"
| "editor_event_do now (Remove_prune_rule k c) s = Some (removePruneRule now k c s)"
| "editor_event_do now (Drag_start k) s = Some (handleDragStart k s)"
| "editor_event_do now (Drag_over k position) s = Some (handleDragOver k position s)"
| "editor_event_do now (Drop data k) s = Some (handleDrop data k s)"
| "editor_event_do now Drag_end s = Some (resetDragState s)"
| "editor_event_do now To_json s = Some (switchToJsonMode s)"
| "editor_event_do now To_visual s = switchToVisualMode now s"
| "editor_event_do now (Choose_preset k) s = Some (s\<lparr>ed_templatePresetKey := text_or k ''operations_default''\<rparr>)"
| "editor_event_do now (Fill_template mode) s = fillTemplate now mode s"
| "editor_event_do now Reset s = Some (resetEditorState now s)"
| "editor_event_do now (Legacy_value v) s = Some (s\<lparr>ed_legacyValue := v\<rparr>)"
| "editor_event_do now (Json_change v) s = Some (handleJsonChange v s)"
| "editor_event_do now Format_json s = Some (formatJson s)"
| "editor_event_do now Save s = Some (handleSave s)"

text \<open>The values that the menus offer.\<close>

fun menu_event :: "editor_event \<Rightarrow> bool" where
  "menu_event (Patch_rule k (Patch_mode m)) \<longleftrightarrow> m \<in> set OPERATION_MODE_VALUES"
| "menu_event (Patch_rule k (Patch_logic l)) \<longleftrightarrow> l = ''OR'' \<or> l = ''AND''"
| "menu_event (Patch_condition k c (Cond_mode m)) \<longleftrightarrow> m \<in> set CONDITION_MODE_VALUES"
| "menu_event _ \<longleftrightarrow> True"

inductive editor_step :: "clock \<Rightarrow> editor \<Rightarrow> editor_event \<Rightarrow> editor \<Rightarrow> bool" for now where
  act: "menu_event ev \<Longrightarrow> editor_event_do now ev s = Some s' \<Longrightarrow> editor_step now s ev (keep_selection s')"

definition editor_init :: "clock \<Rightarrow> nat \<Rightarrow> editor" where
  "editor_init now n =
     (case createDefaultOperation now n of (r, n') \<Rightarrow>
        keep_selection
        \<lparr>ed_open = False, ed_editMode = Visual, ed_visualMode = Operations, ed_legacyValue = [], ed_operations = [r],
         ed_jsonText = [], ed_jsonError = [], ed_operationSearch = [], ed_selectedOperationId = [],
         ed_expandedConditions = (\<lambda>_. None), ed_draggedOperationId = [], ed_dragOverOperationId = [],
         ed_dragOverPosition = Before, ed_templatePresetKey = ''operations_default'', ed_seed = n',
         ed_saved = [], ed_toasts = []\<rparr>)"

end
