(* ===== verification/Param_Session.thy ===== *)
theory Param_Session
  imports Param_Editor
begin

text \<open>
  What holds in every state that the parameter override dialog reaches: it always has a rule and a
  selected one, identifiers are never used twice, and the modes are those of the menus.  Then what the
  dialog does with a session: what it saves, what a change of the view keeps, what a template keeps, and
  what the editor of the \<open>prune_objects\<close> conditions cannot do.
\<close>

subsection \<open>Identifiers and rules\<close>

definition rule_ids :: "param_operation \<Rightarrow> string list" where
  "rule_ids r = o_id r # map c_id (o_conditions r)"

definition all_ids :: "param_operation list \<Rightarrow> string list" where
  "all_ids ops = concat (map rule_ids ops)"

definition sound_rule :: "param_operation \<Rightarrow> bool" where
  "sound_rule r \<longleftrightarrow> known_rule r \<and> (o_logic r = ''OR'' \<or> o_logic r = ''AND'')"

definition sound_rules :: "clock \<Rightarrow> nat \<Rightarrow> param_operation list \<Rightarrow> bool" where
  "sound_rules now n ops \<longleftrightarrow>
     list_all sound_rule ops \<and> distinct (all_ids ops) \<and> set (all_ids ops) \<subseteq> nextLocalId now ` {..<n}"

text \<open>Rules with the identifiers from n up to m.\<close>

definition fresh_rules :: "clock \<Rightarrow> nat \<Rightarrow> nat \<Rightarrow> param_operation list \<Rightarrow> bool" where
  "fresh_rules now n m ops \<longleftrightarrow>
     n \<le> m \<and> list_all sound_rule ops \<and> all_ids ops = map (nextLocalId now) [n..<m]"

lemma all_ids_simps [simp]:
  "all_ids [] = []" "all_ids (r # rs) = rule_ids r @ all_ids rs" "all_ids (xs @ ys) = all_ids xs @ all_ids ys"
  by (simp_all add: all_ids_def)

lemma list_all_map_mono: "list_all P xs \<Longrightarrow> (\<And>x. P x \<Longrightarrow> Q (g x)) \<Longrightarrow> list_all Q (map g xs)"
  by (induction xs) auto

lemma set_all_ids: "set (all_ids ops) = (\<Union>r\<in>set ops. set (rule_ids r))"
  by (simp add: all_ids_def)

lemma fresh_ids:
  "distinct (map (nextLocalId now) [n..<m])"
  "set (map (nextLocalId now) [n..<m]) \<inter> nextLocalId now ` {..<n} = {}"
  by (auto simp: distinct_map inj_on_def dest!: nextLocalId_inject)

lemma sound_rules_insert:
  assumes "sound_rules now n (xs @ ys)" "fresh_rules now n m zs"
  shows "sound_rules now m (xs @ zs @ ys)"
proof -
  have sub: "nextLocalId now ` {..<n} \<subseteq> nextLocalId now ` {..<m}" using assms(2) by (auto simp: fresh_rules_def)
  have z: "set (all_ids zs) \<subseteq> nextLocalId now ` {..<m}" using assms(2) by (auto simp: fresh_rules_def)
  have "set (all_ids zs) \<inter> (set (all_ids xs) \<union> set (all_ids ys)) = {}"
    using assms fresh_ids(2) [of now n m] by (auto simp: fresh_rules_def sound_rules_def simp del: set_map)
  moreover have "distinct (all_ids zs)" using assms(2) fresh_ids(1) by (simp add: fresh_rules_def)
  ultimately show ?thesis using assms sub z
    by (auto simp: sound_rules_def fresh_rules_def)
qed

lemma sound_rules_fresh: "fresh_rules now n m zs \<Longrightarrow> sound_rules now m zs"
  using sound_rules_insert [of now n "[]" "[]" m zs] by (simp add: sound_rules_def)

lemma sound_rules_mono: "sound_rules now n ops \<Longrightarrow> n \<le> m \<Longrightarrow> sound_rules now m ops"
  by (auto simp: sound_rules_def)

lemma sound_rules_filter: "sound_rules now n ops \<Longrightarrow> sound_rules now n (filter P ops)"
proof -
  have "distinct (all_ids ops) \<Longrightarrow> distinct (all_ids (filter P ops))"
    by (induction ops) (auto simp: set_all_ids)
  then show "sound_rules now n ops \<Longrightarrow> sound_rules now n (filter P ops)"
    by (auto simp: sound_rules_def set_all_ids list_all_iff)
qed

lemma sound_rules_map:
  assumes "sound_rules now n ops" "\<And>r. r \<in> set ops \<Longrightarrow> rule_ids (f r) = rule_ids r \<and> (sound_rule r \<longrightarrow> sound_rule (f r))"
  shows "sound_rules now n (map f ops)"
proof -
  have "all_ids (map f ops) = all_ids ops" using assms(2) by (induction ops) auto
  then show ?thesis using assms by (auto simp: sound_rules_def list_all_iff)
qed

lemma sound_rules_perm: "sound_rules now n ops \<Longrightarrow> mset ops' = mset ops \<Longrightarrow> sound_rules now n ops'"
proof -
  assume s: "sound_rules now n ops" and m: "mset ops' = mset ops"
  have "mset (all_ids xs) = (\<Sum>r\<in>#mset xs. mset (rule_ids r))" for xs
    by (induction xs) (auto simp: ac_simps)
  then have "mset (all_ids ops') = mset (all_ids ops)" using m by simp
  then have "distinct (all_ids ops') = distinct (all_ids ops)" "set (all_ids ops') = set (all_ids ops)"
    by (auto dest: mset_eq_imp_distinct_iff mset_eq_setD)
  moreover have "set ops' = set ops" using m by (rule mset_eq_setD)
  ultimately show ?thesis using s by (simp add: sound_rules_def list_all_iff)
qed

subsection \<open>Rules that are read\<close>

lemma word_or_in: "d \<in> set ws \<Longrightarrow> word_or ws d v \<in> set ws"
  by (auto simp: word_or_def split: jsval.splits)

lemma set_known [simp]: "''set'' \<in> set OPERATION_MODE_VALUES"
  by (simp add: OPERATION_MODE_VALUES_def OPERATION_MODE_OPTIONS_def)

lemma normalizeParamCondition_fresh:
  "normalizeParamCondition now n v = Some (c, m) \<Longrightarrow>
     m = Suc n \<and> c_id c = nextLocalId now n \<and> c_mode c \<in> set CONDITION_MODE_VALUES"
  by (auto simp: normalizeParamCondition_def word_or_in split: if_splits)

lemma normalize_conditions_ids:
  "map_seed (normalizeParamCondition now) n vs = Some (cs, m) \<Longrightarrow>
     n \<le> m \<and> map c_id cs = map (nextLocalId now) [n..<m] \<and> list_all (\<lambda>c. c_mode c \<in> set CONDITION_MODE_VALUES) cs"
proof (induction vs arbitrary: n cs)
  case (Cons v vs)
  from Cons.prems obtain c k cs' where c: "normalizeParamCondition now n v = Some (c, k)"
    "map_seed (normalizeParamCondition now) k vs = Some (cs', m)" "cs = c # cs'"
    by (auto split: option.splits)
  with Cons.IH [OF c(2)] normalizeParamCondition_fresh [OF c(1)] show ?case
    by (simp add: upt_conv_Cons)
qed simp

lemma normalizeOperation_fresh:
  assumes "normalizeOperation now n v = Some (r, m)"
  shows "fresh_rules now n m [r]"
proof -
  obtain cs where cs: "(case js_get v ''conditions'' of JArr cs \<Rightarrow> map_seed (normalizeParamCondition now) (Suc n) cs
       | _ \<Rightarrow> Some ([], Suc n)) = Some (cs, m)" "o_id r = nextLocalId now n" "o_conditions r = cs"
    "o_mode r \<in> set OPERATION_MODE_VALUES" "o_logic r = ''OR'' \<or> o_logic r = ''AND''"
    using assms
    by (auto simp: normalizeOperation_def word_or_in split: if_splits option.splits)
  then have "Suc n \<le> m \<and> map c_id cs = map (nextLocalId now) [Suc n..<m] \<and> list_all (\<lambda>c. c_mode c \<in> set CONDITION_MODE_VALUES) cs"
    by (auto dest: normalize_conditions_ids split: jsval.splits)
  with cs show ?thesis
    by (simp add: fresh_rules_def rule_ids_def sound_rule_def known_rule_def upt_conv_Cons)
qed

lemma fresh_rules_append:
  "fresh_rules now n m xs \<Longrightarrow> fresh_rules now m k ys \<Longrightarrow> fresh_rules now n k (xs @ ys)"
  by (simp add: fresh_rules_def flip: map_append) (metis upt_add_eq_append le_Suc_ex)

lemma map_seed_fresh: "map_seed (normalizeOperation now) n vs = Some (ops, m) \<Longrightarrow> fresh_rules now n m ops"
proof (induction vs arbitrary: n ops)
  case Nil then show ?case by (simp add: fresh_rules_def)
next
  case (Cons v vs)
  then obtain r k rs where "normalizeOperation now n v = Some (r, k)" "map_seed (normalizeOperation now) k vs = Some (rs, m)"
    "ops = r # rs" by (auto split: option.splits)
  then show ?case using Cons.IH fresh_rules_append [of now n k "[r]" m rs] normalizeOperation_fresh by simp
qed

lemma createDefaultOperation_fresh: "createDefaultOperation now n = (r, m) \<Longrightarrow> fresh_rules now n m [r]"
  by (rule normalizeOperation_fresh [where v = "JObj [(''mode'', JStr ''set'')]"])
    (simp add: createDefaultOperation_def normalizeOperation_def js_or_def)

lemma map_seed_Nil_iff: "map_seed f n xs = Some ([], m) \<Longrightarrow> xs = []"
  by (cases xs) (auto split: option.splits)

lemma read_operations_fresh: "read_operations now n vs = Some (ops, m) \<Longrightarrow> fresh_rules now n m ops \<and> ops \<noteq> []"
  by (auto simp: read_operations_def map_seed_fresh createDefaultOperation_fresh dest: map_seed_Nil_iff
      split: if_splits prod.splits)

lemma parseInitialState_fresh:
  "parseInitialState now n v = Some (st, m) \<Longrightarrow> fresh_rules now n m (e_operations st) \<and> e_operations st \<noteq> []"
  by (auto simp: parseInitialState_def Let_def createDefaultOperation_fresh read_operations_fresh
      split: if_splits option.splits jsval.splits prod.splits)

subsection \<open>Every event keeps the rules sound\<close>

definition rules_ok :: "clock \<Rightarrow> editor \<Rightarrow> bool" where
  "rules_ok now s \<longleftrightarrow> ed_operations s \<noteq> [] \<and> sound_rules now (ed_seed s) (ed_operations s)"

lemma rules_ok_fresh:
  "fresh_rules now n (ed_seed s) (ed_operations s) \<Longrightarrow> ed_operations s \<noteq> [] \<Longrightarrow> rules_ok now s"
  by (simp add: rules_ok_def sound_rules_fresh)

lemma rules_ok_map_rule:
  assumes "rules_ok now s" "\<And>r. rule_ids (f r) = rule_ids r" "\<And>r. sound_rule r \<Longrightarrow> sound_rule (f r)"
  shows "rules_ok now (s\<lparr>ed_operations := map_rule k f (ed_operations s)\<rparr>)"
  using assms(1) sound_rules_map [of now "ed_seed s" "ed_operations s" "\<lambda>r. if o_id r = k then f r else r"] assms(2, 3)
  by (simp add: rules_ok_def map_rule_def)

lemma menu_patch_sound:
  "menu_event (Patch_rule k p) \<Longrightarrow> sound_rule r \<Longrightarrow> sound_rule (apply_patch p r)"
  "rule_ids (apply_patch p r) = rule_ids r"
  by (cases p; simp add: sound_rule_def known_rule_def rule_ids_def)+

lemma updateOperation_ok:
  "rules_ok now s \<Longrightarrow> menu_event (Patch_rule k p) \<Longrightarrow> rules_ok now (updateOperation k p s)"
  unfolding updateOperation_def by (rule rules_ok_map_rule) (simp_all add: menu_patch_sound)

lemma text_patch_menu [simp]:
  "menu_event (Patch_rule k (sync_from ch r))" "menu_event (Patch_rule k (sync_to ch r))"
  by (simp_all add: sync_from_def sync_to_def)

lemma with_rule_ok:
  "rules_ok now s \<Longrightarrow> (\<And>r. rules_ok now (f r s)) \<Longrightarrow> rules_ok now (with_rule k f s)"
  by (simp add: with_rule_def split: option.split)

lemma format_value_ok: "rules_ok now s \<Longrightarrow> rules_ok now (format_value r s)"
  by (auto simp: format_value_def intro: updateOperation_ok split: option.split)

lemma addOperation_ok: "rules_ok now s \<Longrightarrow> rules_ok now (addOperation now s)"
  using sound_rules_insert [of now "ed_seed s" "ed_operations s" "[]"]
  by (auto simp: rules_ok_def addOperation_def createDefaultOperation_fresh split: prod.split)

lemma duplicateOperation_ok:
  assumes "rules_ok now s" "duplicateOperation now e k s = Some s'"
  shows "rules_ok now s'"
proof (cases "find_index (\<lambda>r. o_id r = k) (ed_operations s)")
  case None
  then show ?thesis using assms by (simp add: duplicateOperation_def)
next
  case (Some i)
  with assms(2) obtain r m where r: "normalizeOperation now (ed_seed s) (duplicate_value (ed_operations s ! i)) = Some (r, m)"
    "ed_operations s' = take (i + 1) (ed_operations s) @ [r] @ drop (i + 1) (ed_operations s)" "ed_seed s' = m"
    by (auto simp: duplicateOperation_def)
  with sound_rules_insert [of now "ed_seed s" "take (i + 1) (ed_operations s)" "drop (i + 1) (ed_operations s)" m "[r]"]
  show ?thesis using assms(1) normalizeOperation_fresh [OF r(1)] by (simp add: rules_ok_def)
qed

lemma removeOperation_ok: "rules_ok now s \<Longrightarrow> rules_ok now (removeOperation now k s)"
proof (cases "length (ed_operations s) \<le> 1")
  case True
  then show ?thesis
    by (auto simp: removeOperation_def createDefaultOperation_fresh intro!: rules_ok_fresh [of now "ed_seed s"] split: prod.split)
next
  case False
  assume ok: "rules_ok now s"
  obtain a b rs where ops: "ed_operations s = a # b # rs" using False by (metis One_nat_def Suc_le_length_iff linorder_not_le nat_le_linear Suc_lessI less_eq_Suc_le)
  then have "o_id a \<noteq> o_id b" using ok by (auto simp: rules_ok_def sound_rules_def rule_ids_def)
  then have "filter (\<lambda>r. o_id r \<noteq> k) (ed_operations s) \<noteq> []" by (auto simp: ops)
  then show ?thesis using False ok sound_rules_filter by (simp add: removeOperation_def rules_ok_def)
qed

lemma find_index_length: "find_index P xs = Some i \<Longrightarrow> i < length xs"
  by (simp add: find_index_Some)

lemma mset_move: "i < length xs \<Longrightarrow> mset (take j (take i xs @ drop (Suc i) xs) @ xs ! i # drop j (take i xs @ drop (Suc i) xs)) = mset xs"
proof -
  assume "i < length xs"
  then have "mset xs = add_mset (xs ! i) (mset (take i xs @ drop (Suc i) xs))"
    by (metis id_take_nth_drop mset.simps(2) mset_append union_mset_add_mset_right)
  moreover have "mset (take j zs @ x # drop j zs) = add_mset x (mset zs)" for zs x
    by (metis append_take_drop_id mset.simps(2) mset_append union_mset_add_mset_right)
  ultimately show ?thesis by metis
qed

lemma reorder_mset: "mset (reorderOperations ops a b p) = mset ops"
  unfolding reorderOperations_def Let_def
  by (auto intro!: mset_move find_index_length split: option.split simp del: mset.simps mset_append take_append drop_append)

lemma handleDrop_ok: "rules_ok now s \<Longrightarrow> rules_ok now (handleDrop dt k s)"
proof -
  assume ok: "rules_ok now s"
  have "sound_rules now (ed_seed s) (reorderOperations (ed_operations s) a b p)" "reorderOperations (ed_operations s) a b p \<noteq> []" for a b p
    using ok reorder_mset [of "ed_operations s" a b p] sound_rules_perm unfolding rules_ok_def by (blast, metis mset_zero_iff)
  with ok show ?thesis by (simp add: handleDrop_def resetDragState_def rules_ok_def Let_def)
qed

definition with_condition :: "string \<Rightarrow> param_condition \<Rightarrow> param_operation \<Rightarrow> param_operation" where
  "with_condition k c r = (if o_id r = k then r\<lparr>o_conditions := o_conditions r @ [c]\<rparr> else r)"

lemma rule_ids_with_condition: "rule_ids (with_condition k c r) = rule_ids r @ (if o_id r = k then [c_id c] else [])"
  by (simp add: with_condition_def rule_ids_def)

lemma o_id_in_rule_ids: "o_id r \<in> set (rule_ids r)"
  by (simp add: rule_ids_def)

lemma with_condition_ids:
  assumes "distinct (all_ids ops)" "c_id c \<notin> set (all_ids ops)"
  shows "distinct (all_ids (map (with_condition k c) ops)) \<and>
    set (all_ids (map (with_condition k c) ops)) = set (all_ids ops) \<union> (if k \<in> o_id ` set ops then {c_id c} else {})"
  using assms
proof (induction ops)
  case (Cons r rs)
  then have IH: "distinct (all_ids (map (with_condition k c) rs))"
    "set (all_ids (map (with_condition k c) rs)) = set (all_ids rs) \<union> (if k \<in> o_id ` set rs then {c_id c} else {})"
    by simp_all
  show ?case
  proof (cases "o_id r = k")
    case True
    have "k \<notin> o_id ` set rs"
    proof
      assume "k \<in> o_id ` set rs"
      then have "k \<in> set (all_ids rs)" using o_id_in_rule_ids by (auto simp: set_all_ids)
      moreover have "k \<in> set (rule_ids r)" using True o_id_in_rule_ids by metis
      ultimately show False using Cons.prems(1) by auto
    qed
    then show ?thesis using IH Cons.prems True by (auto simp: rule_ids_with_condition)
  next
    case False
    then show ?thesis using IH Cons.prems by (auto simp: rule_ids_with_condition)
  qed
qed simp

lemma createDefaultCondition_fresh:
  "createDefaultCondition now n = (fst (createDefaultCondition now n), Suc n)"
  "c_id (fst (createDefaultCondition now n)) = nextLocalId now n"
  "c_mode (fst (createDefaultCondition now n)) \<in> set CONDITION_MODE_VALUES"
  by (simp_all add: createDefaultCondition_def normalizeParamCondition_def word_or_in)

lemma sound_rules_with_condition:
  assumes "sound_rules now n ops" "c_id c = nextLocalId now n" "c_mode c \<in> set CONDITION_MODE_VALUES"
  shows "sound_rules now (Suc n) (map (with_condition k c) ops)"
proof -
  let ?new = "nextLocalId now ` {..<Suc n}"
  have ids: "distinct (all_ids ops)" "set (all_ids ops) \<subseteq> nextLocalId now ` {..<n}"
    using assms(1) by (simp_all add: sound_rules_def)
  have "nextLocalId now n \<notin> nextLocalId now ` {..<n}" using nextLocalId_inject by blast
  then have "c_id c \<notin> set (all_ids ops)" using ids(2) assms(2) by auto
  from with_condition_ids [OF ids(1) this, of k]
  have "distinct (all_ids (map (with_condition k c) ops))"
    "set (all_ids (map (with_condition k c) ops)) \<subseteq> insert (nextLocalId now n) (set (all_ids ops))"
    using assms(2) by (simp_all add: subset_insertI split: if_splits)
  moreover have "insert (nextLocalId now n) (set (all_ids ops)) \<subseteq> ?new" using ids(2) by (simp add: lessThan_Suc) blast
  moreover have "sound_rule (with_condition k c r)" if "sound_rule r" for r
    using that assms(3) by (simp add: with_condition_def sound_rule_def known_rule_def)
  then have "list_all sound_rule (map (with_condition k c) ops)"
    using assms(1) list_all_map_mono unfolding sound_rules_def by blast
  ultimately show ?thesis unfolding sound_rules_def by blast
qed

lemma addCondition_ok: "rules_ok now s \<Longrightarrow> rules_ok now (addCondition now k s)"
proof -
  assume ok: "rules_ok now s"
  let ?c = "fst (createDefaultCondition now (ed_seed s))"
  have "map_rule k (\<lambda>r. r\<lparr>o_conditions := o_conditions r @ [?c]\<rparr>) ops = map (with_condition k ?c) ops" for ops
    unfolding map_rule_def with_condition_def by (rule refl)
  then have "ed_operations (addCondition now k s) = map (with_condition k ?c) (ed_operations s)"
    "ed_seed (addCondition now k s) = Suc (ed_seed s)"
    unfolding addCondition_def by (subst createDefaultCondition_fresh(1); simp)+
  then show ?thesis
    using ok sound_rules_with_condition [OF _ createDefaultCondition_fresh(2, 3), of now "ed_seed s"]
    by (simp add: rules_ok_def)
qed

lemma condition_patch_keeps:
  "c_id (apply_condition_patch p c) = c_id c"
  "menu_event (Patch_condition k i p) \<Longrightarrow> c_mode c \<in> set CONDITION_MODE_VALUES \<Longrightarrow>
     c_mode (apply_condition_patch p c) \<in> set CONDITION_MODE_VALUES"
  by (cases p; simp)+

lemma updateCondition_ok:
  assumes "rules_ok now s" "menu_event (Patch_condition k i p)"
  shows "rules_ok now (updateCondition k i p s)"
proof -
  let ?g = "\<lambda>c. if c_id c = i then apply_condition_patch p c else c"
  have "c_id (?g c) = c_id c" for c by (simp add: condition_patch_keeps)
  then have ids: "map c_id (map ?g cs) = map c_id cs" for cs by simp
  have "c_mode (?g c) \<in> set CONDITION_MODE_VALUES" if "c_mode c \<in> set CONDITION_MODE_VALUES" for c
    using that condition_patch_keeps(2) [OF assms(2)] by simp
  note mode = this
  have modes: "list_all (\<lambda>c. c_mode c \<in> set CONDITION_MODE_VALUES) (map ?g cs)"
    if "list_all (\<lambda>c. c_mode c \<in> set CONDITION_MODE_VALUES) cs" for cs
    by (rule list_all_map_mono [OF that]) (rule mode)
  show ?thesis unfolding updateCondition_def
    by (rule rules_ok_map_rule [OF assms(1)])
      (simp_all add: rule_ids_def sound_rule_def known_rule_def ids modes del: map_map list.map)
qed

lemma updateReturnErrorDraft_ok: "rules_ok now s \<Longrightarrow> rules_ok now (updateReturnErrorDraft k p s)"
  unfolding updateReturnErrorDraft_def
  by (rule rules_ok_map_rule) (simp_all add: rule_ids_def sound_rule_def known_rule_def)

definition without_condition :: "string \<Rightarrow> string \<Rightarrow> param_operation \<Rightarrow> param_operation" where
  "without_condition k i r = (if o_id r = k then r\<lparr>o_conditions := filter (\<lambda>c. c_id c \<noteq> i) (o_conditions r)\<rparr> else r)"

lemma without_condition_rule:
  "set (rule_ids (without_condition k i r)) \<subseteq> set (rule_ids r)"
  "distinct (rule_ids r) \<Longrightarrow> distinct (rule_ids (without_condition k i r))"
  "sound_rule r \<Longrightarrow> sound_rule (without_condition k i r)"
proof -
  show "set (rule_ids (without_condition k i r)) \<subseteq> set (rule_ids r)"
    by (simp add: without_condition_def rule_ids_def) blast
  show "distinct (rule_ids (without_condition k i r))" if "distinct (rule_ids r)"
    using that by (simp add: without_condition_def rule_ids_def distinct_map_filter image_iff) blast
  show "sound_rule (without_condition k i r)" if "sound_rule r"
    using that by (simp add: without_condition_def sound_rule_def known_rule_def list_all_iff)
qed

lemma all_ids_without_condition:
  "set (all_ids (map (without_condition k i) ops)) \<subseteq> set (all_ids ops)"
  "distinct (all_ids ops) \<Longrightarrow> distinct (all_ids (map (without_condition k i) ops))"
proof (induction ops)
  case (Cons r rs)
  { case 1 show ?case using Cons.IH(1) without_condition_rule(1) [of k i r] by simp blast }
  { case 2 then show ?case
      using Cons.IH without_condition_rule(1) [of k i r] without_condition_rule(2) [of r k i] by simp blast }
qed simp_all

lemma removeCondition_ok: "rules_ok now s \<Longrightarrow> rules_ok now (removeCondition k i s)"
proof -
  assume ok: "rules_ok now s"
  have "removeCondition k i s = s\<lparr>ed_operations := map (without_condition k i) (ed_operations s)\<rparr>"
    unfolding removeCondition_def map_rule_def without_condition_def by (rule refl)
  moreover have "sound_rules now (ed_seed s) (map (without_condition k i) (ed_operations s))"
    using ok all_ids_without_condition [where k = k and i = i]
      list_all_map_mono [of sound_rule "ed_operations s" sound_rule "without_condition k i"] without_condition_rule(3)
    unfolding rules_ok_def sound_rules_def by (meson subset_trans)
  ultimately show ?thesis using ok by (simp add: rules_ok_def)
qed

text \<open>Reading and changing a \<open>prune_objects\<close> draft only draws identifiers.\<close>

lemma parsePruneObjectsDraft_seed: "n \<le> snd (parsePruneObjectsDraft now n vt)"
proof -
  have *: "n \<le> snd (push_rules now n vs)" for vs by (simp add: push_rules_ids)
  show ?thesis
  proof (cases "json_parse (trim vt)")
    case None
    then show ?thesis by (simp add: parsePruneObjectsDraft_def Let_def)
  next
    case (Some v)
    then show ?thesis
      by (cases v) (simp_all add: parsePruneObjectsDraft_def Let_def case_prod_unfold * split: option.split)
  qed
qed

lemma render_ok: "rules_ok now s \<Longrightarrow> rules_ok now (render now s)"
proof -
  assume ok: "rules_ok now s"
  have "ed_seed s \<le> n" if "pruneObjectsDraft now s = Some (d, n)" for d n
    using that parsePruneObjectsDraft_seed [of "ed_seed s" now]
    by (simp add: pruneObjectsDraft_def split: option.splits if_splits) (metis snd_conv)
  then show ?thesis
    using ok by (simp add: render_def rules_ok_def split: option.split) (metis sound_rules_mono)
qed

lemma prune_rules_seed:
  assumes "\<And>n d. n \<le> snd (u n d)"
  shows "n \<le> snd (prune_rules now k u n ops)"
proof (induction ops arbitrary: n)
  case (Cons r rs)
  have "n \<le> snd (prune_value now u n vt)" for vt
    using assms parsePruneObjectsDraft_seed [of n now vt]
    by (simp add: prune_value_def case_prod_unfold) (meson order_trans)
  with Cons show ?case by (simp add: case_prod_unfold) (meson order_trans)
qed simp

lemma prune_rules_keep:
  "all_ids (fst (prune_rules now k u n ops)) = all_ids ops"
  "list_all sound_rule (fst (prune_rules now k u n ops)) = list_all sound_rule ops"
  "length (fst (prune_rules now k u n ops)) = length ops"
  by (induction ops arbitrary: n)
    (simp_all add: case_prod_unfold rule_ids_def sound_rule_def known_rule_def)

lemma updatePruneObjectsDraft_ok:
  assumes "rules_ok now s" "\<And>n d. n \<le> snd (u n d)"
  shows "rules_ok now (updatePruneObjectsDraft now k u s)"
proof -
  let ?p = "prune_rules now k u (ed_seed s) (ed_operations s)"
  have "sound_rules now (ed_seed s) (fst ?p)"
    using assms(1) by (simp add: rules_ok_def sound_rules_def prune_rules_keep)
  then have "sound_rules now (snd ?p) (fst ?p)" 
    by (rule sound_rules_mono) (rule prune_rules_seed, rule assms(2))
  moreover have "fst ?p \<noteq> []" using assms(1) prune_rules_keep(3) [of now k u "ed_seed s" "ed_operations s"]
    by (auto simp: rules_ok_def)
  ultimately show ?thesis by (simp add: updatePruneObjectsDraft_def rules_ok_def case_prod_unfold)
qed

lemma prune_updaters_seed [simp]:
  "n \<le> snd (apply_prune_patch p n d)" "n \<le> snd (add_rule now n d)" "n \<le> snd (edit_rule i cp n d)" "n \<le> snd (drop_rule i n d)"
  by (cases p; simp add: add_rule_def edit_rule_def drop_rule_def)+

lemma rules_ok_frame:
  "rules_ok now s \<Longrightarrow> ed_operations s' = ed_operations s \<Longrightarrow> ed_seed s' = ed_seed s \<Longrightarrow> rules_ok now s'"
  by (simp add: rules_ok_def)

lemma quiet_frames [simp]:
  "ed_operations (toast_error e s) = ed_operations s" "ed_seed (toast_error e s) = ed_seed s"
  "ed_operations (switchToJsonMode s) = ed_operations s" "ed_seed (switchToJsonMode s) = ed_seed s"
  "ed_operations (handleJsonChange v s) = ed_operations s" "ed_seed (handleJsonChange v s) = ed_seed s"
  "ed_operations (formatJson s) = ed_operations s" "ed_seed (formatJson s) = ed_seed s"
  "ed_operations (handleSave s) = ed_operations s" "ed_seed (handleSave s) = ed_seed s"
  "ed_operations (handleDragStart k s) = ed_operations s" "ed_seed (handleDragStart k s) = ed_seed s"
  "ed_operations (handleDragOver k p s) = ed_operations s" "ed_seed (handleDragOver k p s) = ed_seed s"
  "ed_operations (resetDragState s) = ed_operations s" "ed_seed (resetDragState s) = ed_seed s"
  "ed_operations (set_expanded c b s) = ed_operations s" "ed_seed (set_expanded c b s) = ed_seed s"
  "ed_operations (expand_selected b s) = ed_operations s" "ed_seed (expand_selected b s) = ed_seed s"
  by (simp_all add: toast_error_def switchToJsonMode_def handleJsonChange_def formatJson_def handleSave_def
      handleDragStart_def handleDragOver_def resetDragState_def set_expanded_def expand_selected_def Let_def
      split: sum.split option.split)

text \<open>A new rule list with fresh identifiers.\<close>

lemma rules_ok_created:
  assumes "createDefaultOperation now n = (r, m)" "ed_operations s = [r]" "ed_seed s = m"
  shows "rules_ok now s"
  using assms createDefaultOperation_fresh by (intro rules_ok_fresh [of now n]) simp_all

lemma rules_ok_read:
  "read_operations now n vs = Some (ops, m) \<Longrightarrow> ed_operations s = ops \<Longrightarrow> ed_seed s = m \<Longrightarrow> rules_ok now s"
  using read_operations_fresh by (intro rules_ok_fresh [of now n]) simp_all

lemma open_dialog_ok: "open_dialog now v s = Some s' \<Longrightarrow> rules_ok now s'"
proof -
  assume "open_dialog now v s = Some s'"
  then obtain st m where "parseInitialState now (ed_seed s) v = Some (st, m)" "ed_operations s' = e_operations st" "ed_seed s' = m"
    by (auto simp: open_dialog_def)
  then show ?thesis using parseInitialState_fresh by (intro rules_ok_fresh [of now "ed_seed s"]) simp_all
qed

lemma resetEditorState_ok: "rules_ok now (resetEditorState now s)"
  by (cases "createDefaultOperation now (ed_seed s)")
    (rule rules_ok_created [where s = "resetEditorState now s"], simp_all add: resetEditorState_def)

lemma switchToVisualMode_ok:
  assumes "rules_ok now s" "switchToVisualMode now s = Some s'"
  shows "rules_ok now s'"
proof -
  obtain r m where r: "createDefaultOperation now (ed_seed s) = (r, m)" by fastforce
  consider "ed_operations s' = ed_operations s" "ed_seed s' = ed_seed s"
    | "ed_operations s' = [r]" "ed_seed s' = m"
    | vs ops k where "read_operations now (ed_seed s) vs = Some (ops, k)" "ed_operations s' = ops" "ed_seed s' = k"
    using assms(2)
    by (auto simp: switchToVisualMode_def r Let_def split: if_splits option.splits jsval.splits)
  then show ?thesis using assms(1) r by cases (auto intro: rules_ok_frame rules_ok_created rules_ok_read)
qed

subsection \<open>Templates\<close>

definition template_rules :: "props \<Rightarrow> jsval list" where
  "template_rules payload = (case obj_get payload ''operations'' of JArr vs \<Rightarrow> vs | _ \<Rightarrow> [])"

lemma templates_have_rules:
  "map_of TEMPLATE_PRESET_CONFIG k = Some (kind, payload) \<Longrightarrow> kind \<noteq> Legacy_template \<Longrightarrow> template_rules payload \<noteq> []"
proof -
  assume a: "map_of TEMPLATE_PRESET_CONFIG k = Some (kind, payload)" "kind \<noteq> Legacy_template"
  have "list_all (\<lambda>(k, kind, payload). kind = Legacy_template \<or> 0 < length (template_rules payload)) TEMPLATE_PRESET_CONFIG"
    by code_simp
  with map_of_SomeD [OF a(1)] a(2) show ?thesis by (auto simp: list_all_iff)
qed

lemma fill_operations_ok:
  assumes "rules_ok now s" "vs \<noteq> []" "fill_operations now mode vs s = Some s'"
  shows "rules_ok now s'"
proof (cases "mode = Append")
  case True
  let ?old = "if ed_visualMode s = Operations then filter (\<lambda>r. \<not> isOperationBlank r) (ed_operations s) else []"
  from True assms(3) obtain new n where new: "map_seed (normalizeOperation now) (ed_seed s) vs = Some (new, n)"
    "ed_operations s' = (if ?old @ new \<noteq> [] then ?old @ new else new)" "ed_seed s' = n"
    by (auto simp: fill_operations_def Let_def)
  have "new \<noteq> []" using new(1) assms(2) map_seed_Nil_iff by metis
  moreover have "sound_rules now (ed_seed s) (?old @ [])"
    using assms(1) sound_rules_filter [of now "ed_seed s" "ed_operations s"]
    by (cases "ed_visualMode s = Operations") (simp_all add: rules_ok_def, simp add: sound_rules_def)
  from sound_rules_insert [OF this map_seed_fresh [OF new(1)]] have "sound_rules now n (?old @ new)" by simp
  ultimately show ?thesis using new(2, 3) by (simp add: rules_ok_def)
next
  case False
  with assms(3) obtain ops n where "read_operations now (ed_seed s) vs = Some (ops, n)" "ed_operations s' = ops" "ed_seed s' = n"
    by (auto simp: fill_operations_def)
  then show ?thesis by (rule rules_ok_read)
qed

lemma set_legacy_ok: "rules_ok now (set_legacy now v s)"
  by (cases "createDefaultOperation now (ed_seed s)")
    (rule rules_ok_created [where s = "set_legacy now v s"], simp_all add: set_legacy_def)

lemma fillTemplate_ok:
  assumes "rules_ok now s" "fillTemplate now mode s = Some s'"
  shows "rules_ok now s'"
proof -
  obtain kind payload where t: "(case map_of TEMPLATE_PRESET_CONFIG (ed_templatePresetKey s) of
      Some preset \<Rightarrow> preset | None \<Rightarrow> (Operations_template, OPERATION_TEMPLATE)) = (kind, payload)" by fastforce
  have "0 < length (template_rules OPERATION_TEMPLATE)" by code_simp
  then have vs: "template_rules payload \<noteq> []" if "kind \<noteq> Legacy_template"
    using t that templates_have_rules by (auto split: option.splits)
  show ?thesis
  proof (cases "kind = Legacy_template")
    case True
    with assms(2) t have "s' = fill_legacy now mode payload s" by (simp add: fillTemplate_def)
    with assms(1) show ?thesis
      by (auto simp: fill_legacy_def Let_def set_legacy_ok intro: rules_ok_frame split: option.split)
  next
    case False
    with assms(2) t have "fill_operations now mode (template_rules payload) s = Some s'"
      by (simp add: fillTemplate_def template_rules_def)
    with fill_operations_ok assms(1) vs False show ?thesis by blast
  qed
qed

subsection \<open>The invariant\<close>

lemma throwing_ok:
  assumes "rules_ok now s"
  shows "pred_option (rules_ok now) (open_dialog now v s)" "pred_option (rules_ok now) (duplicateOperation now e k s)"
    "pred_option (rules_ok now) (switchToVisualMode now s)" "pred_option (rules_ok now) (fillTemplate now mode s)"
  using assms open_dialog_ok duplicateOperation_ok switchToVisualMode_ok fillTemplate_ok
  unfolding pred_option_def by (meson elem_set)+

lemma prune_handlers_ok:
  assumes "rules_ok now s"
  shows "rules_ok now (updatePruneObjectsDraft now k (apply_prune_patch p) s)" "rules_ok now (addPruneRule now k s)"
    "rules_ok now (updatePruneRule now k c cp s)" "rules_ok now (removePruneRule now k c s)"
  using updatePruneObjectsDraft_ok [OF assms]
  by (simp_all add: addPruneRule_def updatePruneRule_def removePruneRule_def)

lemma quiet_ok:
  assumes "rules_ok now s"
  shows "rules_ok now (switchToJsonMode s)" "rules_ok now (handleJsonChange v s)" "rules_ok now (formatJson s)"
    "rules_ok now (handleSave s)" "rules_ok now (handleDragStart k s)" "rules_ok now (handleDragOver k p s)"
    "rules_ok now (resetDragState s)" "rules_ok now (set_expanded c b s)" "rules_ok now (expand_selected b s)"
    "rules_ok now (s\<lparr>ed_open := b\<rparr>)" "rules_ok now (s\<lparr>ed_selectedOperationId := k\<rparr>)"
    "rules_ok now (s\<lparr>ed_operationSearch := k\<rparr>)" "rules_ok now (s\<lparr>ed_templatePresetKey := k\<rparr>)"
    "rules_ok now (s\<lparr>ed_legacyValue := v\<rparr>)"
  using assms by (simp_all add: rules_ok_def)

lemmas event_ok = throwing_ok prune_handlers_ok quiet_ok render_ok updateOperation_ok with_rule_ok format_value_ok
  addOperation_ok removeOperation_ok addCondition_ok updateCondition_ok removeCondition_ok
  updateReturnErrorDraft_ok handleDrop_ok resetEditorState_ok

lemma editor_event_ok:
  "rules_ok now s \<Longrightarrow> menu_event ev \<Longrightarrow> pred_option (rules_ok now) (editor_event_do now ev s)"
  by (cases ev) (simp_all add: event_ok del: menu_event.simps)

definition editor_ok :: "clock \<Rightarrow> editor \<Rightarrow> bool" where
  "editor_ok now s \<longleftrightarrow> rules_ok now s \<and> ed_selectedOperationId s \<in> o_id ` set (ed_operations s)"

lemma keep_selection_ok: "rules_ok now s \<Longrightarrow> editor_ok now (keep_selection s)"
  by (simp add: editor_ok_def rules_ok_def keep_selection_def list_ex_iff image_iff) (metis hd_in_set)

lemma editor_init_ok: "editor_ok now (editor_init now n)"
proof -
  obtain r m where r: "createDefaultOperation now n = (r, m)" by fastforce
  have "rules_ok now s" if "ed_operations s = [r]" "ed_seed s = m" for s
    by (rule rules_ok_created [OF r that])
  then show ?thesis unfolding editor_init_def r by (simp add: keep_selection_ok)
qed

lemma editor_step_ok: "editor_ok now s \<Longrightarrow> editor_step now s ev t \<Longrightarrow> editor_ok now t"
proof -
  assume ok: "editor_ok now s" and "editor_step now s ev t"
  from this(2) obtain s' where "menu_event ev" "editor_event_do now ev s = Some s'" "t = keep_selection s'"
    by (cases rule: editor_step.cases) blast
  then show ?thesis using ok editor_event_ok [of now s ev] keep_selection_ok by (simp add: editor_ok_def)
qed

interpretation override_dialog: inductive_invariant "editor_step now" "editor_init now n" "editor_ok now" for now n
  by unfold_locales (auto intro: editor_init_ok editor_step_ok)

lemma sound_known: "rules_ok now s \<Longrightarrow> list_all known_rule (ed_operations s)"
  by (auto simp: rules_ok_def sound_rules_def sound_rule_def list_all_iff)

lemma distinct_rule_ids: "distinct (all_ids ops) \<Longrightarrow> distinct (map o_id ops)"
proof (induction ops)
  case (Cons r rs)
  have "o_id ` set rs \<subseteq> set (all_ids rs)" using o_id_in_rule_ids by (auto simp: set_all_ids)
  moreover have "o_id r \<notin> set (all_ids rs)" using Cons.prems o_id_in_rule_ids [of r] by auto
  ultimately show ?case using Cons by auto
qed simp

text \<open>C3. In every state that the dialog reaches there is a rule, exactly one rule is selected, no
  identifier of a rule or a condition occurs twice, and the modes and logics are those of the menus.\<close>

theorem override_dialog_invariant:
  assumes "reach (editor_step now) (editor_init now n) s"
  shows "ed_operations s \<noteq> [] \<and> distinct (all_ids (ed_operations s))
    \<and> (\<exists>!i. i < length (ed_operations s) \<and> o_id (ed_operations s ! i) = ed_selectedOperationId s)
    \<and> list_all sound_rule (ed_operations s)"
proof -
  have ok: "editor_ok now s" using override_dialog.inv_reach [OF assms] .
  then have ids: "distinct (all_ids (ed_operations s))" by (simp add: editor_ok_def rules_ok_def sound_rules_def)
  from ok obtain i where i: "i < length (ed_operations s)" "o_id (ed_operations s ! i) = ed_selectedOperationId s"
    by (auto simp: editor_ok_def in_set_conv_nth)
  have "j = i" if "j < length (ed_operations s)" "o_id (ed_operations s ! j) = ed_selectedOperationId s" for j
    using distinct_rule_ids [OF ids] that i by (metis distinct_conv_nth length_map nth_map)
  with i ids ok show ?thesis by (auto simp: editor_ok_def rules_ok_def sound_rules_def)
qed

text \<open>C4. Saving the rules of the visual mode: if all of them are empty, the empty text is handed over; if the
  check rejects one that is not, its error is shown and nothing else changes; otherwise the dialog closes
  and hands over a document that is well typed but for targets left over from another mode, and well
  typed without exception if no rule has one.\<close>

theorem override_dialog_saves:
  assumes "reach (editor_step now) (editor_init now n) s" "ed_editMode s = Visual" "ed_visualMode s = Operations"
    "list_all plain_rule (ed_operations s)" "ops = filter (\<lambda>r. \<not> isOperationBlank r) (ed_operations s)"
  shows "if ops = [] then handleSave s = s\<lparr>ed_saved := ed_saved s @ [[]], ed_open := False\<rparr>
    else case validateOperations ops of
      Some e \<Rightarrow> handleSave s = s\<lparr>ed_toasts := ed_toasts s @ [Build_failed e]\<rparr>
    | None \<Rightarrow> \<exists>t doc. handleSave s = s\<lparr>ed_saved := ed_saved s @ [t], ed_open := False\<rparr>
        \<and> json_parse t = Some doc \<and> typed_document True doc
        \<and> (typed_document False doc \<longleftrightarrow> list_all (\<lambda>r. \<not> leftover_to r) ops)"
proof -
  have rules: "list_all known_rule ops" "list_all plain_rule ops"
    using assms(4, 5) sound_known override_dialog.inv_reach [OF assms(1)] by (auto simp: editor_ok_def list_all_iff)
  have built: "buildVisualJson s =
      (if ops = [] then Inr [] else case validateOperations ops of
        Some e \<Rightarrow> Inl (Build_failed e) | None \<Rightarrow> Inr (json_pretty (operations_document ops)))"
    using assms(3) by (auto simp: buildVisualJson_def buildOperationsJson_def assms(5) Let_def split: option.splits)
  show ?thesis
  proof (cases "ops = [] \<or> validateOperations ops \<noteq> None")
    case True
    then show ?thesis using built assms(2) by (auto simp: handleSave_def save_result_def toast_error_def)
  next
    case False
    then have "buildOperationsJson (ed_operations s) True = Inr (json_pretty (operations_document ops))"
      by (simp add: buildOperationsJson_def assms(5) Let_def)
    note checked = written_document(3) [OF this, folded assms(5)]
    have "ops \<noteq> []" "handleSave s = s\<lparr>ed_saved := ed_saved s @ [json_pretty (operations_document ops)], ed_open := False\<rparr>"
      using built False assms(2) by (simp_all add: handleSave_def save_result_def)
    with document_typed [OF rules checked] document_text(1, 3) [OF rules(2)] False
    show ?thesis by (auto intro!: exI [of _ "json_pretty (operations_document ops)"])
  qed
qed

text \<open>C8. Going to the JSON view and back keeps the rules that are not empty, in their order, each with what
  its mode stores, also when the check rejects them.\<close>

theorem override_view_roundtrip:
  assumes "reach (editor_step now) (editor_init now n) s" "ed_editMode s = Visual" "ed_visualMode s = Operations"
    "list_all plain_rule (ed_operations s)" "\<not> list_all isOperationBlank (ed_operations s)"
  shows "\<exists>s'. switchToVisualMode now (switchToJsonMode s) = Some s' \<and> ed_editMode s' = Visual \<and> ed_visualMode s' = Operations
    \<and> ed_jsonError s' = []
    \<and> map anon_rule (ed_operations s') = map stored_operation (filter (\<lambda>r. \<not> isOperationBlank r) (ed_operations s))"
proof -
  let ?ops = "filter (\<lambda>r. \<not> isOperationBlank r) (ed_operations s)"
  let ?t = "json_pretty (operations_document ?ops)"
  have rules: "list_all known_rule ?ops" "list_all plain_rule ?ops" "?ops \<noteq> []"
    using assms(4, 5) sound_known override_dialog.inv_reach [OF assms(1)]
    by (auto simp: editor_ok_def list_all_iff filter_empty_conv)
  have "unchecked_json (ed_operations s) = ?t" using rules(3) by (simp add: unchecked_json_def buildOperationsJson_def)
  then have json: "ed_jsonText (switchToJsonMode s) = ?t" "ed_editMode (switchToJsonMode s) = Json_text"
    using assms(2, 3) rules(3)
    by (simp_all add: switchToJsonMode_def buildVisualJson_def buildOperationsJson_def toast_error_def Let_def
        split: option.split)
  obtain rs m where "read_operations now (ed_seed s) (map (\<lambda>r. JObj (operation_payload r)) ?ops) = Some (rs, m)"
    "map anon_rule rs = map stored_operation ?ops" using read_payloads [OF rules(1, 3)] .
  with json show ?thesis
    using document_text [OF rules(2)]
    by (simp add: switchToVisualMode_def Let_def) (simp add: operations_document_def)
qed

subsection \<open>What templates keep\<close>

text \<open>Values that the reading of a rule does not reject.\<close>

definition accepted_rule :: "jsval \<Rightarrow> bool" where
  "accepted_rule v \<longleftrightarrow>
     v \<noteq> JNull \<and> js_string (js_or (js_get v ''logic'') (JStr ''OR'')) \<noteq> None
     \<and> (case js_get v ''conditions'' of JArr cs \<Rightarrow> list_all (\<lambda>c. c \<noteq> JNull) cs | _ \<Rightarrow> True)"

lemma map_seed_total:
  "(\<And>n x. x \<in> set xs \<Longrightarrow> f n x \<noteq> None) \<Longrightarrow> map_seed f n xs \<noteq> None"
proof (induction xs arbitrary: n)
  case (Cons x xs)
  from Cons.prems [of x n] obtain y m where "f n x = Some (y, m)" by auto
  moreover from Cons.IH Cons.prems have "map_seed f m xs \<noteq> None" by (meson list.set_intros(2))
  ultimately show ?case by auto
qed simp

lemma accepted_normalizes: "accepted_rule v \<Longrightarrow> normalizeOperation now n v \<noteq> None"
proof -
  assume v: "accepted_rule v"
  have "map_seed (normalizeParamCondition now) (Suc n) cs \<noteq> None" if "js_get v ''conditions'' = JArr cs" for cs
    using v that by (intro map_seed_total) (auto simp: accepted_rule_def list_all_iff normalizeParamCondition_def)
  with v show ?thesis
    by (auto simp: accepted_rule_def normalizeOperation_def split: option.splits jsval.splits)
qed

lemma templates_accepted:
  "map_of TEMPLATE_PRESET_CONFIG k = Some (kind, payload) \<Longrightarrow> list_all accepted_rule (template_rules payload)"
proof -
  assume a: "map_of TEMPLATE_PRESET_CONFIG k = Some (kind, payload)"
  have "list_all (\<lambda>(k, kind, payload). list_all accepted_rule (template_rules payload)) TEMPLATE_PRESET_CONFIG"
    by code_simp
  with map_of_SomeD [OF a] show ?thesis by (auto simp: list_all_iff)
qed

text \<open>C38. Appending a template never throws.  While rules are edited, a template of rules goes behind the
  rules that are not empty, which all stay in their order; a template of the legacy format replaces every
  rule by one empty rule.\<close>

theorem template_append:
  assumes "map_of TEMPLATE_PRESET_CONFIG (ed_templatePresetKey s) = Some (kind, payload)" "ed_visualMode s = Operations"
  shows "\<exists>s'. fillTemplate now Append s = Some s' \<and>
    (if kind = Operations_template
     then \<exists>new n. map_seed (normalizeOperation now) (ed_seed s) (template_rules payload) = Some (new, n) \<and> new \<noteq> []
       \<and> ed_operations s' = filter (\<lambda>r. \<not> isOperationBlank r) (ed_operations s) @ new
     else ed_visualMode s' = Legacy \<and> ed_legacyValue s' = json_pretty (JObj payload)
       \<and> list_all isOperationBlank (ed_operations s'))"
proof (cases "kind = Operations_template")
  case True
  have "map_seed (normalizeOperation now) (ed_seed s) (template_rules payload) \<noteq> None"
    using templates_accepted [OF assms(1)] accepted_normalizes by (intro map_seed_total) (simp add: list_all_iff)
  then obtain new n where new: "map_seed (normalizeOperation now) (ed_seed s) (template_rules payload) = Some (new, n)" by auto
  moreover from this have "new \<noteq> []" using templates_have_rules [OF assms(1)] True map_seed_Nil_iff by fastforce
  ultimately show ?thesis
    using True assms by (simp add: fillTemplate_def fill_operations_def template_rules_def Let_def)
next
  case False
  then have kind: "kind = Legacy_template" by (cases kind) simp_all
  obtain r m where r: "createDefaultOperation now (ed_seed s) = (r, m)" by fastforce
  then have "isOperationBlank r"
    by (auto simp: createDefaultOperation_def normalizeOperation_def js_or_def isOperationBlank_def word_or_def)
  then show ?thesis using assms kind r by (simp add: fillTemplate_def fill_legacy_def set_legacy_def Let_def)
qed

subsection \<open>The conditions of \<open>prune_objects\<close>\<close>

text \<open>Reading a draft again gives it with other identifiers.\<close>

lemma prune_draft_again:
  assumes "parsePruneObjectsDraft now n vt = (d, n')" "parsePruneObjectsDraft now m vt = (d', m')"
  shows "d' = d\<lparr>p_rules := p_rules d'\<rparr>" "map anon (p_rules d') = map anon (p_rules d)"
    "c_id ` set (p_rules d) \<subseteq> nextLocalId now ` {n..<n'}" "p_logic d = ''AND'' \<or> p_logic d = ''OR''"
proof -
  have view: "map anon (fst (push_rules now m vs)) = map anon (fst (push_rules now n vs))" for vs
    by (simp add: push_rules_view)
  have "set (map c_id (fst (push_rules now n vs))) = nextLocalId now ` {n..<snd (push_rules now n vs)}" for vs
    by (simp only: push_rules_ids set_map set_upt)
  then have ids: "c \<in> set (fst (push_rules now n vs)) \<Longrightarrow> c_id c \<in> nextLocalId now ` {n..<snd (push_rules now n vs)}" for vs c
    by (metis imageI set_map)
  have "d' = d\<lparr>p_rules := p_rules d'\<rparr> \<and> map anon (p_rules d') = map anon (p_rules d)
      \<and> c_id ` set (p_rules d) \<subseteq> nextLocalId now ` {n..<n'} \<and> (p_logic d = ''AND'' \<or> p_logic d = ''OR'')"
  proof (cases "trim vt = []")
    case True
    then show ?thesis using assms by (simp add: parsePruneObjectsDraft_def Let_def) (auto simp: prune_defaults_def)
  next
    case False
    show ?thesis
    proof (cases "json_parse (trim vt)")
      case None
      then show ?thesis using assms False by (simp add: parsePruneObjectsDraft_def Let_def) (auto simp: prune_defaults_def)
    next
      case (Some v)
      then show ?thesis using assms view False
        by (cases v) (simp_all add: parsePruneObjectsDraft_def Let_def case_prod_unfold split: option.splits,
          auto simp: prune_defaults_def intro: ids)
    qed
  qed
  then show "d' = d\<lparr>p_rules := p_rules d'\<rparr>" "map anon (p_rules d') = map anon (p_rules d)"
    "c_id ` set (p_rules d) \<subseteq> nextLocalId now ` {n..<n'}" "p_logic d = ''AND'' \<or> p_logic d = ''OR''" by blast+
qed

lemma stored_rules_view: "map anon (p_rules d') = map anon (p_rules d) \<Longrightarrow> stored_rules d' = stored_rules d"
proof -
  have *: "stored_rules d = map (\<lambda>r. anon (stored_rule r)) (filter (\<lambda>r. trim (c_path r) \<noteq> []) (map anon (p_rules d)))" for d
    by (simp add: stored_rules_def filter_map comp_def anon_def stored_rule_def)
  show "map anon (p_rules d') = map anon (p_rules d) \<Longrightarrow> stored_rules d' = stored_rules d" by (simp only: *)
qed

lemma prune_draft_shown:
  assumes "parsePruneObjectsDraft now n vt = (d, n')" "parsePruneObjectsDraft now m vt = (d', m')"
  shows "p_simpleMode d' = p_simpleMode d" "p_typeText d' = p_typeText d" "stored_rules d' = stored_rules d"
    "list_all (\<lambda>c. plain_value (c_value_text c)) (p_rules d') = list_all (\<lambda>c. plain_value (c_value_text c)) (p_rules d)"
proof -
  note again = prune_draft_again [OF assms]
  have "p_simpleMode (d\<lparr>p_rules := cs\<rparr>) = p_simpleMode d" "p_typeText (d\<lparr>p_rules := cs\<rparr>) = p_typeText d" for cs by simp_all
  then show "p_simpleMode d' = p_simpleMode d" "p_typeText d' = p_typeText d" using again(1) by metis+
  show "stored_rules d' = stored_rules d" by (rule stored_rules_view [OF again(2)])
  have "list_all (\<lambda>c. plain_value (c_value_text c)) cs = list_all (\<lambda>c. plain_value (c_value_text c)) (map anon cs)" for cs
    by (induction cs) (simp_all add: anon_def)
  then show "list_all (\<lambda>c. plain_value (c_value_text c)) (p_rules d') = list_all (\<lambda>c. plain_value (c_value_text c)) (p_rules d)"
    using again(2) by metis
qed

text \<open>An updater that matches no identifier of the new reading, or adds an empty condition, is undone by
  the next reading.\<close>

definition idle_updater :: "prune_updater \<Rightarrow> nat \<Rightarrow> prune_draft \<Rightarrow> bool" where
  "idle_updater u n d \<longleftrightarrow>
     (let d' = fst (u n d) in \<not> p_simpleMode d' \<and> stored_rules d' = stored_rules d \<and> p_logic d' = p_logic d
        \<and> p_typeText d' = p_typeText d
        \<and> list_all (\<lambda>c. plain_value (c_value_text c)) (p_rules d'))"

lemma idle_prune_value:
  assumes "parsePruneObjectsDraft now n vt = (d, n1)" "idle_updater u n1 d" "prune_value now u n vt = (vt', n2)"
    "parsePruneObjectsDraft now m vt' = (d', m')"
  shows "map anon (p_rules d') = stored_rules d" "p_typeText d' = trim (p_typeText d)"
proof -
  let ?e = "fst (u n1 d)"
  have vt': "vt' = buildPruneObjectsValueText ?e" using assms(1, 3) by (simp add: prune_value_def case_prod_unfold)
  have logic: "p_logic ?e = ''AND'' \<or> p_logic ?e = ''OR''"
    using prune_draft_again(4) [OF assms(1) assms(1)] assms(2) by (simp add: idle_updater_def Let_def)
  have "\<not> p_simpleMode ?e" "\<And>c. c \<in> set (p_rules ?e) \<Longrightarrow> plain_value (c_value_text c)"
    using assms(2) by (simp_all add: idle_updater_def Let_def list_all_iff)
  from prune_advanced [OF this logic, of now m]
  show "map anon (p_rules d') = stored_rules d" "p_typeText d' = trim (p_typeText d)"
    using assms(2, 4) unfolding vt' idle_updater_def Let_def by (metis prod.inject)+
qed

lemma idle_updaters:
  assumes "\<not> p_simpleMode d" "list_all (\<lambda>c. plain_value (c_value_text c)) (p_rules d)"
  shows "i \<notin> c_id ` set (p_rules d) \<Longrightarrow> idle_updater (edit_rule i p) n d"
    "i \<notin> c_id ` set (p_rules d) \<Longrightarrow> idle_updater (drop_rule i) n d" "idle_updater (add_rule now) n d"
proof -
  have "map (\<lambda>c. if c_id c = i then apply_condition_patch p c else c) (p_rules d) = p_rules d"
    "filter (\<lambda>c. c_id c \<noteq> i) (p_rules d) = p_rules d" if "i \<notin> c_id ` set (p_rules d)"
    using that by (intro map_idI, auto simp: filter_id_conv)
  then show "i \<notin> c_id ` set (p_rules d) \<Longrightarrow> idle_updater (edit_rule i p) n d"
    "i \<notin> c_id ` set (p_rules d) \<Longrightarrow> idle_updater (drop_rule i) n d"
    using assms by (simp_all add: idle_updater_def edit_rule_def drop_rule_def stored_rules_def)
  have "plain_value []" by (simp add: plain_value_def parseLooseValue_def)
  then show "idle_updater (add_rule now) n d"
    using assms by (simp add: idle_updater_def add_rule_def stored_rules_def normalizePruneRule_def)
qed

lemma find_prune_rules:
  "find (\<lambda>r. o_id r = k) ops = Some r \<Longrightarrow>
     find (\<lambda>r. o_id r = k) (fst (prune_rules now k u n ops)) = Some (r\<lparr>o_value_text := fst (prune_value now u n (o_value_text r))\<rparr>)"
  by (induction ops) (auto simp: case_prod_unfold)

lemma prune_update_selected:
  assumes "selectedOperation s = Some r" "o_mode r = ''prune_objects''" "prune_value now u (ed_seed s) (o_value_text r) = (vt', n2)"
    "pruneObjectsDraft now (updatePruneObjectsDraft now (o_id r) u s) = Some (d', m')"
  shows "\<exists>m. parsePruneObjectsDraft now m vt' = (d', m')"
proof -
  have sel: "ed_selectedOperationId s = o_id r" using assms(1) by (auto simp: selectedOperation_def find_Some_iff)
  let ?t = "updatePruneObjectsDraft now (o_id r) u s"
  have "selectedOperation ?t = Some (r\<lparr>o_value_text := vt'\<rparr>)"
    using find_prune_rules [of "o_id r" "ed_operations s" r now u "ed_seed s"] assms(1, 3)
    by (simp add: selectedOperation_def updatePruneObjectsDraft_def case_prod_unfold sel)
  with assms(2, 4) show ?thesis by (auto simp: pruneObjectsDraft_def)
qed

text \<open>C39. In the advanced view of a \<open>prune_objects\<close> rule the buttons and fields of the conditions have no
  effect: after adding a condition, or after editing or removing one that is shown, the conditions that
  are shown are those of before, without the ones that have no path.\<close>

theorem prune_conditions_frozen:
  assumes "selectedOperation s = Some r" "pruneObjectsDraft now s = Some (d, n1)" "\<not> p_simpleMode d"
    "list_all (\<lambda>c. plain_value (c_value_text c)) (p_rules d)"
    "s' = addPruneRule now (o_id r) (render now s)
     \<or> (\<exists>c\<in>set (p_rules d). s' = updatePruneRule now (o_id r) (c_id c) p (render now s)
          \<or> s' = removePruneRule now (o_id r) (c_id c) (render now s))"
    "pruneObjectsDraft now s' = Some (d', n2)"
  shows "map anon (p_rules d') = stored_rules d \<and> p_typeText d' = trim (p_typeText d)"
proof -
  let ?s = "render now s"
  have r: "o_mode r = ''prune_objects''" "parsePruneObjectsDraft now (ed_seed s) (o_value_text r) = (d, n1)"
    using assms(1, 2) by (auto simp: pruneObjectsDraft_def split: if_splits)
  have s: "selectedOperation ?s = Some r" "ed_seed ?s = n1"
    using assms(1, 2) by (simp_all add: render_def selectedOperation_def)
  obtain e m where e: "parsePruneObjectsDraft now n1 (o_value_text r) = (e, m)" by fastforce
  note shown = prune_draft_shown [OF r(2) e]
  have fresh: "c_id c \<notin> c_id ` set (p_rules e)" if "c \<in> set (p_rules d)" for c
    using that prune_draft_again(3) [OF r(2) e] prune_draft_again(3) [OF e r(2)] nextLocalId_inject
    by (fastforce simp: image_subset_iff)
  have "\<not> p_simpleMode e" "list_all (\<lambda>c. plain_value (c_value_text c)) (p_rules e)" using assms(3, 4) shown by simp_all
  from idle_updaters [OF this] have "\<exists>u. s' = updatePruneObjectsDraft now (o_id r) u ?s \<and> idle_updater u m e"
    using assms(5) fresh unfolding addPruneRule_def updatePruneRule_def removePruneRule_def by metis
  then obtain u where u: "s' = updatePruneObjectsDraft now (o_id r) u ?s" "idle_updater u m e" by blast
  obtain vt' k where v: "prune_value now u n1 (o_value_text r) = (vt', k)" by fastforce
  obtain k' where "parsePruneObjectsDraft now k' vt' = (d', n2)"
    using prune_update_selected [OF s(1) r(1), of now u] v s(2) assms(6) u(1) by metis
  from idle_prune_value [OF e u(2) v this] show ?thesis using shown by simp
qed

subsection \<open>A text that the dialog saves and cannot open\<close>

lemma map_seed_throws: "x \<in> set xs \<Longrightarrow> (\<And>n. f n x = None) \<Longrightarrow> map_seed f n xs = None"
  by (induction xs arbitrary: n) (auto split: option.splits)

text \<open>C40. The JSON view saves every JSON text; an object whose list of operations has a null is saved, and
  then opening the dialog on the saved text throws.\<close>

theorem saved_null_rule_throws:
  assumes "ed_editMode s = Json_text" "json_parse (trim (ed_jsonText s)) = Some (JObj ps)"
    "obj_get ps ''operations'' = JArr vs" "JNull \<in> set vs" "plain_numbers (JObj ps)"
  shows "\<exists>t. handleSave s = s\<lparr>ed_saved := ed_saved s @ [t], ed_open := False\<rparr> \<and> json_parse t = Some (JObj ps)
    \<and> open_dialog now t s' = None"
proof -
  let ?t = "json_pretty (JObj ps)"
  have wf: "wf_json (JObj ps)" using json_parse_wf assms(2, 5) by blast
  have "trim (ed_jsonText s) \<noteq> []" using assms(2) by (auto simp: json_parse_def)
  then have "handleSave s = s\<lparr>ed_saved := ed_saved s @ [?t], ed_open := False\<rparr>"
    using assms(1, 2) by (simp add: handleSave_def save_result_def Let_def)
  moreover have "map_seed (normalizeOperation now) n vs = None" for n
    using assms(4) by (rule map_seed_throws) (simp add: normalizeOperation_def)
  then have "parseInitialState now n ?t = None" for n
    using trim_json_pretty [OF wf] json_parse_pretty [OF wf] json_pretty_neq_Nil [OF wf] assms(3, 4)
    by (auto simp: parseInitialState_def read_operations_def Let_def)
  ultimately show ?thesis using json_parse_pretty [OF wf] by (auto simp: open_dialog_def)
qed

subsection \<open>Concrete sessions\<close>

text \<open>A session that fills in the path and the value of the first rule.\<close>

definition sample_session :: editor where
  "sample_session =
     (let now = \<lambda>_. 0; act = \<lambda>ev s. case editor_event_do now ev s of Some t \<Rightarrow> keep_selection t | None \<Rightarrow> s
      in act (Patch_rule ''po_0_0'' (Patch_value_text ''7''))
           (act (Patch_rule ''po_0_0'' (Patch_path ''temperature'')) (editor_init now 0)))"

lemma sample_session_reach: "reach (editor_step (\<lambda>_. 0)) (editor_init (\<lambda>_. 0) 0) sample_session"
proof -
  let ?now = "\<lambda>_. 0 :: nat" and ?init = "editor_init (\<lambda>_. 0) 0"
  have step: "reach (editor_step ?now) ?init (keep_selection (updateOperation k p s))"
    if "reach (editor_step ?now) ?init s" "menu_event (Patch_rule k p)" for s k p
    by (rule reach_step [OF that(1) act [OF that(2)]]) simp
  show ?thesis unfolding sample_session_def Let_def by (simp add: step reach_init)
qed

lemma sample_session_state:
  "ed_editMode sample_session = Visual" "ed_visualMode sample_session = Operations"
  "list_all (\<lambda>r. o_value_text r = ''7'' \<and> o_conditions r = []) (ed_operations sample_session)"
  "\<not> list_all isOperationBlank (ed_operations sample_session)" "length (ed_operations sample_session) = 1"
  by code_simp+

lemma sample_session_plain: "list_all plain_rule (ed_operations sample_session)"
proof -
  have "plain_rule r" if "o_value_text r = ''7''" "o_conditions r = []" for r
    using that dec_rat_of_int [of 7] by (simp add: plain_rule_def plain_value_def sample_loose)
  then show ?thesis using sample_session_state(3) by (simp add: list_all_iff)
qed

theorem override_dialog_invariant_witness:
  "\<exists>!i. i < length (ed_operations sample_session) \<and> o_id (ed_operations sample_session ! i) = ed_selectedOperationId sample_session"
  using override_dialog_invariant [OF sample_session_reach] by blast

theorem override_dialog_saves_witness:
  "\<exists>t doc. handleSave sample_session = sample_session\<lparr>ed_saved := ed_saved sample_session @ [t], ed_open := False\<rparr>
     \<and> json_parse t = Some doc \<and> typed_document False doc"
proof -
  let ?ops = "filter (\<lambda>r. \<not> isOperationBlank r) (ed_operations sample_session)"
  have "?ops \<noteq> []" "validateOperations ?ops = None" "list_all (\<lambda>r. \<not> leftover_to r) ?ops" by code_simp+
  with override_dialog_saves [OF sample_session_reach sample_session_state(1, 2) sample_session_plain refl]
  show ?thesis by auto
qed

theorem override_view_roundtrip_witness:
  "\<exists>s'. switchToVisualMode (\<lambda>_. 0) (switchToJsonMode sample_session) = Some s' \<and> ed_visualMode s' = Operations"
  using override_view_roundtrip [OF sample_session_reach sample_session_state(1, 2) sample_session_plain sample_session_state(4)]
  by blast

theorem template_append_witness:
  "\<exists>s' new. fillTemplate (\<lambda>_. 0) Append sample_session = Some s' \<and> new \<noteq> []
     \<and> ed_operations s' = filter (\<lambda>r. \<not> isOperationBlank r) (ed_operations sample_session) @ new"
proof -
  have "map_of TEMPLATE_PRESET_CONFIG (ed_templatePresetKey sample_session) = Some (Operations_template, OPERATION_TEMPLATE)"
    by code_simp
  from template_append [OF this sample_session_state(2), of "\<lambda>_. 0"] show ?thesis by auto
qed

lemma anon_path: "map c_path cs = map c_path (map anon cs)"
  by (induction cs) (simp_all add: anon_def)

text \<open>A rule whose two conditions are shown.\<close>

definition sample_prune :: editor where
  "sample_prune =
     (let c = \<lambda>p. JObj [(''path'', JStr p), (''mode'', JStr ''full'')];
          r = (sample_rule ''a'' (json_text (JObj [(''logic'', JStr ''OR''), (''conditions'', JArr [c ''a'', c ''b''])])))
                \<lparr>o_mode := ''prune_objects''\<rparr>
      in (editor_init (\<lambda>_. 0) 0)\<lparr>ed_operations := [r], ed_selectedOperationId := ''a''\<rparr>)"

definition shown_prune_draft :: "editor \<Rightarrow> prune_draft" where
  "shown_prune_draft s = (case pruneObjectsDraft (\<lambda>_. 0) s of Some (d, _) \<Rightarrow> d | None \<Rightarrow> prune_defaults)"

theorem prune_conditions_frozen_witness:
  "map c_path (p_rules (shown_prune_draft sample_prune)) = [''a'', ''b'']
   \<and> map c_path (p_rules (shown_prune_draft (removePruneRule (\<lambda>_. 0) ''a'' ''po_0_1'' (render (\<lambda>_. 0) sample_prune)))) = [''a'', ''b'']"
proof -
  let ?now = "\<lambda>_. 0 :: nat"
  let ?t = "removePruneRule ?now ''a'' ''po_0_1'' (render ?now sample_prune)"
  have r: "selectedOperation sample_prune = Some (hd (ed_operations sample_prune))"
    "o_id (hd (ed_operations sample_prune)) = ''a''" by code_simp+
  have some: "\<exists>d n. pruneObjectsDraft ?now s = Some (d, n)" if "(case pruneObjectsDraft ?now s of None \<Rightarrow> False | Some _ \<Rightarrow> True)" for s
    using that by (auto split: option.splits)
  have "case pruneObjectsDraft ?now sample_prune of None \<Rightarrow> False | Some _ \<Rightarrow> True"
    "case pruneObjectsDraft ?now ?t of None \<Rightarrow> False | Some _ \<Rightarrow> True" by code_simp+
  with some obtain d n d' n' where d: "pruneObjectsDraft ?now sample_prune = Some (d, n)" "pruneObjectsDraft ?now ?t = Some (d', n')"
    by metis
  then have sh: "shown_prune_draft sample_prune = d" "shown_prune_draft ?t = d'" by (simp_all add: shown_prune_draft_def)
  have "\<not> p_simpleMode (shown_prune_draft sample_prune)"
    "list_all (\<lambda>c. c_value_text c = []) (p_rules (shown_prune_draft sample_prune))"
    "map c_path (p_rules (shown_prune_draft sample_prune)) = [''a'', ''b'']"
    "map c_id (p_rules (shown_prune_draft sample_prune)) = [''po_0_1'', ''po_0_2'']"
    "map c_path (stored_rules (shown_prune_draft sample_prune)) = [''a'', ''b'']" by code_simp+
  note facts = this [unfolded sh]
  have "plain_value []" by (simp add: plain_value_def parseLooseValue_def)
  then have plain: "list_all (\<lambda>c. plain_value (c_value_text c)) (p_rules d)" using facts(2) by (auto simp: list_all_iff)
  obtain c where c: "c \<in> set (p_rules d)" "c_id c = ''po_0_1''" using facts(4) by (cases "p_rules d") auto
  have "map anon (p_rules d') = stored_rules d"
    using prune_conditions_frozen [OF r(1) d(1) facts(1) plain, of ?t _ d' n'] c d(2) r(2) by metis
  then have "map c_path (p_rules d') = map c_path (stored_rules d)"
    using anon_path by metis
  with facts sh show ?thesis by simp
qed

theorem saved_null_rule_throws_witness:
  "\<exists>t. json_parse t = Some (JObj [(''operations'', JArr [JNull])])
     \<and> open_dialog (\<lambda>_. 0) t (editor_init (\<lambda>_. 0) 0) = None"
proof -
  let ?doc = "JObj [(''operations'', JArr [JNull])]"
  let ?s = "(editor_init (\<lambda>_. 0) 0)\<lparr>ed_editMode := Json_text, ed_jsonText := json_text ?doc\<rparr>"
  have wf: "wf_json ?doc" by code_simp
  have "json_parse (trim (ed_jsonText ?s)) = Some ?doc"
    using trim_json_text [OF wf] json_parse_text [OF wf] by (simp del: json_text.simps)
  from saved_null_rule_throws [OF _ this, of "[JNull]" "\<lambda>_. 0" "editor_init (\<lambda>_. 0) 0"]
  show ?thesis by (auto simp del: json_text.simps)
qed

end
