(* ===== verification/Spec2Isabelle.thy ===== *)
theory Spec2Isabelle
  imports Status_Codes Channel_Submit Channel_Types Billing_Editor Qr_Dialog Wallet_Account Chat_Stream Param_Session
begin

text \<open>
  \<^bold>\<open>A verification library for the web console.\<close>

  The repository is an API gateway (a Go server) with a web console in TypeScript.  This
  library verifies the parts of the console that decide something: what an administrator's
  input means, what is sent to the server, which prices are charged, and how the pages behave
  when answers arrive late, twice, broken or not at all.  All paths below are relative to
  \<open>src/web/default/src\<close>.

  \<^bold>\<open>Language layer.\<close>
  \<^item> \<open>Js_Prelude\<close>: strings and arrays.  A string is the byte string of its UTF-8 encoding; white
    space, trimming, splitting, joining, searching, stable sorting, and the contracts of a
    comparator and of a separated list text.
  \<^item> \<open>Js_Number\<close>: numbers as NaN, the infinities and exact rationals; printing and reading, with
    \<open>Number(String(n)) = n\<close> for finite decimals.  Rounding of doubles is not modelled.
  \<^item> \<open>Js_Json\<close>: values, objects with the enumeration order of the language, \<open>JSON.parse\<close> with
    fuel (the length of the text plus one, shown to be enough) and \<open>JSON.stringify\<close>, with their
    round trip.
  \<^item> \<open>Js_Regex\<close>: a backtracking matcher with captures and back references for the regular
    expressions of the code, and a calculus of its first match.
  \<^item> \<open>Transitions\<close>: event-driven components: reachability, inevitability, the contract of an
    inductive invariant and the contract of ranked progress, interpreted by every machine below.

  \<^bold>\<open>Channels\<close> (\<open>features/channels\<close>, \<open>lib/http-status-code-rules.ts\<close>).
  \<^item> \<open>Status_Codes\<close>: the parser of status code rules; it accepts exactly the well-formed rules,
    its ranges cover exactly the codes named, its normal form is canonical and stable.
  \<^item> \<open>Status_Risk\<close>, \<open>Model_Mapping\<close>: the collectors of invalid and of risky status code
    redirects; the checks of the model mapping and the state of upstream model updates.
  \<^item> \<open>Channel_Types\<close>, \<open>Channel_Utils\<close>: tables of types and statuses; keys, groups, tags and the
    aggregation of channels by tag.
  \<^item> \<open>Channel_Form\<close>: schema, defaults and payloads; saving, opening and saving again gives the
    same settings, unknown settings survive, an unedited update is empty of changes.
  \<^item> \<open>Channel_Submit\<close>: the submit handler; a request leaves only when its checks have passed, and
    it carries the models the mapping needs where the user lets the handler add them.

  \<^bold>\<open>Parameter override\<close>
  (\<open>features/channels/components/dialogs/param-override-editor-dialog.tsx\<close>).
  \<^item> \<open>Js_Pretty\<close>: \<open>JSON.stringify(v, null, 2)\<close> and that it is read back.
  \<^item> \<open>Param_Override\<close>: the tables of modes, values as text, the readers of a rule and a condition.
  \<^item> \<open>Param_Drafts\<close>: the drafts of the sub-editors (\<open>sync_fields\<close>, \<open>return_error\<close>, \<open>prune_objects\<close>,
    \<open>pass_headers\<close>) and what is kept of them through the value text.
  \<^item> \<open>Param_Document\<close>: the list of rules, the check, the writer and the reader of the document.  What is
    written is well-typed, but for a \<open>to\<close> that a rule has kept from another mode, and read back as the
    same rules; saving it again changes nothing; the check names the first incomplete rule; a theorem
    shows which values change their type.
  \<^item> \<open>Param_Editor\<close>: the templates and the dialog as a machine, one definition for each handler and
    effect; identifiers come from a clock and a counter, a \<open>TypeError\<close> that is not caught is None.
  \<^item> \<open>Param_Session\<close>: in every reachable state there is a rule, one is selected and identifiers are
    unique; what saving does is decided by the check; the JSON view and back keeps the rules.  Three
    theorems show defects: a legacy template drops the rules, the conditions of \<open>prune_objects\<close> cannot
    be edited, and a saved null rule makes the dialog throw.

  \<^bold>\<open>Billing expressions\<close> (\<open>features/pricing/lib/billing-expr.ts\<close>, \<open>tier-expr.ts\<close>).
  \<^item> \<open>Billing_Expr\<close>, \<open>Request_Rules\<close>, \<open>Tier_Expr\<close>: the variables and regular expressions, the
    builder and the reader of request rules, the splitter of an expression, the visual tiers.
    Exceptions are values of a sum.
  \<^item> \<open>Rule_Roundtrip\<close>, \<open>Tier_Roundtrip\<close>, \<open>Billing_Editor\<close>: what the editors write they read back,
    for the rules and tiers that the expressions can carry (\<open>wf_group\<close>, \<open>wf_config\<close>) and for the combined
    expression; a theorem shows that comparisons and containment tests on parameters are not read back.

  \<^bold>\<open>Wallet\<close> (\<open>features/wallet\<close>).
  \<^item> \<open>Qr_Payment\<close>: payment sessions and the polling hook (\<open>qr-payment-session.ts\<close>,
    \<open>hooks/use-qr-payment-status-polling.ts\<close>) as a machine.  Each asynchronous call is cut at its
    awaits; the values its closure captured are in its entry of \<open>requests\<close>.  At most one poll of
    the session on screen is under way and the indicator shows it; late polls are dropped; a
    payment is reported once; a success is inevitably shown if the polls and the handler fail only
    finitely often (the number of failures to come is part of the state of \<open>qr_progress\<close>).  The
    check that drops late answers is missing behind the success handler, and a theorem shows
    what follows.
  \<^item> \<open>Qr_Dialog\<close>: the page around it (\<open>hooks/use-qr-payment-success-close.ts\<close>,
    \<open>lib/qr-payment-refresh.ts\<close>, \<open>index.tsx\<close>): a closed dialog starts no poll, closing behind a
    success always completes, a confirmed payment is polled.
  \<^item> \<open>Topup_Info\<close>: the readers of the top-up settings, minimum, presets, discounts
    (\<open>hooks/use-topup-info.ts\<close>, \<open>lib/payment.ts\<close>, \<open>lib/format.ts\<close>).
  \<^item> \<open>Wallet_Account\<close>: commission, withdrawal and contract (\<open>hooks/use-wallet-account.ts\<close>,
    \<open>lib/wallet-account-loader.ts\<close>, \<open>lib/piggy-withdraw-amounts.ts\<close>); the tax estimate is a
    machine in which only the answer to the latest request counts.

  \<^bold>\<open>Playground\<close> (\<open>features/playground\<close>).
  \<^item> \<open>Chat_Messages\<close>: messages, think tags, streaming updates, repair of stored messages and the
    request (\<open>lib/message-utils.ts\<close>, \<open>lib/payload-builder.ts\<close>).  The loop over the tags is total and
    agrees with a cut into segments.
  \<^item> \<open>Chat_Stream\<close>: the event source, the chat handler and the page
    (\<open>hooks/use-stream-request.ts\<close>, \<open>hooks/use-chat-handler.ts\<close>, \<open>index.tsx\<close>) as a machine, with
    and without streaming: a streamed reply equals the whole one; with streaming no message is left
    loading while no suggestion is clicked and no editor saved during a generation.  Three theorems
    show where this fails: a closing tag cut in two, a suggestion clicked meanwhile, and a response
    without a choice to a request that does not stream.

  \<^bold>\<open>Correspondence.\<close>  A definition has the name of the function it translates; a handler that
  waits is several definitions, one for each stretch between two awaits.  The state of a
  component or hook is a record with the names of its state variables and refs.  A JavaScript
  exception is a value (None or the left side of a sum) and the handlers that catch it are
  branches.  Network answers, timers, clicks and the answers of confirmation dialogs are
  inputs: arguments of an operation or events of a machine.  Of the event-source library only
  this is relied on: a source that is closed or has ended delivers nothing more.

  \<^bold>\<open>Bounds.\<close>  The JSON reader and the decimal expansion run on fuel: the length of the text plus
  one, and the 1100 decimal places no double exceeds.  The loops of the regular expression
  matcher, the tag splitter and the string routines are total functions with termination proofs.

  \<^bold>\<open>Not modelled.\<close>  The Go server, the classic console and the desktop shell are other programs.
  Markup, styling, routes, translations and the configuration of the HTTP client decide nothing.
  The display of currencies, numbers and dates goes through the locale data of the browser.
  \<open>evalExprLocally\<close> compiles program text at run time.  The remaining feature pages are listed in
  the project manifest.
\<close>

end
